(* ===== verification/Prelude.thy ===== *)
theory Prelude
  imports Main "HOL-Library.Word"
begin

text \<open>
  Shared vocabulary of the development: the types of the Go program (bytes, strings, errors), the
  shape of a Go operation (it returns a value and a nil error, returns an error, panics, or does
  not return at all), the parts of the Go standard library that every component uses
  (\<open>copy\<close>, \<open>encoding/binary\<close>, \<open>io.ReadFull\<close>, \<open>bytes.Reader\<close>, \<open>bytes.Buffer\<close>,
  \<open>crypto/rand\<close>), and the two interfaces between the components: \<open>byte_source\<close> and
  \<open>full_reader\<close> for what reads, \<open>byte_sink\<close> for what writes.
\<close>

unbundle bit_operations_syntax

named_theorems io_simps \<open>evaluation of the operations of the io type\<close>
named_theorems be_simps \<open>encoding and decoding of big-endian integers\<close>

section \<open>Bytes and strings\<close>

type_synonym byte = "8 word"
type_synonym bytes = "8 word list"

text \<open>A Go string is a sequence of bytes; \<open>char\<close> has 256 values, so \<open>string\<close> is that type. The
  conversions \<open>[]byte(s)\<close> and \<open>string(b)\<close> are written out.\<close>

definition byte_of_char :: "char \<Rightarrow> byte" where
  "byte_of_char c = of_nat (of_char c)"

definition char_of_byte :: "byte \<Rightarrow> char" where
  "char_of_byte b = char_of (unat b)"

definition bytes_of :: "string \<Rightarrow> bytes" where
  "bytes_of s = map byte_of_char s"

definition string_of :: "bytes \<Rightarrow> string" where
  "string_of b = map char_of_byte b"

lemma unat_byte_less [simp]: "unat (b :: byte) < 256"
  using unsigned_less [of b] by simp

lemma char_of_byte_of_char [simp]: "char_of_byte (byte_of_char c) = c"
  by (simp add: byte_of_char_def char_of_byte_def unat_of_nat)

lemma byte_of_char_of_byte [simp]: "byte_of_char (char_of_byte b) = b"
proof -
  have "unat b mod 256 = unat b"
    by simp
  then show ?thesis
    by (simp add: byte_of_char_def char_of_byte_def)
qed

lemma string_of_bytes_of [simp]: "string_of (bytes_of s) = s"
  by (simp add: string_of_def bytes_of_def comp_def)

lemma bytes_of_string_of [simp]: "bytes_of (string_of b) = b"
  by (simp add: string_of_def bytes_of_def comp_def)

lemma length_bytes_of [simp]: "length (bytes_of s) = length s"
  by (simp add: bytes_of_def)

lemma length_string_of [simp]: "length (string_of b) = length b"
  by (simp add: string_of_def)

lemma bytes_of_append [simp]: "bytes_of (s @ t) = bytes_of s @ bytes_of t"
  by (simp add: bytes_of_def)

section \<open>Go slices\<close>

text \<open>\<open>copy(dst, src)\<close> overwrites the first \<open>min(len(dst), len(src))\<close> elements of \<open>dst\<close>;
  \<open>copyAt i src dst\<close> is \<open>copy(dst[i:], src)\<close>. \<open>make([]byte, n)\<close> is \<open>zeros n\<close>.\<close>

definition gocopy :: "'a list \<Rightarrow> 'a list \<Rightarrow> 'a list" where
  "gocopy dst src = take (length dst) src @ drop (length src) dst"

definition copyAt :: "nat \<Rightarrow> 'a list \<Rightarrow> 'a list \<Rightarrow> 'a list" where
  "copyAt i src dst = take i dst @ gocopy (drop i dst) src"

definition zeros :: "nat \<Rightarrow> bytes" where
  "zeros n = replicate n 0"

lemma length_zeros [simp]: "length (zeros n) = n"
  by (simp add: zeros_def)

lemma length_gocopy [simp]: "length (gocopy dst src) = length dst"
  by (simp add: gocopy_def)

lemma length_copyAt [simp]: "length (copyAt i src dst) = length dst"
  by (simp add: copyAt_def)

lemma take_gocopy: "n \<le> length src \<Longrightarrow> n \<le> length dst \<Longrightarrow> take n (gocopy dst src) = take n src"
  by (simp add: gocopy_def)

lemma take_copyAt_prefix: "n \<le> i \<Longrightarrow> i \<le> length dst \<Longrightarrow> take n (copyAt i src dst) = take n dst"
  by (simp add: copyAt_def)

lemma take_copyAt:
  "i + length src \<le> length dst \<Longrightarrow> take (i + length src) (copyAt i src dst) = take i dst @ src"
  by (simp add: copyAt_def gocopy_def)

lemma gocopy_all: "length src = length dst \<Longrightarrow> gocopy dst src = src"
  by (simp add: gocopy_def)

section \<open>Big-endian integers\<close>

text \<open>\<open>binary.BigEndian.PutUint<8n>\<close> stores \<open>byte(v >> 8(n-1)), ..., byte(v)\<close>, and
  \<open>binary.BigEndian.Uint<8n>\<close> reads them back.\<close>

fun be :: "nat \<Rightarrow> nat \<Rightarrow> bytes" where
  "be 0 v = []"
| "be (Suc n) v = of_nat (v div 256 ^ n) # be n v"

fun ube :: "bytes \<Rightarrow> nat" where
  "ube [] = 0"
| "ube (b # bs) = unat b * 256 ^ length bs + ube bs"

definition putUint16 :: "16 word \<Rightarrow> bytes" where
  "putUint16 v = be 2 (unat v)"

definition putUint32 :: "32 word \<Rightarrow> bytes" where
  "putUint32 v = be 4 (unat v)"

definition putUint64 :: "64 word \<Rightarrow> bytes" where
  "putUint64 v = be 8 (unat v)"

definition uint16 :: "bytes \<Rightarrow> 16 word" where
  "uint16 b = of_nat (ube b)"

definition uint32 :: "bytes \<Rightarrow> 32 word" where
  "uint32 b = of_nat (ube b)"

definition uint64 :: "bytes \<Rightarrow> 64 word" where
  "uint64 b = of_nat (ube b)"

lemma length_be [simp]: "length (be n v) = n"
  by (induction n) auto

lemma ube_be [be_simps]: "ube (be n v) = v mod 256 ^ n"
proof (induction n)
  case 0
  then show ?case by simp
next
  case (Suc n)
  have "ube (be (Suc n) v) = (v div 256 ^ n mod 256) * 256 ^ n + v mod 256 ^ n"
    using Suc by (simp add: unat_of_nat)
  also have "\<dots> = v mod (256 ^ n * 256)"
    by (metis mod_mult2_eq mult.commute)
  finally show ?case
    by (simp add: mult.commute)
qed

lemma ube_less: "ube b < 256 ^ length b"
proof (induction b)
  case Nil
  then show ?case by simp
next
  case (Cons x b)
  have "unat x * 256 ^ length b + ube b < unat x * 256 ^ length b + 256 ^ length b"
    using Cons by simp
  also have "\<dots> = (unat x + 1) * 256 ^ length b"
    by (simp add: algebra_simps)
  also have "\<dots> \<le> 256 * 256 ^ length b"
    using unat_byte_less [of x] by (intro mult_right_mono) (simp_all add: Suc_le_eq)
  finally show ?case by simp
qed

lemma be_2: "be 2 v = [of_nat (v div 256), of_nat v]"
proof -
  have two: "2 = Suc (Suc 0)" by simp
  show ?thesis unfolding two by simp
qed

lemma be_4: "be 4 v = [of_nat (v div 16777216), of_nat (v div 65536), of_nat (v div 256), of_nat v]"
proof -
  have four: "4 = Suc (Suc (Suc (Suc 0)))" by simp
  show ?thesis unfolding four by (simp add: power2_eq_square power3_eq_cube)
qed

lemma length_putUint [simp]:
  "length (putUint16 v16) = 2" "length (putUint32 v32) = 4" "length (putUint64 v64) = 8"
  by (simp_all add: putUint16_def putUint32_def putUint64_def)

lemma unat_word_less [simp]:
  "unat (v16 :: 16 word) < 65536" "unat (v32 :: 32 word) < 4294967296"
  "unat (v64 :: 64 word) < 18446744073709551616"
  using unsigned_less [of v16] unsigned_less [of v32] unsigned_less [of v64] by simp_all

lemma uint16_put [simp]: "uint16 (putUint16 v) = v"
  by (simp add: uint16_def putUint16_def ube_be)

lemma uint32_put [simp]: "uint32 (putUint32 v) = v"
  by (simp add: uint32_def putUint32_def ube_be)

lemma uint64_put [simp]: "uint64 (putUint64 v) = v"
  by (simp add: uint64_def putUint64_def ube_be)

lemma unat_of_nat32: "n < 4294967296 \<Longrightarrow> unat (of_nat n :: 32 word) = n"
  by (simp add: unat_of_nat)

lemma unat_of_nat16: "n < 65536 \<Longrightarrow> unat (of_nat n :: 16 word) = n"
  by (simp add: unat_of_nat)

lemma unat_of_nat64: "n < 18446744073709551616 \<Longrightarrow> unat (of_nat n :: 64 word) = n"
  by (simp add: unat_of_nat)

lemma unat_of_nat8: "n < 256 \<Longrightarrow> unat (of_nat n :: 8 word) = n"
  by (simp add: unat_of_nat)

section \<open>Operations that may fail, panic or not return\<close>

text \<open>The errors the program distinguishes: \<open>utils.IsIOError\<close> tests for \<open>io.EOF\<close> and
  \<open>*net.OpError\<close>; everything else is a message.\<close>

datatype goerr =
    EOF
  | UnexpectedEOF
  | ErrShortBuffer
  | OpError string
  | Errorf string

datatype 'a res = Ok 'a | Err goerr | Panic

text \<open>An operation on a state of type \<open>'s\<close>. \<open>None\<close>: the call never returns.\<close>

type_synonym ('a, 's) io = "'s \<Rightarrow> ('a res \<times> 's) option"

definition ret :: "'a \<Rightarrow> ('a, 's) io" where
  "ret x s = Some (Ok x, s)"

definition throw :: "goerr \<Rightarrow> ('a, 's) io" where
  "throw e s = Some (Err e, s)"

definition panic :: "('a, 's) io" where
  "panic s = Some (Panic, s)"

definition lift :: "'a res \<Rightarrow> ('a, 's) io" where
  "lift r s = Some (r, s)"

text \<open>\<open>if x, err := m(); err != nil { return err } else { k(x) }\<close>\<close>

definition bind :: "('a, 's) io \<Rightarrow> ('a \<Rightarrow> ('b, 's) io) \<Rightarrow> ('b, 's) io" where
  "bind m k s =
     (case m s of
        None \<Rightarrow> None
      | Some (Ok x, s') \<Rightarrow> k x s'
      | Some (Err e, s') \<Rightarrow> Some (Err e, s')
      | Some (Panic, s') \<Rightarrow> Some (Panic, s'))"

lemma ret_apply [io_simps]: "ret x s = Some (Ok x, s)"
  by (simp add: ret_def)

lemma throw_apply [io_simps]: "throw e s = Some (Err e, s)"
  by (simp add: throw_def)

lemma panic_apply [io_simps]: "panic s = Some (Panic, s)"
  by (simp add: panic_def)

lemma lift_apply [io_simps]: "lift r s = Some (r, s)"
  by (simp add: lift_def)

lemma bind_Ok [io_simps]: "m s = Some (Ok x, s') \<Longrightarrow> bind m k s = k x s'"
  by (simp add: bind_def)

lemma bind_Err [io_simps]: "m s = Some (Err e, s') \<Longrightarrow> bind m k s = Some (Err e, s')"
  by (simp add: bind_def)

lemma bind_Panic [io_simps]: "m s = Some (Panic, s') \<Longrightarrow> bind m k s = Some (Panic, s')"
  by (simp add: bind_def)

lemma bind_OkI: "m s = Some (Ok x, s') \<Longrightarrow> k x s' = r \<Longrightarrow> bind m k s = r"
  by (simp add: bind_def)

lemma bind_ret [simp]: "bind (ret x) k = k x"
  by (rule ext) (simp add: bind_def ret_def)

lemma bind_lift_Ok [simp]: "bind (lift (Ok x)) k = k x"
  by (rule ext) (simp add: bind_def lift_def)

lemma bind_throw [simp]: "bind (throw e) k = throw e"
  by (rule ext) (simp add: bind_def throw_def)

lemma bind_assoc: "bind (bind m k) h = bind m (\<lambda>x. bind (k x) h)"
  by (rule ext) (simp add: bind_def split: option.splits res.splits)

lemma bind_eq_Ok:
  "bind m k s = Some (Ok y, s'') \<longleftrightarrow>
     (\<exists>x s'. m s = Some (Ok x, s') \<and> k x s' = Some (Ok y, s''))"
  by (auto simp: bind_def split: option.splits res.splits)

section \<open>Reading: io.Reader and io.ReadFull\<close>

text \<open>\<open>rd n\<close> is \<open>r.Read(buf)\<close> with \<open>len(buf) = n\<close>; its value is \<open>buf[:size]\<close>.
  \<open>io.ReadFull(r, buf)\<close> calls it until \<open>len(buf)\<close> bytes are there, and turns an \<open>io.EOF\<close> after
  the first byte into \<open>io.ErrUnexpectedEOF\<close>. A reader that returns 0 bytes and no error is called
  again, so the loop need not end.\<close>

type_synonym 's reader = "nat \<Rightarrow> (bytes, 's) io"
type_synonym 's writer = "bytes \<Rightarrow> (nat, 's) io"

partial_function (option) readLoop :: "'s reader \<Rightarrow> bytes \<Rightarrow> nat \<Rightarrow> 's \<Rightarrow> (bytes res \<times> 's) option" where
  "readLoop rd acc k s =
     (if k = 0 then Some (Ok acc, s)
      else case rd k s of
        None \<Rightarrow> None
      | Some (Ok d, s') \<Rightarrow> readLoop rd (acc @ d) (k - length d) s'
      | Some (Err e, s') \<Rightarrow>
          Some (Err (if acc \<noteq> [] \<and> e = EOF then UnexpectedEOF else e), s')
      | Some (Panic, s') \<Rightarrow> Some (Panic, s'))"

declare readLoop.simps [code]

definition readFull :: "'s reader \<Rightarrow> 's reader" where
  "readFull rd n s = readLoop rd [] n s"

text \<open>What \<open>io.ReadFull\<close> returns on a stream whose remaining bytes are \<open>c\<close>.\<close>

definition fullSpec :: "nat \<Rightarrow> bytes \<Rightarrow> bytes res" where
  "fullSpec n c =
     (if n \<le> length c then Ok (take n c) else if c = [] then Err EOF else Err UnexpectedEOF)"

text \<open>The contract of something whose next \<open>n\<close> bytes can be read at once: the operation
  \<open>io.ReadFull(r, make([]byte, n))\<close> as the decoders use it.\<close>

locale full_reader =
  fixes rf :: "'s reader" and content :: "'s \<Rightarrow> bytes" and good :: "'s \<Rightarrow> bool"
  assumes rf_spec:
    "good s \<Longrightarrow> \<exists>s'. rf n s = Some (fullSpec n (content s), s') \<and> good s' \<and> content s' = drop n (content s)"
begin

lemma rf_ok:
  assumes "good s" and "n \<le> length (content s)"
  shows "\<exists>s'. rf n s = Some (Ok (take n (content s)), s') \<and> good s' \<and> content s' = drop n (content s)"
  using rf_spec [OF assms(1), of n] assms(2) by (simp add: fullSpec_def)

lemma rf_append:
  assumes "good s" and "content s = xs @ rest" and "length xs = n"
  obtains s' where "rf n s = Some (Ok xs, s')" and "good s'" and "content s' = rest"
  using rf_ok [OF assms(1), of n] assms by fastforce

lemma rf_eof:
  assumes "good s" and "content s = []" and "0 < n"
  obtains s' where "rf n s = Some (Err EOF, s')" and "good s'" and "content s' = []"
  using rf_spec [OF assms(1), of n] assms by (fastforce simp: fullSpec_def)

lemma rf_short:
  assumes "good s" and "content s \<noteq> []" and "length (content s) < n"
  obtains s' where "rf n s = Some (Err UnexpectedEOF, s')" and "good s'" and "content s' = []"
  using rf_spec [OF assms(1), of n] assms by (fastforce simp: fullSpec_def)

end

text \<open>The contract of \<open>io.Reader\<close>, for a stream with the remaining bytes \<open>content s\<close>: a call
  delivers a prefix of them, at most as long as the buffer, or \<open>io.EOF\<close> when none are left. A call
  may deliver nothing, but only while the measure \<open>rank\<close> goes down.\<close>

definition source_step ::
  "('s \<Rightarrow> bytes) \<Rightarrow> ('s \<Rightarrow> bool) \<Rightarrow> ('s \<Rightarrow> nat) \<Rightarrow> nat \<Rightarrow> 's \<Rightarrow> bytes res \<Rightarrow> 's \<Rightarrow> bool" where
  "source_step content good rank k s r s' \<longleftrightarrow>
     good s' \<and>
     (case r of
        Ok d \<Rightarrow> length d \<le> k \<and> content s = d @ content s' \<and> (d = [] \<longrightarrow> rank s' < rank s)
      | Err e \<Rightarrow> e = EOF \<and> content s = [] \<and> content s' = []
      | Panic \<Rightarrow> False)"

locale byte_source =
  fixes rd :: "'s reader" and content :: "'s \<Rightarrow> bytes" and good :: "'s \<Rightarrow> bool" and rank :: "'s \<Rightarrow> nat"
  assumes rd_step:
    "good s \<Longrightarrow> 0 < k \<Longrightarrow> \<exists>r s'. rd k s = Some (r, s') \<and> source_step content good rank k s r s'"
begin

lemma readLoop_spec:
  assumes "good s"
  shows "\<exists>s'. readLoop rd acc k s =
      Some (if k \<le> length (content s) then Ok (acc @ take k (content s))
            else if acc @ content s = [] then Err EOF else Err UnexpectedEOF, s')
    \<and> good s' \<and> content s' = drop k (content s)"
  using assms
proof (induction "(k, rank s)" arbitrary: k s acc rule: wf_induct_rule [OF wf_lex_prod [OF wf_less wf_less]])
  case less: 1
  show ?case
  proof (cases "k = 0")
    case True
    with less.prems show ?thesis
      by (subst readLoop.simps) simp
  next
    case False
    then obtain r s1 where step: "rd k s = Some (r, s1)" and ok: "source_step content good rank k s r s1"
      using rd_step [OF less.prems, of k] by auto
    show ?thesis
    proof (cases r)
      case (Ok d)
      with ok have d: "length d \<le> k" "content s = d @ content s1" "d = [] \<longrightarrow> rank s1 < rank s" "good s1"
        by (auto simp: source_step_def)
      have "((k - length d, rank s1), (k, rank s)) \<in> {(x, y). x < y} <*lex*> {(x, y). x < y}"
        using d False by (cases "d = []") auto
      from less.hyps [OF this \<open>good s1\<close>, of "acc @ d"] obtain s' where
        "readLoop rd (acc @ d) (k - length d) s1 =
          Some (if k - length d \<le> length (content s1) then Ok ((acc @ d) @ take (k - length d) (content s1))
            else if (acc @ d) @ content s1 = [] then Err EOF else Err UnexpectedEOF, s')"
        "good s'" "content s' = drop (k - length d) (content s1)"
        by blast
      with step Ok d False show ?thesis
        by (subst readLoop.simps) (auto simp: le_diff_conv)
    next
      case (Err e)
      with step ok False show ?thesis
        by (subst readLoop.simps) (auto simp: source_step_def)
    next
      case Panic
      with ok show ?thesis
        by (simp add: source_step_def)
    qed
  qed
qed

end

text \<open>Whatever honours \<open>io.Reader\<close> can be read in full: \<open>io.ReadFull\<close> returns, with the bytes asked
  for or the error of \<open>fullSpec\<close>.\<close>

sublocale byte_source \<subseteq> full: full_reader "readFull rd" content good
proof
  fix s n
  assume "good s"
  from readLoop_spec [OF this, of "[]" n]
  show "\<exists>s'. readFull rd n s = Some (fullSpec n (content s), s') \<and> good s' \<and> content s' = drop n (content s)"
    by (simp only: readFull_def fullSpec_def append_Nil)
qed

section \<open>Writing: io.Writer\<close>

text \<open>Chunks written one after the other.\<close>

fun writeEach :: "'s writer \<Rightarrow> bytes list \<Rightarrow> (unit, 's) io" where
  "writeEach wr [] = ret ()"
| "writeEach wr (d # ds) = bind (wr d) (\<lambda>_. writeEach wr ds)"

text \<open>The contract of a destination that accepts every chunk that fits: \<open>sent s\<close> is everything written
  so far.\<close>

locale byte_sink =
  fixes wr :: "'s writer" and sent :: "'s \<Rightarrow> bytes" and wgood :: "'s \<Rightarrow> bool" and fits :: "bytes \<Rightarrow> bool"
  assumes wr_spec:
    "wgood s \<Longrightarrow> fits d \<Longrightarrow> \<exists>n s'. wr d s = Some (Ok n, s') \<and> wgood s' \<and> sent s' = sent s @ d"
begin

lemma wr_ok:
  assumes "wgood s" and "fits d"
  obtains n s' where "wr d s = Some (Ok n, s')" and "wgood s'" and "sent s' = sent s @ d"
  using wr_spec [OF assms] by blast

lemma writeEach_sent:
  assumes "wgood s" and "list_all fits ds"
  shows "\<exists>s'. writeEach wr ds s = Some (Ok (), s') \<and> wgood s' \<and> sent s' = sent s @ concat ds"
  using assms
proof (induction ds arbitrary: s)
  case Nil
  then show ?case by (simp add: io_simps)
next
  case (Cons d ds)
  then obtain n s1 where s1: "wr d s = Some (Ok n, s1)" "wgood s1" "sent s1 = sent s @ d"
    using wr_ok [of s d] by auto
  with Cons obtain s2 where "writeEach wr ds s1 = Some (Ok (), s2)" "wgood s2" "sent s2 = sent s1 @ concat ds"
    by fastforce
  with s1 show ?case
    by (simp add: io_simps)
qed

end

section \<open>bytes.Reader, bytes.Buffer and network connections\<close>

text \<open>\<open>bytes.NewReader(dat)\<close>: the state is what is left to read.\<close>

definition bytesReader :: "bytes reader" where
  "bytesReader n s = Some (if s = [] then (Err EOF, s) else (Ok (take n s), drop n s))"

interpretation br: byte_source bytesReader "\<lambda>s. s" "\<lambda>_. True" "\<lambda>_. 0"
  by unfold_locales (auto simp: bytesReader_def source_step_def)

lemma readFull_bytesReader: "readFull bytesReader n s = Some (fullSpec n s, drop n s)"
  using br.full.rf_spec [of n s] by simp

text \<open>\<open>bytes.NewBuffer([]byte{})\<close> as a destination: the state is what was written.\<close>

definition bufferWrite :: "bytes writer" where
  "bufferWrite d s = Some (Ok (length d), s @ d)"

interpretation bw: byte_sink bufferWrite "\<lambda>s. s" "\<lambda>_. True" "\<lambda>_. True"
  by unfold_locales (simp add: bufferWrite_def)

text \<open>A TCP connection whose peer sends the bytes \<open>concat segs\<close> and closes: the network hands them
  over in segments, one call of \<open>Read\<close> never crosses a segment boundary. Nothing is assumed about
  where the boundaries are.\<close>

fun connRead :: "nat \<Rightarrow> bytes list \<Rightarrow> (bytes res \<times> bytes list) option" where
  "connRead n [] = Some (Err EOF, [])"
| "connRead n (seg # segs) =
     Some (Ok (take n seg), (if drop n seg = [] then segs else drop n seg # segs))"

interpretation conn: byte_source connRead concat "\<lambda>_. True" length
proof
  fix s :: "bytes list" and k :: nat
  assume "0 < k"
  then show "\<exists>r s'. connRead k s = Some (r, s') \<and> source_step concat (\<lambda>_. True) length k s r s'"
    by (cases s) (auto simp: source_step_def simp flip: append_assoc)
qed

section \<open>crypto/rand\<close>

text \<open>The operating system's random bytes are an infinite tape; \<open>rand.Read(make([]byte, n))\<close> takes
  the next \<open>n\<close> of them.\<close>

type_synonym tape = "nat \<Rightarrow> byte"

definition randBytes :: "nat \<Rightarrow> tape \<Rightarrow> bytes" where
  "randBytes n t = map t [0..<n]"

definition randSkip :: "nat \<Rightarrow> tape \<Rightarrow> tape" where
  "randSkip n t = (\<lambda>i. t (n + i))"

lemma length_randBytes [simp]: "length (randBytes n t) = n"
  by (simp add: randBytes_def)

end
