(* ===== verification/Message.thy ===== *)
theory Message
  imports Prelude
begin

text \<open>
  The messages of the tunnel protocol (\<open>message/message.go\<close>): one record per struct, one constructor
  per implementation of the interface \<open>Message\<close>, and the three methods of that interface.
\<close>

definition KindData :: byte where "KindData = 0"
definition KindRequestDNS :: byte where "KindRequestDNS = 1"
definition KindResultDNS :: byte where "KindResultDNS = 2"
definition KindRequestDial :: byte where "KindRequestDial = 4"
definition KindConnectionState :: byte where "KindConnectionState = 8"
definition KindPingPong :: byte where "KindPingPong = 16"

lemmas Kind_defs = KindData_def KindRequestDNS_def KindResultDNS_def KindRequestDial_def
  KindConnectionState_def KindPingPong_def

record MessageRequestDNS =
  dnsReq_Id :: "32 word"
  dnsReq_Network :: string
  dnsReq_DomainName :: string

record MessageResultDNS =
  dnsRes_Id :: "32 word"
  dnsRes_Ack :: "32 word"
  dnsRes_Addresses :: "bytes list"
  dnsRes_Error :: string

record MessageRequestDial =
  dial_Id :: "32 word"
  dial_Network :: string
  dial_Address :: string
  dial_ConnectionId :: string

record MessageConnectionState =
  state_Id :: "32 word"
  state_Ack :: "32 word"
  state_ConnectionId :: string
  state_State :: string
  state_Error :: string
  state_ErrorType :: string

record MessageData =
  data_Id :: "32 word"
  data_Ack :: "32 word"
  data_ConnectionId :: string
  data_Data :: bytes

record MessagePing =
  ping_Id :: "32 word"
  ping_Ack :: "32 word"

datatype message =
    RequestDNS MessageRequestDNS
  | ResultDNS MessageResultDNS
  | RequestDial MessageRequestDial
  | ConnectionState MessageConnectionState
  | Data MessageData
  | Ping MessagePing

fun Kind :: "message \<Rightarrow> byte" where
  "Kind (RequestDNS m) = KindRequestDNS"
| "Kind (ResultDNS m) = KindResultDNS"
| "Kind (RequestDial m) = KindRequestDial"
| "Kind (ConnectionState m) = KindConnectionState"
| "Kind (Data m) = KindData"
| "Kind (Ping m) = KindPingPong"

fun MessageId :: "message \<Rightarrow> 32 word" where
  "MessageId (RequestDNS m) = dnsReq_Id m"
| "MessageId (ResultDNS m) = dnsRes_Id m"
| "MessageId (RequestDial m) = dial_Id m"
| "MessageId (ConnectionState m) = state_Id m"
| "MessageId (Data m) = data_Id m"
| "MessageId (Ping m) = ping_Id m"

fun AckMessageId :: "message \<Rightarrow> 32 word" where
  "AckMessageId (RequestDNS m) = 0"
| "AckMessageId (ResultDNS m) = dnsRes_Ack m"
| "AckMessageId (RequestDial m) = 0"
| "AckMessageId (ConnectionState m) = state_Ack m"
| "AckMessageId (Data m) = data_Ack m"
| "AckMessageId (Ping m) = ping_Ack m"

end
