(* ===== verification/Go_Std.thy ===== *)
theory Go_Std
  imports Prelude
begin

text \<open>
  The parts of \<open>strconv\<close>, \<open>fmt\<close>, \<open>strings\<close> and \<open>encoding/base64\<close> that the program calls:
  decimal numbers (\<open>%d\<close>, \<open>strconv.Atoi\<close>, \<open>strconv.ParseInt(s, 10, 64)\<close>), \<open>strings.EqualFold\<close>
  on ASCII names, and \<open>base64.StdEncoding\<close>, each with the round trip the program relies on.
\<close>

abbreviation code :: "char \<Rightarrow> nat" where
  "code c \<equiv> of_char c"

section \<open>Decimal numbers\<close>

definition digitChar :: "nat \<Rightarrow> char" where
  "digitChar d = char_of (48 + d)"

definition isDigit :: "char \<Rightarrow> bool" where
  "isDigit c \<longleftrightarrow> 48 \<le> code c \<and> code c \<le> 57"

text \<open>\<open>fmt.Sprintf("%d", n)\<close>\<close>

fun showNat :: "nat \<Rightarrow> string" where
  "showNat n = (if n < 10 then [digitChar n] else showNat (n div 10) @ [digitChar (n mod 10)])"

declare showNat.simps [simp del]

definition showInt :: "int \<Rightarrow> string" where
  "showInt i = (if i < 0 then CHR ''-'' # showNat (nat (- i)) else showNat (nat i))"

definition parseDigits :: "string \<Rightarrow> nat option" where
  "parseDigits s =
     (if s = [] \<or> \<not> list_all isDigit s then None
      else Some (foldl (\<lambda>n c. 10 * n + (code c - 48)) 0 s))"

text \<open>\<open>strconv.ParseInt(s, 10, 64)\<close>, and on a 64-bit machine \<open>strconv.Atoi(s)\<close>.\<close>

definition parseInt64 :: "string \<Rightarrow> int option" where
  "parseInt64 s =
     (case s of
        [] \<Rightarrow> None
      | c # r \<Rightarrow>
          let neg = (c = CHR ''-''); ds = (if c = CHR ''-'' \<or> c = CHR ''+'' then r else s)
          in (case parseDigits ds of
               None \<Rightarrow> None
             | Some n \<Rightarrow>
                 if neg then (if n \<le> 2 ^ 63 then Some (- int n) else None)
                 else if n < 2 ^ 63 then Some (int n) else None))"

lemma code_digitChar [simp]: "d < 10 \<Longrightarrow> code (digitChar d) = 48 + d"
  by (simp add: digitChar_def)

lemma isDigit_digitChar [simp]: "d < 10 \<Longrightarrow> isDigit (digitChar d)"
  by (simp add: isDigit_def)

lemma showNat_digits: "list_all isDigit (showNat n)"
proof (induction n rule: showNat.induct)
  case (1 n)
  then show ?case
    by (cases "n < 10") (simp_all add: showNat.simps [of n])
qed

lemma showNat_nonempty [simp]: "showNat n \<noteq> []"
  by (simp add: showNat.simps [of n])

lemma foldl_showNat: "foldl (\<lambda>n c. 10 * n + (code c - 48)) 0 (showNat n) = n"
proof (induction n rule: showNat.induct)
  case (1 n)
  then show ?case
    by (cases "n < 10") (simp_all add: showNat.simps [of n])
qed

lemma parseDigits_showNat [simp]: "parseDigits (showNat n) = Some n"
  by (simp add: parseDigits_def showNat_digits foldl_showNat)

lemma showNat_Cons: obtains c r where "showNat n = c # r" and "isDigit c" and "list_all isDigit r"
  using showNat_digits [of n] by (cases "showNat n") auto

lemma digit_not_sign: "isDigit c \<Longrightarrow> c \<noteq> CHR ''-'' \<and> c \<noteq> CHR ''+''"
  by (auto simp: isDigit_def)

lemma parseInt64_showNat: "n < 2 ^ 63 \<Longrightarrow> parseInt64 (showNat n) = Some (int n)"
proof -
  assume n: "n < 2 ^ 63"
  obtain c r where cr: "showNat n = c # r" "isDigit c" by (rule showNat_Cons)
  with digit_not_sign have "c \<noteq> CHR ''-''" "c \<noteq> CHR ''+''" by auto
  with n cr(1) parseDigits_showNat [of n] show ?thesis
    by (simp add: parseInt64_def)
qed

text \<open>What \<open>%d\<close> prints of an \<open>int64\<close>, \<open>ParseInt\<close> reads back.\<close>

lemma parseInt64_showInt:
  assumes "- (2 ^ 63) \<le> i" and "i < 2 ^ 63"
  shows "parseInt64 (showInt i) = Some i"
proof (cases "i < 0")
  case True
  with assms show ?thesis
    by (simp add: showInt_def parseInt64_def nat_le_iff)
next
  case False
  with assms have "nat i < 2 ^ 63" by (simp add: nat_less_iff)
  from parseInt64_showNat [OF this] False show ?thesis
    by (simp add: showInt_def)
qed

section \<open>Case folding\<close>

definition toLowerChar :: "char \<Rightarrow> char" where
  "toLowerChar c = (if 65 \<le> code c \<and> code c \<le> 90 then char_of (code c + 32) else c)"

definition toUpperChar :: "char \<Rightarrow> char" where
  "toUpperChar c = (if 97 \<le> code c \<and> code c \<le> 122 then char_of (code c - 32) else c)"

text \<open>\<open>strings.EqualFold(s, t)\<close> where \<open>t\<close> is an ASCII literal without the letters \<open>k\<close> and \<open>s\<close>
  needs only ASCII folding; for those two the Kelvin sign (\<open>E2 84 AA\<close>) and the long s
  (\<open>C5 BF\<close>) fold as well. \<open>foldName\<close> is also the folding of \<open>encoding/json\<close>.\<close>

function foldName :: "string \<Rightarrow> string" where
  "foldName s =
     (case s of
        [] \<Rightarrow> []
      | c # r \<Rightarrow>
          if map code (take 2 s) = [0xC5, 0xBF] then CHR ''S'' # foldName (drop 2 s)
          else if map code (take 3 s) = [0xE2, 0x84, 0xAA] then CHR ''K'' # foldName (drop 3 s)
          else toUpperChar c # foldName r)"
  by pat_completeness auto
termination
  by (relation "measure length") auto

declare foldName.simps [simp del]

definition equalFold :: "string \<Rightarrow> string \<Rightarrow> bool" where
  "equalFold s t \<longleftrightarrow> foldName s = foldName t"

lemma equalFold_refl [simp]: "equalFold s s"
  by (simp add: equalFold_def)

lemma foldName_ascii: "list_all (\<lambda>c. code c < 128) s \<Longrightarrow> foldName s = map toUpperChar s"
  by (induction s) (simp_all add: foldName.simps split: list.split)

section \<open>Base 64\<close>

definition b64char :: "nat \<Rightarrow> char" where
  "b64char v =
     (if v < 26 then char_of (65 + v)
      else if v < 52 then char_of (97 + (v - 26))
      else if v < 62 then char_of (48 + (v - 52))
      else if v = 62 then CHR ''+'' else CHR ''/'')"

definition b64val :: "char \<Rightarrow> nat option" where
  "b64val c =
     (let n = code c in
      if 65 \<le> n \<and> n \<le> 90 then Some (n - 65)
      else if 97 \<le> n \<and> n \<le> 122 then Some (n - 97 + 26)
      else if 48 \<le> n \<and> n \<le> 57 then Some (n - 48 + 52)
      else if n = 43 then Some 62
      else if n = 47 then Some 63
      else None)"

text \<open>\<open>base64.StdEncoding.EncodeToString\<close>: three bytes become four characters; a last group of one
  or two bytes is padded with \<open>=\<close>.\<close>

fun b64encode :: "bytes \<Rightarrow> string" where
  "b64encode [] = []"
| "b64encode [a] =
     (let n = unat a * 65536
      in [b64char (n div 262144), b64char (n div 4096 mod 64), CHR ''='', CHR ''=''])"
| "b64encode [a, b] =
     (let n = unat a * 65536 + unat b * 256
      in [b64char (n div 262144), b64char (n div 4096 mod 64), b64char (n div 64 mod 64), CHR ''=''])"
| "b64encode (a # b # c # r) =
     (let n = unat a * 65536 + unat b * 256 + unat c
      in b64char (n div 262144) # b64char (n div 4096 mod 64)
         # b64char (n div 64 mod 64) # b64char (n mod 64) # b64encode r)"

text \<open>\<open>base64.StdEncoding.DecodeString\<close>: carriage returns and newlines are ignored; then groups of
  four characters. Padding is accepted at the end of the last group only, and the surplus low bits
  of a padded group are dropped (the encoding is not strict).\<close>

fun b64groups :: "string \<Rightarrow> bytes option" where
  "b64groups [] = Some []"
| "b64groups (w # x # y # z # r) =
     (case (b64val w, b64val x) of
        (Some p, Some q) \<Rightarrow>
          (case (b64val y, b64val z) of
             (Some u, Some v) \<Rightarrow>
               (let n = p * 262144 + q * 4096 + u * 64 + v
                in map_option (\<lambda>bs. of_nat (n div 65536) # of_nat (n div 256) # of_nat n # bs) (b64groups r))
           | (Some u, None) \<Rightarrow>
               (if z = CHR ''='' \<and> r = []
                then (let n = p * 262144 + q * 4096 + u * 64 in Some [of_nat (n div 65536), of_nat (n div 256)])
                else None)
           | _ \<Rightarrow>
               (if y = CHR ''='' \<and> z = CHR ''='' \<and> r = []
                then (let n = p * 262144 + q * 4096 in Some [of_nat (n div 65536)])
                else None))
      | _ \<Rightarrow> None)"
| "b64groups _ = None"

definition b64decode :: "string \<Rightarrow> bytes option" where
  "b64decode s = b64groups (filter (\<lambda>c. code c \<noteq> 13 \<and> code c \<noteq> 10) s)"

lemma b64val_char [simp]: "v < 64 \<Longrightarrow> b64val (b64char v) = Some v"
  by (auto simp: b64val_def b64char_def Let_def)

lemma b64val_pad [simp]: "b64val (CHR ''='') = None"
  by (simp add: b64val_def)

lemma b64char_no_newline: "code (b64char v) \<noteq> 13 \<and> code (b64char v) \<noteq> 10"
  by (auto simp: b64char_def)

lemma of_nat_byte_unat: "n mod 256 = unat b \<Longrightarrow> (of_nat n :: byte) = b"
proof -
  assume "n mod 256 = unat b"
  then have "unat (of_nat n :: byte) = unat b"
    by (simp add: unat_of_nat)
  then show ?thesis
    by (simp add: word_unat_eq_iff)
qed

lemma sextets:
  assumes "n < 16777216"
  shows "n div 262144 < 64"
    and "n div 262144 * 262144 + n div 4096 mod 64 * 4096 + n div 64 mod 64 * 64 + n mod 64 = (n::nat)"
proof -
  show "n div 262144 < 64"
    using assms by (simp add: div_less_iff_less_mult)
  have "n div 4096 = n div 4096 div 64 * 64 + n div 4096 mod 64"
    and "n div 64 = n div 64 div 64 * 64 + n div 64 mod 64"
    and "n = n div 64 * 64 + n mod 64"
    by simp_all
  moreover have "n div 4096 div 64 = n div 262144" "n div 64 div 64 = n div 4096"
    by (simp_all add: div_mult2_eq [symmetric])
  ultimately show "n div 262144 * 262144 + n div 4096 mod 64 * 4096 + n div 64 mod 64 * 64 + n mod 64 = n"
    by linarith
qed

lemma b64group_n:
  defines "n \<equiv> \<lambda>a b c :: byte. unat a * 65536 + unat b * 256 + unat c"
  shows "n a b c < 16777216"
    and "(of_nat (n a b c div 65536) :: byte) = a"
    and "(of_nat (n a b c div 256) :: byte) = b"
    and "(of_nat (n a b c) :: byte) = c"
proof -
  have ls: "unat a < 256" "unat b < 256" "unat c < 256" by simp_all
  then show "n a b c < 16777216" unfolding n_def by linarith
  from ls have "n a b c div 65536 = unat a" "n a b c div 256 = unat a * 256 + unat b"
    unfolding n_def by linarith+
  moreover have "n a b c = (unat a * 256 + unat b) * 256 + unat c"
    by (simp add: n_def)
  then have "n a b c mod 256 = unat c"
    by (simp only: mod_mult_self3 mod_less unat_byte_less)
  moreover have "(unat a * 256 + unat b) mod 256 = unat b"
    by (simp only: mod_mult_self3 mod_less unat_byte_less)
  ultimately show "(of_nat (n a b c div 65536) :: byte) = a" "(of_nat (n a b c div 256) :: byte) = b"
    "(of_nat (n a b c) :: byte) = c"
    by (simp_all only: of_nat_byte_unat mod_less unat_byte_less)
qed

lemma b64groups_encode: "b64groups (b64encode b) = Some b"
proof (induction b rule: b64encode.induct)
  case 1
  then show ?case by simp
next
  case (2 a)
  define n where "n = unat a * 65536 + unat (0 :: byte) * 256 + unat (0 :: byte)"
  note facts = sextets [of n] b64group_n [of a 0 0, folded n_def]
  have "n div 64 mod 64 = 0" "n mod 64 = 0"
    by (simp_all add: n_def)
  with facts show ?case
    by (simp add: Let_def n_def [simplified, symmetric])
next
  case (3 a b)
  define n where "n = unat a * 65536 + unat b * 256 + unat (0 :: byte)"
  note facts = sextets [of n] b64group_n [of a b 0, folded n_def]
  have "n mod 64 = 0"
    by (simp add: n_def)
  with facts show ?case
    by (simp add: Let_def n_def [simplified, symmetric])
next
  case (4 a b c r)
  define n where "n = unat a * 65536 + unat b * 256 + unat c"
  note facts = sextets [of n] b64group_n [of a b c, folded n_def]
  with "4.IH" show ?case
    by (simp add: Let_def n_def [symmetric])
qed

lemma filter_b64encode: "filter (\<lambda>c. code c \<noteq> 13 \<and> code c \<noteq> 10) (b64encode b) = b64encode b"
  by (induction b rule: b64encode.induct) (simp_all add: Let_def b64char_no_newline)

lemma b64decode_encode [simp]: "b64decode (b64encode b) = Some b"
  by (simp add: b64decode_def filter_b64encode b64groups_encode)

lemma length_b64encode: "length (b64encode b) = 4 * ((length b + 2) div 3)"
proof (induction b rule: b64encode.induct)
  case (4 a b c r)
  have "(5 + length r) div 3 = Suc ((length r + 2) div 3)"
    by presburger
  with 4 show ?case
    by (simp add: Let_def)
qed (simp_all add: Let_def)

end
