(* ===== verification/Go_Json.thy ===== *)
theory Go_Json
  imports Go_Std
begin

text \<open>
  The part of \<open>encoding/json\<close> that the codec and the packet layer use: \<open>json.Marshal\<close> of a struct
  whose fields are strings and \<open>uint32\<close>s, and \<open>json.Unmarshal\<close> of any JSON text into such a struct.
  Text is a Go string, that is, a sequence of bytes; the quoting and unquoting follow the UTF-8 rules
  of the Go package. The main result is that unmarshalling what was marshalled gives the fields back,
  for strings that are valid UTF-8.
\<close>

section \<open>UTF-8\<close>

definition inRange :: "nat \<Rightarrow> nat \<Rightarrow> char \<Rightarrow> bool" where
  "inRange lo hi c \<longleftrightarrow> lo \<le> code c \<and> code c \<le> hi"

fun contBytes :: "nat \<Rightarrow> nat \<Rightarrow> string \<Rightarrow> bool" where
  "contBytes lo hi [] \<longleftrightarrow> False"
| "contBytes lo hi (c # r) \<longleftrightarrow> inRange lo hi c \<and> list_all (inRange 0x80 0xBF) r"

text \<open>For the first byte of a multi-byte rune: how many bytes follow it, and the range of the first of
  them (the tables \<open>first\<close> and \<open>acceptRanges\<close> of \<open>unicode/utf8\<close>).\<close>

definition runeSpec :: "nat \<Rightarrow> (nat \<times> nat \<times> nat) option" where
  "runeSpec b =
     (if b < 0xC2 then None
      else if b < 0xE0 then Some (1, 0x80, 0xBF)
      else if b = 0xE0 then Some (2, 0xA0, 0xBF)
      else if b = 0xED then Some (2, 0x80, 0x9F)
      else if b < 0xF0 then Some (2, 0x80, 0xBF)
      else if b = 0xF0 then Some (3, 0x90, 0xBF)
      else if b < 0xF4 then Some (3, 0x80, 0xBF)
      else if b = 0xF4 then Some (3, 0x80, 0x8F)
      else None)"

text \<open>The number of bytes of the first rune (\<open>utf8.DecodeRuneInString\<close>), 0 where the bytes are not
  UTF-8.\<close>

definition runeLen :: "string \<Rightarrow> nat" where
  "runeLen s =
     (case s of
        [] \<Rightarrow> 0
      | c # r \<Rightarrow>
          if code c < 0x80 then 1
          else (case runeSpec (code c) of
                  None \<Rightarrow> 0
                | Some (k, lo, hi) \<Rightarrow> if k \<le> length r \<and> contBytes lo hi (take k r) then Suc k else 0))"

lemma runeLen_le: "runeLen s \<le> length s"
  by (simp add: runeLen_def split: list.split option.split)

lemma runeLen_take: "runeLen s \<noteq> 0 \<Longrightarrow> runeLen (take (runeLen s) s @ t) = runeLen s"
  by (auto simp: runeLen_def split: list.splits if_splits option.splits)

lemma runeLen_pos: "s \<noteq> [] \<Longrightarrow> runeLen s \<noteq> 0 \<Longrightarrow> length s - runeLen s < length s"
  using runeLen_le [of s] by simp

function validUTF8 :: "string \<Rightarrow> bool" where
  "validUTF8 s = (if s = [] then True else if runeLen s = 0 then False else validUTF8 (drop (runeLen s) s))"
  by pat_completeness auto
termination
  by (relation "measure length") auto

declare validUTF8.simps [simp del]

text \<open>\<open>utf8.AppendRune\<close> for a code point that is not a surrogate.\<close>

definition encodeRune :: "nat \<Rightarrow> string" where
  "encodeRune n =
     map char_of
       (if n < 0x80 then [n]
        else if n < 0x800 then [0xC0 + n div 64, 0x80 + n mod 64]
        else if n < 0x10000 then [0xE0 + n div 4096, 0x80 + n div 64 mod 64, 0x80 + n mod 64]
        else [0xF0 + n div 262144, 0x80 + n div 4096 mod 64, 0x80 + n div 64 mod 64, 0x80 + n mod 64])"

section \<open>Quoting\<close>

abbreviation bsl :: char where "bsl \<equiv> CHR 0x5C"
abbreviation dq :: char where "dq \<equiv> CHR 0x22"

definition hexChar :: "nat \<Rightarrow> char" where
  "hexChar n = (if n < 10 then char_of (48 + n) else char_of (87 + n))"

definition hexVal :: "char \<Rightarrow> nat option" where
  "hexVal c =
     (let n = code c in
      if 48 \<le> n \<and> n \<le> 57 then Some (n - 48)
      else if 97 \<le> n \<and> n \<le> 102 then Some (n - 87)
      else if 65 \<le> n \<and> n \<le> 70 then Some (n - 55)
      else None)"

text \<open>The bytes that \<open>appendString\<close> copies (\<open>htmlSafeSet\<close>), and its escapes.\<close>

definition htmlSafe :: "char \<Rightarrow> bool" where
  "htmlSafe c \<longleftrightarrow> 0x20 \<le> code c \<and> code c < 0x80 \<and> c \<noteq> dq \<and> c \<noteq> bsl \<and> c \<noteq> CHR ''<'' \<and> c \<noteq> CHR ''>'' \<and> c \<noteq> CHR ''&''"

definition escAscii :: "char \<Rightarrow> string" where
  "escAscii c =
     (if htmlSafe c then [c]
      else if c = bsl \<or> c = dq then [bsl, c]
      else if code c = 8 then [bsl, CHR ''b'']
      else if code c = 12 then [bsl, CHR ''f'']
      else if code c = 10 then [bsl, CHR ''n'']
      else if code c = 13 then [bsl, CHR ''r'']
      else if code c = 9 then [bsl, CHR ''t'']
      else [bsl, CHR ''u'', CHR ''0'', CHR ''0'', hexChar (code c div 16), hexChar (code c mod 16)])"

function jescape :: "string \<Rightarrow> string" where
  "jescape s =
     (case s of
        [] \<Rightarrow> []
      | c # r \<Rightarrow>
          if code c < 0x80 then escAscii c @ jescape r
          else if runeLen s = 0 then bsl # ''ufffd'' @ jescape r
          else if map code (take 3 s) = [0xE2, 0x80, 0xA8] then bsl # ''u2028'' @ jescape (drop 3 s)
          else if map code (take 3 s) = [0xE2, 0x80, 0xA9] then bsl # ''u2029'' @ jescape (drop 3 s)
          else take (runeLen s) s @ jescape (drop (runeLen s) s))"
  by pat_completeness auto
termination
  by (relation "measure length") auto

declare jescape.simps [simp del]

lemma jescape_safe: "list_all htmlSafe s \<Longrightarrow> jescape s = s"
  by (induction s) (simp_all add: jescape.simps escAscii_def htmlSafe_def)

definition jquote :: "string \<Rightarrow> string" where
  "jquote s = dq # jescape s @ [dq]"

text \<open>Unquoting: \<open>junquote s\<close> reads a string literal whose opening quote is already consumed, and
  returns its value and what follows the closing quote. An escape is one the scanner accepts; a
  surrogate that is not followed by its second half, and a byte that is not UTF-8, become U+FFFD.\<close>

fun hex4 :: "string \<Rightarrow> nat option" where
  "hex4 (p # q # u # v # r) =
     (case (hexVal p, hexVal q, hexVal u, hexVal v) of
        (Some a, Some b, Some c, Some d) \<Rightarrow> Some (((a * 16 + b) * 16 + c) * 16 + d)
      | _ \<Rightarrow> None)"
| "hex4 _ = None"

definition isSurrogate :: "nat \<Rightarrow> bool" where
  "isSurrogate n \<longleftrightarrow> 0xD800 \<le> n \<and> n < 0xE000"

text \<open>The second half of a surrogate pair at the head of \<open>s\<close>, if \<open>hi\<close> is a first half.\<close>

definition lowSurrogate :: "nat \<Rightarrow> string \<Rightarrow> nat option" where
  "lowSurrogate hi s =
     (if take 2 s = [bsl, CHR ''u'']
      then (case hex4 (drop 2 s) of
              Some lo \<Rightarrow>
                if hi < 0xDC00 \<and> 0xDC00 \<le> lo \<and> lo < 0xE000
                then Some (0x10000 + (hi - 0xD800) * 1024 + (lo - 0xDC00)) else None
            | None \<Rightarrow> None)
      else None)"

definition simpleEsc :: "char \<Rightarrow> char option" where
  "simpleEsc c =
     (if c = dq \<or> c = bsl \<or> c = CHR ''/'' then Some c
      else if c = CHR ''b'' then Some (CHR 0x08)
      else if c = CHR ''f'' then Some (CHR 0x0C)
      else if c = CHR ''n'' then Some (CHR 0x0A)
      else if c = CHR ''r'' then Some (CHR 0x0D)
      else if c = CHR ''t'' then Some (CHR 0x09)
      else None)"

definition prepend :: "string \<Rightarrow> (string \<times> 'a) option \<Rightarrow> (string \<times> 'a) option" where
  "prepend p = map_option (\<lambda>(x, r). (p @ x, r))"

function junquote :: "string \<Rightarrow> (string \<times> string) option" where
  "junquote s =
     (case s of
        [] \<Rightarrow> None
      | c # r \<Rightarrow>
          if c = dq then Some ([], r)
          else if c = bsl then
            (case r of
               [] \<Rightarrow> None
             | e # r' \<Rightarrow>
                 if e = CHR ''u'' then
                   (case hex4 r' of
                      None \<Rightarrow> None
                    | Some n \<Rightarrow>
                        if isSurrogate n
                        then (case lowSurrogate n (drop 4 r') of
                                Some m \<Rightarrow> prepend (encodeRune m) (junquote (drop 10 r'))
                              | None \<Rightarrow> prepend (encodeRune 0xFFFD) (junquote (drop 4 r')))
                        else prepend (encodeRune n) (junquote (drop 4 r')))
                 else (case simpleEsc e of None \<Rightarrow> None | Some x \<Rightarrow> prepend [x] (junquote r')))
          else if code c < 0x20 then None
          else if code c < 0x80 then prepend [c] (junquote r)
          else if runeLen s = 0 then prepend (encodeRune 0xFFFD) (junquote r)
          else prepend (take (runeLen s) s) (junquote (drop (runeLen s) s)))"
  by pat_completeness auto
termination
  by (relation "measure length") auto

declare junquote.simps [simp del]

section \<open>Values\<close>

datatype json =
    JNull
  | JBool bool
  | JNum string
  | JStr string
  | JArr "json list"
  | JObj "(string \<times> json) list"

definition isSpace :: "char \<Rightarrow> bool" where
  "isSpace c \<longleftrightarrow> code c = 32 \<or> code c = 9 \<or> code c = 13 \<or> code c = 10"

definition jws :: "string \<Rightarrow> string" where
  "jws s = dropWhile isSpace s"

definition jliteral :: "string \<Rightarrow> json \<Rightarrow> string \<Rightarrow> (json \<times> string) option" where
  "jliteral w v s = (if take (length w) s = w then Some (v, drop (length w) s) else None)"

definition digits1 :: "string \<Rightarrow> (string \<times> string) option" where
  "digits1 s = (if takeWhile isDigit s = [] then None else Some (takeWhile isDigit s, dropWhile isDigit s))"

text \<open>Numbers: \<open>-? (0 | [1-9][0-9]*) (\.[0-9]+)? ([eE][+-]?[0-9]+)?\<close>\<close>

definition jfrac :: "string \<Rightarrow> (string \<times> string) option" where
  "jfrac s =
     (case s of
        c # r \<Rightarrow> if c = CHR ''.'' then prepend [c] (digits1 r) else Some ([], s)
      | [] \<Rightarrow> Some ([], s))"

definition jexp :: "string \<Rightarrow> (string \<times> string) option" where
  "jexp s =
     (case s of
        c # r \<Rightarrow>
          if c = CHR ''e'' \<or> c = CHR ''E''
          then (case r of
                  d # r' \<Rightarrow> if d = CHR ''+'' \<or> d = CHR ''-'' then prepend [c, d] (digits1 r') else prepend [c] (digits1 r)
                | [] \<Rightarrow> None)
          else Some ([], s)
      | [] \<Rightarrow> Some ([], s))"

definition jint :: "string \<Rightarrow> (string \<times> string) option" where
  "jint s = (case s of c # r \<Rightarrow> if c = CHR ''0'' then Some ([c], r) else digits1 s | [] \<Rightarrow> None)"

definition jnumber :: "string \<Rightarrow> (json \<times> string) option" where
  "jnumber s =
     (let (sgn, s0) = (case s of c # r \<Rightarrow> if c = CHR ''-'' then ([c], r) else ([], s) | [] \<Rightarrow> ([], s))
      in case jint s0 of None \<Rightarrow> None
       | Some (i, s1) \<Rightarrow>
           (case jfrac s1 of None \<Rightarrow> None
            | Some (f, s2) \<Rightarrow>
                (case jexp s2 of None \<Rightarrow> None
                 | Some (e, s3) \<Rightarrow> Some (JNum (sgn @ i @ f @ e), s3))))"

text \<open>A recursive-descent reading of the grammar that \<open>checkValid\<close> accepts, objects and arrays nested at
  most 10000 deep. The first argument is fuel: a value of \<open>n\<close> characters needs at most
  \<open>2 * n + 1\<close> (\<open>jvalue_fuel\<close> below), which is what \<open>jparse\<close> supplies.\<close>

fun jvalue :: "nat \<Rightarrow> nat \<Rightarrow> string \<Rightarrow> (json \<times> string) option"
  and jelems :: "nat \<Rightarrow> nat \<Rightarrow> string \<Rightarrow> (json list \<times> string) option"
  and jmembers :: "nat \<Rightarrow> nat \<Rightarrow> string \<Rightarrow> ((string \<times> json) list \<times> string) option" where
  "jvalue 0 d s = None"
| "jvalue (Suc n) d s =
     (case jws s of
        [] \<Rightarrow> None
      | c # r \<Rightarrow>
          if c = CHR 0x7B then
            (if 10000 \<le> d then None
             else if take 1 (jws r) = [CHR 0x7D] then Some (JObj [], drop 1 (jws r))
             else map_option (\<lambda>(ms, t). (JObj ms, t)) (jmembers n (Suc d) r))
          else if c = CHR 0x5B then
            (if 10000 \<le> d then None
             else if take 1 (jws r) = [CHR 0x5D] then Some (JArr [], drop 1 (jws r))
             else map_option (\<lambda>(vs, t). (JArr vs, t)) (jelems n (Suc d) r))
          else if c = dq then map_option (\<lambda>(x, t). (JStr x, t)) (junquote r)
          else if c = CHR ''t'' then jliteral ''rue'' (JBool True) r
          else if c = CHR ''f'' then jliteral ''alse'' (JBool False) r
          else if c = CHR ''n'' then jliteral ''ull'' JNull r
          else jnumber (c # r))"
| "jelems 0 d s = None"
| "jelems (Suc n) d s =
     (case jvalue n d s of
        None \<Rightarrow> None
      | Some (v, t) \<Rightarrow>
          (case jws t of
             [] \<Rightarrow> None
           | c # u \<Rightarrow>
               if c = CHR '','' then map_option (\<lambda>(vs, w). (v # vs, w)) (jelems n d u)
               else if c = CHR 0x5D then Some ([v], u) else None))"
| "jmembers 0 d s = None"
| "jmembers (Suc n) d s =
     (case jws s of
        [] \<Rightarrow> None
      | q # r \<Rightarrow>
          if q \<noteq> dq then None
          else (case junquote r of
            None \<Rightarrow> None
          | Some (k, t) \<Rightarrow>
              (case jws t of
                 [] \<Rightarrow> None
               | c # t' \<Rightarrow>
                   if c \<noteq> CHR '':'' then None
                   else (case jvalue n d t' of
                     None \<Rightarrow> None
                   | Some (v, u) \<Rightarrow>
                       (case jws u of
                          [] \<Rightarrow> None
                        | e # u' \<Rightarrow>
                            if e = CHR '','' then map_option (\<lambda>(ms, w). ((k, v) # ms, w)) (jmembers n d u')
                            else if e = CHR 0x7D then Some ([(k, v)], u') else None)))))"

definition jparse :: "string \<Rightarrow> json option" where
  "jparse s =
     (case jvalue (Suc (2 * length s)) 0 s of
        None \<Rightarrow> None
      | Some (v, r) \<Rightarrow> if jws r = [] then Some v else None)"

subsection \<open>Unquoting what was quoted\<close>

lemma hexVal_hexChar [simp]: "n < 16 \<Longrightarrow> hexVal (hexChar n) = Some n"
  by (auto simp: hexVal_def hexChar_def Let_def)

lemma hexVal_zero: "hexVal (CHR ''0'') = Some 0"
  by (simp add: hexVal_def)

lemma hex4_ascii:
  "code c < 0x80 \<Longrightarrow>
    hex4 (CHR ''0'' # CHR ''0'' # hexChar (code c div 16) # hexChar (code c mod 16) # t) = Some (code c)"
  by (simp add: hexVal_zero)

lemma prepend_simps [simp]: "prepend p None = None" "prepend p (Some (x, r)) = Some (p @ x, r)"
  by (simp_all add: prepend_def)

lemma junquote_safe: "htmlSafe c \<Longrightarrow> junquote (c # t) = prepend [c] (junquote t)"
  by (subst junquote.simps) (auto simp: htmlSafe_def)

lemma junquote_simple: "e \<noteq> CHR ''u'' \<Longrightarrow> simpleEsc e = Some x \<Longrightarrow> junquote (bsl # e # t) = prepend [x] (junquote t)"
  by (subst junquote.simps) simp

lemma junquote_u:
  "hex4 r = Some n \<Longrightarrow> \<not> isSurrogate n \<Longrightarrow>
    junquote (bsl # CHR ''u'' # r) = prepend (encodeRune n) (junquote (drop 4 r))"
  by (subst junquote.simps) simp

lemma code_eqI: "code c = code d \<Longrightarrow> c = d"
  by (metis char_of_char)

lemma junquote_escAscii:
  assumes "code c < 0x80"
  shows "junquote (escAscii c @ t) = prepend [c] (junquote t)"
proof (cases "htmlSafe c")
  case True
  then show ?thesis by (simp add: escAscii_def junquote_safe)
next
  case False
  have e: "encodeRune (code c) = [c]"
    using assms by (simp add: encodeRune_def)
  have u: "junquote (bsl # CHR ''u'' # CHR ''0'' # CHR ''0'' # hexChar (code c div 16) # hexChar (code c mod 16) # t)
      = prepend [c] (junquote t)"
    using junquote_u [OF hex4_ascii [OF assms, of t]] assms e by (simp add: isSurrogate_def)
  have "code c = 8 \<Longrightarrow> c = CHR 0x08" "code c = 12 \<Longrightarrow> c = CHR 0x0C" "code c = 10 \<Longrightarrow> c = CHR 0x0A"
    "code c = 13 \<Longrightarrow> c = CHR 0x0D" "code c = 9 \<Longrightarrow> c = CHR 0x09"
    by (auto intro: code_eqI)
  with False u show ?thesis
    by (auto simp: escAscii_def junquote_simple simpleEsc_def)
qed

lemma junquote_rune:
  assumes "0x80 \<le> code c" and "runeLen (c # r) \<noteq> 0"
  shows "junquote (take (runeLen (c # r)) (c # r) @ t) = prepend (take (runeLen (c # r)) (c # r)) (junquote t)"
proof -
  define k where "k = runeLen (c # r)"
  from assms(2) obtain r' where r': "take k (c # r) = c # r'"
    unfolding k_def by (cases "runeLen (c # r)") auto
  have len: "length (c # r') = k"
    using runeLen_le [of "c # r"] r' by (metis k_def length_take min.absorb2)
  have k: "runeLen (c # r' @ t) = k"
    using runeLen_take [OF assms(2), of t] r' by (simp add: k_def)
  have "c \<noteq> dq" "c \<noteq> bsl"
    using assms(1) by auto
  moreover have "k \<noteq> 0"
    using assms(2) by (simp add: k_def)
  ultimately have "junquote (c # r' @ t) = prepend (take k (c # r' @ t)) (junquote (drop k (c # r' @ t)))"
    using assms(1) k by (subst junquote.simps) simp
  moreover have "take k ((c # r') @ t) = c # r'" "drop k ((c # r') @ t) = t"
    unfolding len [symmetric] by simp_all
  ultimately show ?thesis
    unfolding k_def [symmetric] r' by simp
qed

lemma take3_runeLen:
  assumes "map code (take 3 s) = [0xE2, 0x80, b]" and "0x80 \<le> b" and "b \<le> 0xBF"
  shows "runeLen s = 3" and "take 3 s = map char_of [0xE2, 0x80, b]"
proof -
  have "map char_of (map code (take 3 s)) = take 3 s"
    by (simp add: comp_def)
  then show t: "take 3 s = map char_of [0xE2, 0x80, b]"
    using assms(1) by simp
  then obtain r where "s = map char_of [0xE2, 0x80, b] @ r"
    by (metis append_take_drop_id)
  with assms(2,3) show "runeLen s = 3"
    by (simp add: runeLen_def runeSpec_def inRange_def)
qed

lemma junquote_2028:
  "junquote (bsl # ''u2028'' @ t) = prepend (map char_of [0xE2 :: nat, 0x80, 0xA8]) (junquote t)"
  "junquote (bsl # ''u2029'' @ t) = prepend (map char_of [0xE2 :: nat, 0x80, 0xA9]) (junquote t)"
proof -
  have "hex4 (''2028'' @ t) = Some 0x2028" "hex4 (''2029'' @ t) = Some 0x2029"
    by (simp_all add: hexVal_def)
  then show "junquote (bsl # ''u2028'' @ t) = prepend (map char_of [0xE2 :: nat, 0x80, 0xA8]) (junquote t)"
    "junquote (bsl # ''u2029'' @ t) = prepend (map char_of [0xE2 :: nat, 0x80, 0xA9]) (junquote t)"
    by (simp_all add: junquote_u isSurrogate_def encodeRune_def)
qed

lemma validUTF8_step: "validUTF8 s \<Longrightarrow> s \<noteq> [] \<Longrightarrow> runeLen s \<noteq> 0 \<and> validUTF8 (drop (runeLen s) s)"
  by (subst (asm) validUTF8.simps) (simp split: if_splits)

lemma junquote_jescape:
  "validUTF8 s \<Longrightarrow> junquote (jescape s @ dq # rest) = Some (s, rest)"
proof (induction s rule: jescape.induct)
  case (1 s)
  show ?case
  proof (cases s)
    case Nil
    then show ?thesis
      by (simp add: jescape.simps [of "[]"] junquote.simps [of "dq # rest"])
  next
    case (Cons c r)
    then have valid: "runeLen s \<noteq> 0" "validUTF8 (drop (runeLen s) s)"
      using validUTF8_step [OF "1.prems"] by simp_all
    consider (ascii) "code c < 0x80"
      | (ls) b where "\<not> code c < 0x80" "b = 0xA8 \<or> b = 0xA9" "map code (take 3 s) = [0xE2, 0x80, b]"
      | (rune) "\<not> code c < 0x80" "map code (take 3 s) \<noteq> [0xE2, 0x80, 0xA8]" "map code (take 3 s) \<noteq> [0xE2, 0x80, 0xA9]"
      by atomize_elim auto
    then show ?thesis
    proof cases
      case ascii
      then have "runeLen s = 1"
        by (simp add: Cons runeLen_def)
      with valid Cons have "validUTF8 r" by simp
      with ascii "1.IH"(1) [OF Cons] show ?thesis
        by (simp add: jescape.simps [of "c # r"] Cons junquote_escAscii)
    next
      case ls
      then have s: "runeLen s = 3" "take 3 s = map char_of [0xE2, 0x80, b]"
        using take3_runeLen [of s b] by auto
      with valid have v: "validUTF8 (drop 3 s)" by simp
      have split: "s = map char_of [0xE2, 0x80, b] @ drop 3 s"
        using s(2) by (metis append_take_drop_id)
      have "junquote (jescape (drop 3 s) @ dq # rest) = Some (drop 3 s, rest)"
        using ls v valid(1) "1.IH"(3,4) [OF Cons] by auto
      moreover have "jescape s = (if b = 0xA8 then bsl # ''u2028'' @ jescape (drop 3 s) else bsl # ''u2029'' @ jescape (drop 3 s))"
        using ls valid(1) Cons by (subst jescape.simps) auto
      ultimately have "junquote (jescape s @ dq # rest) = Some (map char_of [0xE2, 0x80, b] @ drop 3 s, rest)"
        using ls(2) junquote_2028 [of "jescape (drop 3 s) @ dq # rest"] by auto
      with split show ?thesis by simp
    next
      case rune
      with valid "1.IH"(5) [OF Cons] have ih: "junquote (jescape (drop (runeLen s) s) @ dq # rest) = Some (drop (runeLen s) s, rest)"
        by simp
      have "jescape s = take (runeLen s) s @ jescape (drop (runeLen s) s)"
        using rune valid(1) by (subst jescape.simps) (auto simp: Cons)
      with rune valid(1) ih show ?thesis
        using junquote_rune [of c r "jescape (drop (runeLen s) s) @ dq # rest"] by (simp add: Cons)
    qed
  qed
qed

section \<open>Marshalling and unmarshalling structs\<close>

text \<open>\<open>json.Marshal\<close> of a struct: its fields in order, each a string or a number. The caller leaves
  out the fields tagged \<open>omitempty\<close> that are empty.\<close>

definition jscalar :: "json \<Rightarrow> string" where
  "jscalar v = (case v of JStr s \<Rightarrow> jquote s | JNum n \<Rightarrow> n | _ \<Rightarrow> [])"

fun showMembers :: "(string \<times> json) list \<Rightarrow> string" where
  "showMembers [] = []"
| "showMembers [(k, v)] = jquote k @ CHR '':'' # jscalar v"
| "showMembers ((k, v) # m # ms) = jquote k @ CHR '':'' # jscalar v @ CHR '','' # showMembers (m # ms)"

definition jmarshal :: "(string \<times> json) list \<Rightarrow> string" where
  "jmarshal ms = CHR 0x7B # showMembers ms @ [CHR 0x7D]"

text \<open>\<open>json.Unmarshal\<close> into a struct with the given field names and types: the text must be valid JSON;
  \<open>null\<close> changes nothing; a member is stored in the field of that name, or of that name up to case;
  members of other names are skipped; a value of the wrong type, or a number that is no \<open>uint32\<close>,
  is an error. The result is what is stored in which field.\<close>

datatype jkind = KString | KUint32

definition jlookup :: "(string \<times> jkind) list \<Rightarrow> string \<Rightarrow> (string \<times> jkind) option" where
  "jlookup fs k =
     (case find (\<lambda>f. fst f = k) fs of
        Some f \<Rightarrow> Some f
      | None \<Rightarrow> find (\<lambda>f. equalFold (fst f) k) fs)"

definition jfits :: "jkind \<Rightarrow> json \<Rightarrow> bool" where
  "jfits kd v =
     (case v of
        JStr s \<Rightarrow> kd = KString
      | JNum n \<Rightarrow> kd = KUint32 \<and> (case parseDigits n of Some x \<Rightarrow> x < 2 ^ 32 | None \<Rightarrow> False)
      | _ \<Rightarrow> False)"

fun jstore :: "(string \<times> jkind) list \<Rightarrow> (string \<times> json) list \<Rightarrow> (string \<rightharpoonup> json) \<Rightarrow> bool \<Rightarrow> (string \<rightharpoonup> json) option" where
  "jstore fs [] m ok = (if ok then Some m else None)"
| "jstore fs ((k, v) # ms) m ok =
     (case jlookup fs k of
        None \<Rightarrow> jstore fs ms m ok
      | Some (f, kd) \<Rightarrow>
          if v = JNull then jstore fs ms m ok
          else if jfits kd v then jstore fs ms (m(f \<mapsto> v)) ok
          else jstore fs ms m False)"

definition junmarshal :: "(string \<times> jkind) list \<Rightarrow> string \<Rightarrow> (string \<rightharpoonup> json) option" where
  "junmarshal fs s =
     (case jparse s of
        Some (JObj ms) \<Rightarrow> jstore fs ms Map.empty True
      | Some JNull \<Rightarrow> Some Map.empty
      | _ \<Rightarrow> None)"

definition jstring :: "(string \<rightharpoonup> json) \<Rightarrow> string \<Rightarrow> string \<Rightarrow> string" where
  "jstring m f old = (case m f of Some (JStr s) \<Rightarrow> s | _ \<Rightarrow> old)"

definition juint32 :: "(string \<rightharpoonup> json) \<Rightarrow> string \<Rightarrow> 32 word \<Rightarrow> 32 word" where
  "juint32 m f old =
     (case m f of Some (JNum n) \<Rightarrow> (case parseDigits n of Some x \<Rightarrow> of_nat x | None \<Rightarrow> old) | _ \<Rightarrow> old)"

subsection \<open>Round trip\<close>

text \<open>The scalars that \<open>json.Marshal\<close> writes and reads back unchanged.\<close>

definition jplain :: "json \<Rightarrow> bool" where
  "jplain v = (case v of JStr s \<Rightarrow> validUTF8 s | JNum n \<Rightarrow> n \<in> range showNat | _ \<Rightarrow> False)"

lemma junquote_jquote: "validUTF8 s \<Longrightarrow> jquote s @ t = dq # u \<Longrightarrow> junquote u = Some (s, t)"
  using junquote_jescape [of s t] by (auto simp: jquote_def)

lemma jws_nonspace [simp]: "\<not> isSpace c \<Longrightarrow> jws (c # s) = c # s"
  by (simp add: jws_def)

lemma not_space [simp]:
  "\<not> isSpace dq" "\<not> isSpace (CHR '':'')" "\<not> isSpace (CHR '','')" "\<not> isSpace (CHR 0x7D)" "\<not> isSpace (CHR 0x7B)"
  by (simp_all add: isSpace_def)

lemma showNat_0: "showNat 0 = ''0''"
proof -
  have "digitChar 0 = CHR ''0''"
    by (rule code_eqI) simp
  then show ?thesis
    by (simp add: showNat.simps [of 0])
qed

lemma showNat_pos: "0 < n \<Longrightarrow> hd (showNat n) \<noteq> CHR ''0''"
proof (induction n rule: showNat.induct)
  case (1 n)
  show ?case
  proof (cases "n < 10")
    case True
    then have "code (hd (showNat n)) = 48 + n"
      by (simp add: showNat.simps [of n])
    with "1.prems" show ?thesis by auto
  next
    case False
    with "1.IH" show ?thesis
      by (simp add: showNat.simps [of n])
  qed
qed

definition jend :: "char \<Rightarrow> bool" where
  "jend e \<longleftrightarrow> e = CHR '','' \<or> e = CHR 0x7D"

lemma jend_not: "jend e \<Longrightarrow> \<not> isDigit e \<and> e \<noteq> CHR ''.'' \<and> e \<noteq> CHR ''e'' \<and> e \<noteq> CHR ''E''"
  by (auto simp: jend_def isDigit_def)

lemma jint_showNat: "jend e \<Longrightarrow> jint (showNat n @ e # t) = Some (showNat n, e # t)"
proof (cases "n = 0")
  case True
  then show ?thesis by (simp add: showNat_0 jint_def)
next
  case False
  assume e: "jend e"
  obtain c r where cr: "showNat n = c # r" "isDigit c" "list_all isDigit r" by (rule showNat_Cons)
  with False showNat_pos [of n] have "c \<noteq> CHR ''0''" by simp
  with cr jend_not [OF e] show ?thesis
    by (simp add: jint_def digits1_def list_all_iff)
qed

lemma jnumber_showNat: "jend e \<Longrightarrow> jnumber (showNat n @ e # t) = Some (JNum (showNat n), e # t)"
proof -
  assume e: "jend e"
  obtain c r where cr: "showNat n = c # r" "isDigit c" by (rule showNat_Cons)
  with digit_not_sign have "c \<noteq> CHR ''-''" by blast
  with cr(1) jint_showNat [OF e, of n t] jend_not [OF e] show ?thesis
    by (simp add: jnumber_def jfrac_def jexp_def)
qed

lemma jvalue_scalar:
  assumes "jplain v" and "jend e"
  shows "jvalue (Suc n) d (jscalar v @ e # t) = Some (v, e # t)"
proof (cases v)
  case (JStr s)
  with assms have "junquote (jescape s @ dq # e # t) = Some (s, e # t)"
    by (simp add: jplain_def junquote_jescape)
  with JStr show ?thesis
    by (simp add: jscalar_def jquote_def)
next
  case (JNum m)
  with assms obtain k where k: "m = showNat k" by (auto simp: jplain_def)
  obtain c r where cr: "showNat k = c # r" "isDigit c" by (rule showNat_Cons)
  then have "\<not> isSpace c" "c \<noteq> CHR 0x7B" "c \<noteq> CHR 0x5B" "c \<noteq> dq" "c \<noteq> CHR ''t''" "c \<noteq> CHR ''f''" "c \<noteq> CHR ''n''"
    by (auto simp: isDigit_def isSpace_def)
  with jnumber_showNat [OF assms(2), of k t] JNum k cr(1) show ?thesis
    by (simp add: jscalar_def)
qed (use assms in \<open>simp_all add: jplain_def\<close>)

lemma jmembers_step:
  assumes "validUTF8 k" and "jvalue n d u = Some (v, e # w)" and "jend e"
  shows "jmembers (Suc n) d (jquote k @ CHR '':'' # u) =
    (if e = CHR '','' then map_option (\<lambda>(ms, x). ((k, v) # ms, x)) (jmembers n d w) else Some ([(k, v)], w))"
proof -
  have "\<not> isSpace e"
    using assms(3) by (auto simp: jend_def)
  then show ?thesis
    using assms junquote_jescape [of k "CHR '':'' # u"] by (simp add: jquote_def jend_def) auto
qed

declare jmembers.simps [simp del] jvalue.simps [simp del]

lemma jmembers_show:
  "ms \<noteq> [] \<Longrightarrow> list_all (\<lambda>(k, v). validUTF8 k \<and> jplain v) ms \<Longrightarrow> length ms < n \<Longrightarrow>
    jmembers n d (showMembers ms @ CHR 0x7D # t) = Some (ms, t)"
proof (induction ms arbitrary: n rule: showMembers.induct)
  case 1
  then show ?case by simp
next
  case (2 k v)
  then obtain n' where "n = Suc (Suc n')" by (cases n; cases "n - 1") auto
  with 2 show ?case
    by (simp add: jmembers_step jvalue_scalar jend_def)
next
  case (3 k v m ms)
  then obtain n' where n: "n = Suc (Suc n')" by (cases n; cases "n - 1") auto
  have "jmembers (Suc n') d (showMembers (m # ms) @ CHR 0x7D # t) = Some (m # ms, t)"
    using "3.IH" [of "Suc n'"] "3.prems" n by simp
  with 3 n show ?case
    by (simp add: jmembers_step jvalue_scalar jend_def)
qed

lemma showMembers_length: "length ms \<le> length (showMembers ms)"
  by (induction ms rule: showMembers.induct) simp_all

lemma jparse_jmarshal:
  assumes "list_all (\<lambda>(k, v). validUTF8 k \<and> jplain v) ms"
  shows "jparse (jmarshal ms) = Some (JObj ms)"
proof (cases ms)
  case Nil
  then show ?thesis
    by (simp add: jparse_def jmarshal_def jvalue.simps(2) [where n = 4, simplified] jws_def isSpace_def)
next
  case (Cons m ms')
  then have "take 1 (jws (showMembers ms @ ''}'')) \<noteq> [CHR 0x7D]"
    by (cases m; cases ms') (simp_all add: jquote_def)
  then show ?thesis
    using Cons jmembers_show [OF _ assms, of "2 * Suc (Suc (length (showMembers ms)))" 1 "[]"] showMembers_length [of ms]
    by (simp add: jparse_def jmarshal_def jvalue.simps jws_def isSpace_def)
qed

lemma find_fst: "distinct (map fst fs) \<Longrightarrow> (k, kd) \<in> set fs \<Longrightarrow> find (\<lambda>f. fst f = k) fs = Some (k, kd)"
  by (induction fs) (auto simp: rev_image_eqI)

lemma jlookup_exact: "distinct (map fst fs) \<Longrightarrow> (k, kd) \<in> set fs \<Longrightarrow> jlookup fs k = Some (k, kd)"
  by (simp add: jlookup_def find_fst)

lemma jstore_map_of:
  assumes "distinct (map fst fs)" and "distinct (map fst ms)"
    and "\<And>k v. (k, v) \<in> set ms \<Longrightarrow> \<exists>kd. (k, kd) \<in> set fs \<and> jfits kd v"
  shows "jstore fs ms m True = Some (m ++ map_of ms)"
  using assms(2,3)
proof (induction ms arbitrary: m)
  case Nil
  then show ?case by simp
next
  case (Cons kv ms)
  obtain k v where kv: "kv = (k, v)" by fastforce
  with Cons.prems obtain kd where kd: "(k, kd) \<in> set fs" "jfits kd v" by (meson list.set_intros(1))
  have "v \<noteq> JNull"
    using kd(2) by (auto simp: jfits_def)
  have "map_of ms k = None"
    using Cons.prems(1) kv by (simp add: map_of_eq_None_iff)
  then have "m(k \<mapsto> v) ++ map_of ms = m ++ map_of (kv # ms)"
    by (auto simp: kv map_add_def split: option.split)
  moreover have "jstore fs ms (m(k \<mapsto> v)) True = Some (m(k \<mapsto> v) ++ map_of ms)"
    using Cons.prems by (intro Cons.IH) auto
  moreover have "jstore fs (kv # ms) m True = jstore fs ms (m(k \<mapsto> v)) True"
    using kv kd \<open>v \<noteq> JNull\<close> jlookup_exact [OF assms(1) kd(1)] by simp
  ultimately show ?case
    by (simp only:)
qed

text \<open>Unmarshalling what was marshalled stores every member in its field.\<close>

theorem junmarshal_jmarshal:
  assumes "distinct (map fst fs)" and "distinct (map fst ms)"
    and "\<And>k v. (k, v) \<in> set ms \<Longrightarrow> validUTF8 k \<and> jplain v \<and> (\<exists>kd. (k, kd) \<in> set fs \<and> jfits kd v)"
  shows "junmarshal fs (jmarshal ms) = Some (map_of ms)"
proof -
  have "list_all (\<lambda>(k, v). validUTF8 k \<and> jplain v) ms"
    using assms(3) by (auto simp: list_all_iff)
  moreover have "jstore fs ms Map.empty True = Some (Map.empty ++ map_of ms)"
    using assms by (intro jstore_map_of) auto
  ultimately show ?thesis
    by (simp add: junmarshal_def jparse_jmarshal)
qed

subsection \<open>The fuel is enough\<close>

lemma junquote_length: "junquote s = Some (x, r) \<Longrightarrow> length r < length s"
proof (induction s arbitrary: x rule: length_induct)
  case (1 s)
  note body = trans [OF junquote.simps [of s, symmetric] "1.prems"]
  have ih: "length r < length s" if "junquote t = Some (y, r)" "length t < length s" for t y
    using "1.IH" that by fastforce
  have shorter: "s \<noteq> [] \<Longrightarrow> runeLen s \<noteq> 0 \<Longrightarrow> length (drop (runeLen s) s) < length s"
    by simp
  show ?case
    using body shorter
    by (auto simp: prepend_def split: list.splits if_splits option.splits dest!: ih)
qed

lemma jws_length: "length (jws s) \<le> length s"
  by (simp add: jws_def length_dropWhile_le)

lemma digits1_length: "digits1 s = Some (x, r) \<Longrightarrow> length r < length s"
proof -
  assume "digits1 s = Some (x, r)"
  then have "takeWhile isDigit s \<noteq> []" and r: "r = dropWhile isDigit s"
    by (auto simp: digits1_def split: if_splits)
  moreover have "length s = length (takeWhile isDigit s) + length (dropWhile isDigit s)"
    by (metis length_append takeWhile_dropWhile_id)
  ultimately show ?thesis by simp
qed

lemma jnumber_length: "jnumber s = Some (v, r) \<Longrightarrow> length r < length s"
proof -
  assume num: "jnumber s = Some (v, r)"
  have i: "length r' < length s'" if "jint s' = Some (x, r')" for s' x r'
    using that by (auto simp: jint_def split: list.splits if_splits dest: digits1_length)
  have f: "length r' \<le> length s'" if "jfrac s' = Some (x, r')" for s' x r'
    using that by (auto simp: jfrac_def prepend_def split: list.splits if_splits dest: digits1_length)
  have e: "length r' \<le> length s'" if "jexp s' = Some (x, r')" for s' x r'
    using that by (fastforce simp: jexp_def prepend_def split: list.splits if_splits dest: digits1_length)
  show ?thesis
    using num by (fastforce simp: jnumber_def split: list.splits if_splits option.splits prod.splits dest: i f e)
qed

lemma jws_Cons_length: "jws s = c # r \<Longrightarrow> length r < length s"
  using jws_length [of s] by simp

lemma jparse_shrinks:
  "jvalue n d s = Some (v, r) \<Longrightarrow> length r < length s"
  "jelems n d s = Some (vs, r) \<Longrightarrow> length r < length s"
  "jmembers n d s = Some (ms, r) \<Longrightarrow> length r < length s"
proof (induction n d s and n d s and n d s arbitrary: v r and vs r and ms r rule: jvalue_jelems_jmembers.induct)
  case (2 n d s)
  from "2.prems" obtain c t where ct: "jws s = c # t"
    by (auto simp: jvalue.simps split: list.splits)
  have l: "length (jws t) \<le> length t" "length t < length s"
    using jws_length [of t] jws_Cons_length [OF ct] by auto
  with "2.prems" "2.IH" [OF ct] show ?case
    by (fastforce simp: jvalue.simps ct jliteral_def split: if_splits option.splits
        dest: junquote_length jnumber_length)
next
  case (4 n d s)
  then show ?case
    by (fastforce simp: jelems.simps split: list.splits if_splits option.splits dest: jws_Cons_length)
next
  case (6 n d s)
  then show ?case
    by (fastforce simp: jmembers.simps split: list.splits if_splits option.splits dest: jws_Cons_length junquote_length)
qed (simp_all add: jvalue.simps jmembers.simps)

text \<open>More fuel than \<open>2 * length s\<close> never changes the result, so a \<open>None\<close> of \<open>jparse\<close> is a
  rejection and never exhausted fuel.\<close>

lemma jvalue_fuel:
  "2 * length s < n \<Longrightarrow> 2 * length s < n' \<Longrightarrow> jvalue n d s = jvalue n' d s"
  "2 * length s + 1 < n \<Longrightarrow> 2 * length s + 1 < n' \<Longrightarrow> jelems n d s = jelems n' d s"
  "2 * length s < n \<Longrightarrow> 2 * length s < n' \<Longrightarrow> jmembers n d s = jmembers n' d s"
proof (induction n d s and n d s and n d s arbitrary: n' and n' and n' rule: jvalue_jelems_jmembers.induct)
  case (2 n d s)
  from "2.prems" obtain m where m: "n' = Suc m" by (cases n') auto
  show ?case
  proof (cases "jws s")
    case Nil
    then show ?thesis by (simp add: m jvalue.simps)
  next
    case (Cons c r)
    then have "2 * length r + 1 < n" "2 * length r + 1 < m"
      using jws_Cons_length [OF Cons] "2.prems" m by auto
    then have
      "c = CHR 0x7B \<Longrightarrow> \<not> 10000 \<le> d \<Longrightarrow> take 1 (jws r) \<noteq> [CHR 0x7D] \<Longrightarrow> jmembers n (Suc d) r = jmembers m (Suc d) r"
      "c \<noteq> CHR 0x7B \<Longrightarrow> c = CHR 0x5B \<Longrightarrow> \<not> 10000 \<le> d \<Longrightarrow> take 1 (jws r) \<noteq> [CHR 0x5D] \<Longrightarrow> jelems n (Suc d) r = jelems m (Suc d) r"
      by (auto intro!: "2.IH" [OF Cons])
    then show ?thesis
      by (auto simp: m Cons jvalue.simps)
  qed
next
  case (4 n d s)
  from "4.prems" obtain m where m: "n' = Suc m" by (cases n') auto
  have v: "jvalue n d s = jvalue m d s"
    using "4.prems" m by (intro "4.IH"(1)) auto
  have "jelems n d u = jelems m d u" if "jvalue m d s = Some (x, t)" "jws t = CHR '','' # u" for x t u
    using "4.prems" m that v jws_Cons_length [OF that(2)] jparse_shrinks(1) [OF that(1)]
    by (intro "4.IH"(2)) auto
  then show ?case
    by (simp add: m v split: option.split list.split)
next
  case (6 n d s)
  from "6.prems" obtain m where m: "n' = Suc m" by (cases n') auto
  have v: "jvalue n d t = jvalue m d t"
    if "jws s = dq # r" "junquote r = Some (k, u)" "jws u = CHR '':'' # t" for r k u t
    using that "6.prems" m jws_Cons_length [OF that(1)] jws_Cons_length [OF that(3)] junquote_length [OF that(2)]
    by (intro "6.IH"(1)) auto
  have rec: "jmembers n d w = jmembers m d w"
    if "jws s = dq # r" "junquote r = Some (k, u)" "jws u = CHR '':'' # t"
      "jvalue m d t = Some (x, y)" "jws y = CHR '','' # w" for r k u t x y w
    using that "6.prems" m v [OF that(1,2,3)] jws_Cons_length [OF that(1)] jws_Cons_length [OF that(3)]
      junquote_length [OF that(2)] jws_Cons_length [OF that(5)] jparse_shrinks(1) [OF that(4)]
    by (intro "6.IH"(2)) auto
  show ?case
  proof (cases "\<exists>r k u t. jws s = dq # r \<and> junquote r = Some (k, u) \<and> jws u = CHR '':'' # t")
    case True
    then obtain r k u t where p: "jws s = dq # r" "junquote r = Some (k, u)" "jws u = CHR '':'' # t" by blast
    note step = v [OF p]
    show ?thesis
    proof (cases "\<exists>x y w. jvalue m d t = Some (x, y) \<and> jws y = CHR '','' # w")
      case True
      then obtain x y w where "jvalue m d t = Some (x, y)" "jws y = CHR '','' # w" by blast
      with p step rec [OF p] show ?thesis
        by (simp add: m jmembers.simps)
    next
      case False
      with p step show ?thesis
        by (auto simp: m jmembers.simps split: option.split list.split)
    qed
  next
    case False
    then show ?thesis
      by (auto simp: m jmembers.simps split: option.split list.split)
  qed
qed (simp_all add: jvalue.simps jmembers.simps)

end
