(* ===== verification/S1_Codec.thy ===== *)
theory S1_Codec
  imports Message Go_Json
begin

text \<open>
  The codec \<open>message/codec/s1\<close>. \<open>Write\<close> and its helpers take the destination's \<open>Write\<close> as an
  argument, \<open>Read\<close> and its helpers take \<open>io.ReadFull\<close> on the source; the laws of both come from
  the interfaces \<open>byte_sink\<close> and \<open>full_reader\<close>. Shown here: a message that fits its length fields
  is written as one frame and read back unchanged, on any source; \<open>Read\<close> returns on every input and
  never panics; a stream cut inside a message gives the error \<open>io.ReadFull\<close> reports at that point.
\<close>

section \<open>Writer\<close>

text \<open>\<open>writeMany\<close> copies the chunks one after the other into a buffer of their total size and writes
  it with one call.\<close>

fun copyChunks :: "nat \<Rightarrow> bytes list \<Rightarrow> bytes \<Rightarrow> bytes" where
  "copyChunks i [] chunkAll = chunkAll"
| "copyChunks i (chunk # chunks) chunkAll = copyChunks (i + length chunk) chunks (copyAt i chunk chunkAll)"

definition writeMany :: "'s writer \<Rightarrow> bytes list \<Rightarrow> (nat, 's) io" where
  "writeMany wr chunks =
     (if length chunks \<le> 0 then ret 0
      else wr (copyChunks 0 chunks (zeros (sum_list (map length chunks)))))"

definition WriteBytes :: "'s writer \<Rightarrow> bytes \<Rightarrow> (nat, 's) io" where
  "WriteBytes wr dat = wr (byte_of_char CHR ''b'' # putUint32 (of_nat (length dat)) @ dat)"

definition WriteArrayHeader :: "'s writer \<Rightarrow> nat \<Rightarrow> (nat, 's) io" where
  "WriteArrayHeader wr n = wr (byte_of_char CHR ''a'' # putUint32 (of_nat n))"

definition WriteString :: "'s writer \<Rightarrow> string \<Rightarrow> (nat, 's) io" where
  "WriteString wr s =
     (let sbytes = bytes_of s
      in wr (byte_of_char CHR ''s'' # putUint32 (of_nat (length sbytes)) @ sbytes))"

definition WriteInt32 :: "'s writer \<Rightarrow> 32 word \<Rightarrow> (nat, 's) io" where
  "WriteInt32 wr i = wr (byte_of_char CHR ''i'' # putUint32 i)"

definition WriteInt64 :: "'s writer \<Rightarrow> 64 word \<Rightarrow> (nat, 's) io" where
  "WriteInt64 wr i = wr (byte_of_char CHR ''I'' # putUint64 i)"

definition WriteBool :: "'s writer \<Rightarrow> bool \<Rightarrow> (nat, 's) io" where
  "WriteBool wr v = wr [byte_of_char CHR ''='', byte_of_char (if v then CHR ''y'' else CHR ''n'')]"

text \<open>\<open>json.Marshal\<close> of the three message types that carry JSON, from their struct tags.\<close>

definition omitempty :: "string \<Rightarrow> string \<Rightarrow> (string \<times> json) list" where
  "omitempty k v = (if v = [] then [] else [(k, JStr v)])"

definition jnum32 :: "32 word \<Rightarrow> json" where
  "jnum32 w = JNum (showNat (unat w))"

definition marshalRequestDNS :: "MessageRequestDNS \<Rightarrow> bytes" where
  "marshalRequestDNS m =
     bytes_of (jmarshal ((''id'', jnum32 (dnsReq_Id m)) # omitempty ''network'' (dnsReq_Network m)
       @ omitempty ''domain_name'' (dnsReq_DomainName m)))"

definition marshalRequestDial :: "MessageRequestDial \<Rightarrow> bytes" where
  "marshalRequestDial m =
     bytes_of (jmarshal ((''id'', jnum32 (dial_Id m)) # omitempty ''network'' (dial_Network m)
       @ omitempty ''address'' (dial_Address m) @ omitempty ''connection_id'' (dial_ConnectionId m)))"

definition marshalConnectionState :: "MessageConnectionState \<Rightarrow> bytes" where
  "marshalConnectionState m =
     bytes_of (jmarshal ((''id'', jnum32 (state_Id m)) # (''ack'', jnum32 (state_Ack m))
       # omitempty ''connection_id'' (state_ConnectionId m) @ omitempty ''state'' (state_State m)
       @ omitempty ''error'' (state_Error m) @ omitempty ''error_type'' (state_ErrorType m)))"

text \<open>The 20 byte header: kind(1) + reserved(7) + id(4) + ack(4) + len(4).\<close>

definition s1Header :: "message \<Rightarrow> 32 word \<Rightarrow> bytes" where
  "s1Header m len =
     Kind m # zeros 7 @ putUint32 (MessageId m) @ putUint32 (AckMessageId m) @ putUint32 len"

text \<open>A block of code that writes to a fresh \<open>bytes.Buffer\<close>, followed by code that uses its value
  and the buffer's contents.\<close>

definition withBuffer :: "('a, bytes) io \<Rightarrow> ('a \<Rightarrow> bytes \<Rightarrow> ('b, 's) io) \<Rightarrow> ('b, 's) io" where
  "withBuffer m k s =
     (case m [] of
        None \<Rightarrow> None
      | Some (Ok x, buf) \<Rightarrow> k x buf s
      | Some (Err e, buf) \<Rightarrow> Some (Err e, s)
      | Some (Panic, buf) \<Rightarrow> Some (Panic, s))"

fun writeAddresses :: "'s writer \<Rightarrow> bytes list \<Rightarrow> (unit, 's) io" where
  "writeAddresses wr [] = ret ()"
| "writeAddresses wr (addr # addrs) = bind (WriteBytes wr addr) (\<lambda>_. writeAddresses wr addrs)"

text \<open>\<open>Writer.Write\<close>. A ping carries 8 bytes of \<open>crypto/rand\<close>.\<close>

definition Write :: "'s writer \<Rightarrow> tape \<Rightarrow> message \<Rightarrow> (nat, 's) io" where
  "Write wr rnd m =
     (case m of
        RequestDNS m1 \<Rightarrow>
          (let dat = marshalRequestDNS m1 in writeMany wr [s1Header m (of_nat (length dat)), dat])
      | RequestDial m1 \<Rightarrow>
          (let dat = marshalRequestDial m1 in writeMany wr [s1Header m (of_nat (length dat)), dat])
      | ConnectionState m1 \<Rightarrow>
          (let dat = marshalConnectionState m1 in writeMany wr [s1Header m (of_nat (length dat)), dat])
      | ResultDNS m1 \<Rightarrow>
          withBuffer
            (bind (WriteArrayHeader bufferWrite (length (dnsRes_Addresses m1))) (\<lambda>_.
             bind (writeAddresses bufferWrite (dnsRes_Addresses m1)) (\<lambda>_.
             WriteString bufferWrite (dnsRes_Error m1))))
            (\<lambda>_ dat. writeMany wr [s1Header m (of_nat (length dat)), dat])
      | Data m1 \<Rightarrow>
          withBuffer
            (bind (WriteString bufferWrite (data_ConnectionId m1)) (\<lambda>size1.
             bind (WriteBytes bufferWrite (data_Data m1)) (\<lambda>size2.
             ret (size1 + size2))))
            (\<lambda>total buf. writeMany wr [s1Header m (of_nat total), buf])
      | Ping m1 \<Rightarrow> writeMany wr [s1Header m 8, randBytes 8 rnd])"

section \<open>Reader\<close>

record ArrayHeader =
  Size :: nat

definition ReadArrayHeader :: "'s reader \<Rightarrow> (ArrayHeader, 's) io" where
  "ReadArrayHeader rf =
     bind (rf 5) (\<lambda>h.
       if h ! 0 \<noteq> byte_of_char CHR ''a'' then throw (Errorf ''type is not array'')
       else ret \<lparr>Size = unat (uint32 (drop 1 h))\<rparr>)"

definition ReadBytes :: "'s reader \<Rightarrow> (bytes, 's) io" where
  "ReadBytes rf =
     bind (rf 5) (\<lambda>h.
       if h ! 0 \<noteq> byte_of_char CHR ''b'' then throw (Errorf ''type is not bytes'')
       else rf (unat (uint32 (drop 1 h))))"

definition ReadString :: "'s reader \<Rightarrow> (string, 's) io" where
  "ReadString rf =
     bind (rf 5) (\<lambda>h.
       if h ! 0 \<noteq> byte_of_char CHR ''s'' then throw (Errorf ''type is not bytes'')
       else bind (rf (unat (uint32 (drop 1 h)))) (\<lambda>dat. ret (string_of dat)))"

text \<open>The loop that reads the addresses of a DNS result, \<open>n\<close> of them.\<close>

fun readAddresses :: "'s reader \<Rightarrow> nat \<Rightarrow> (bytes list, 's) io" where
  "readAddresses rf 0 = ret []"
| "readAddresses rf (Suc n) = bind (ReadBytes rf) (\<lambda>a. bind (readAddresses rf n) (\<lambda>as. ret (a # as)))"

text \<open>\<open>json.Unmarshal\<close> of the three message types.\<close>

definition unmarshalRequestDNS :: "bytes \<Rightarrow> MessageRequestDNS option" where
  "unmarshalRequestDNS dat =
     map_option (\<lambda>f. \<lparr>dnsReq_Id = juint32 f ''id'' 0, dnsReq_Network = jstring f ''network'' [],
         dnsReq_DomainName = jstring f ''domain_name'' []\<rparr>)
       (junmarshal [(''id'', KUint32), (''network'', KString), (''domain_name'', KString)] (string_of dat))"

definition unmarshalRequestDial :: "bytes \<Rightarrow> MessageRequestDial option" where
  "unmarshalRequestDial dat =
     map_option (\<lambda>f. \<lparr>dial_Id = juint32 f ''id'' 0, dial_Network = jstring f ''network'' [],
         dial_Address = jstring f ''address'' [], dial_ConnectionId = jstring f ''connection_id'' []\<rparr>)
       (junmarshal [(''id'', KUint32), (''network'', KString), (''address'', KString), (''connection_id'', KString)]
         (string_of dat))"

definition unmarshalConnectionState :: "bytes \<Rightarrow> MessageConnectionState option" where
  "unmarshalConnectionState dat =
     map_option (\<lambda>f. \<lparr>state_Id = juint32 f ''id'' 0, state_Ack = juint32 f ''ack'' 0,
         state_ConnectionId = jstring f ''connection_id'' [], state_State = jstring f ''state'' [],
         state_Error = jstring f ''error'' [], state_ErrorType = jstring f ''error_type'' []\<rparr>)
       (junmarshal [(''id'', KUint32), (''ack'', KUint32), (''connection_id'', KString), (''state'', KString),
           (''error'', KString), (''error_type'', KString)] (string_of dat))"

text \<open>A reader on \<open>bytes.NewReader(dat)\<close>, used and dropped.\<close>

definition onBytes :: "('a, bytes) io \<Rightarrow> bytes \<Rightarrow> ('a, 's) io" where
  "onBytes m dat s = (case m dat of None \<Rightarrow> None | Some (r, _) \<Rightarrow> Some (r, s))"

abbreviation r1 :: "bytes reader" where
  "r1 \<equiv> readFull bytesReader"

definition jsonErr :: goerr where
  "jsonErr = Errorf ''json''"

text \<open>The body of \<open>Reader.Read\<close> after the payload was read.\<close>

definition decodeBody :: "byte \<Rightarrow> 32 word \<Rightarrow> 32 word \<Rightarrow> bytes \<Rightarrow> (message, 's) io" where
  "decodeBody kind mid ack dat =
     (if kind = KindRequestDNS then
        (case unmarshalRequestDNS dat of
           None \<Rightarrow> throw jsonErr
         | Some m \<Rightarrow> ret (RequestDNS (m\<lparr>dnsReq_Id := mid\<rparr>)))
      else if kind = KindRequestDial then
        (case unmarshalRequestDial dat of
           None \<Rightarrow> throw jsonErr
         | Some m \<Rightarrow> ret (RequestDial (m\<lparr>dial_Id := mid\<rparr>)))
      else if kind = KindConnectionState then
        (case unmarshalConnectionState dat of
           None \<Rightarrow> throw jsonErr
         | Some m \<Rightarrow> ret (ConnectionState (m\<lparr>state_Id := mid, state_Ack := ack\<rparr>)))
      else if kind = KindResultDNS then
        onBytes
          (bind (ReadArrayHeader r1) (\<lambda>h.
           bind (readAddresses r1 (Size h)) (\<lambda>addrs.
           bind (ReadString r1) (\<lambda>errMsg.
           ret (ResultDNS \<lparr>dnsRes_Id = mid, dnsRes_Ack = ack, dnsRes_Addresses = addrs, dnsRes_Error = errMsg\<rparr>)))))
          dat
      else if kind = KindData then
        onBytes
          (bind (ReadString r1) (\<lambda>connId.
           bind (ReadBytes r1) (\<lambda>body.
           ret (Data \<lparr>data_Id = mid, data_Ack = ack, data_ConnectionId = connId, data_Data = body\<rparr>))))
          dat
      else if kind = KindPingPong then ret (Ping \<lparr>ping_Id = mid, ping_Ack = ack\<rparr>)
      else throw (Errorf ''unknown kind''))"

definition knownKind :: "byte \<Rightarrow> bool" where
  "knownKind kind \<longleftrightarrow>
     kind = KindRequestDNS \<or> kind = KindResultDNS \<or> kind = KindRequestDial \<or>
     kind = KindConnectionState \<or> kind = KindData \<or> kind = KindPingPong"

definition Read :: "'s reader \<Rightarrow> (message, 's) io" where
  "Read rf =
     bind (rf 20) (\<lambda>header.
       let kind = header ! 0;
           mid = uint32 (take 4 (drop 8 header));
           ack = uint32 (take 4 (drop 12 header));
           size = unat (uint32 (take 4 (drop 16 header)))
       in if \<not> knownKind kind then throw (Errorf ''unknown kind'')
          else bind (rf size) (\<lambda>dat. decodeBody kind mid ack dat))"

section \<open>What is written\<close>

text \<open>The reference encoding: a payload per message type, and a frame that puts the header before it.\<close>

definition tagged :: "char \<Rightarrow> bytes \<Rightarrow> bytes" where
  "tagged c dat = byte_of_char c # putUint32 (of_nat (length dat)) @ dat"

fun payload :: "tape \<Rightarrow> message \<Rightarrow> bytes" where
  "payload rnd (RequestDNS m) = marshalRequestDNS m"
| "payload rnd (RequestDial m) = marshalRequestDial m"
| "payload rnd (ConnectionState m) = marshalConnectionState m"
| "payload rnd (ResultDNS m) =
     byte_of_char CHR ''a'' # putUint32 (of_nat (length (dnsRes_Addresses m)))
     @ concat (map (tagged CHR ''b'') (dnsRes_Addresses m)) @ tagged CHR ''s'' (bytes_of (dnsRes_Error m))"
| "payload rnd (Data m) =
     tagged CHR ''s'' (bytes_of (data_ConnectionId m)) @ tagged CHR ''b'' (data_Data m)"
| "payload rnd (Ping m) = randBytes 8 rnd"

definition frame :: "tape \<Rightarrow> message \<Rightarrow> bytes" where
  "frame rnd m = s1Header m (of_nat (length (payload rnd m))) @ payload rnd m"

lemma copyChunks_concat:
  "length chunkAll = i + sum_list (map length chunks) \<Longrightarrow>
    copyChunks i chunks chunkAll = take i chunkAll @ concat chunks"
proof (induction chunks arbitrary: i chunkAll)
  case Nil
  then show ?case by simp
next
  case (Cons chunk chunks)
  then show ?case
    using take_copyAt [of i chunk chunkAll] by simp
qed

lemma writeMany_concat: "chunks \<noteq> [] \<Longrightarrow> writeMany wr chunks = wr (concat chunks)"
  by (simp add: writeMany_def copyChunks_concat)

lemma writeAddresses_buffer:
  "writeAddresses bufferWrite addrs buf = Some (Ok (), buf @ concat (map (tagged CHR ''b'') addrs))"
  by (induction addrs arbitrary: buf) (simp_all add: io_simps WriteBytes_def bufferWrite_def tagged_def)

text \<open>\<open>Write\<close> hands the frame to the destination in a single call.\<close>

lemma Write_frame: "Write wr rnd m = wr (frame rnd m)"
proof (cases m)
  case (ResultDNS m1)
  show ?thesis
    by (rule ext) (simp add: ResultDNS Write_def withBuffer_def WriteArrayHeader_def WriteString_def
        io_simps bufferWrite_def writeAddresses_buffer writeMany_concat frame_def tagged_def)
next
  case (Data m1)
  show ?thesis
    by (rule ext) (simp add: Data Write_def withBuffer_def WriteBytes_def WriteString_def
        io_simps bufferWrite_def writeMany_concat frame_def tagged_def)
qed (simp_all add: Write_def writeMany_concat frame_def Let_def)

section \<open>What is read\<close>

text \<open>A message fits if its payload fits the 32-bit length field and the strings it puts into JSON are
  UTF-8.\<close>

fun jsonStrings :: "message \<Rightarrow> string list" where
  "jsonStrings (RequestDNS m) = [dnsReq_Network m, dnsReq_DomainName m]"
| "jsonStrings (RequestDial m) = [dial_Network m, dial_Address m, dial_ConnectionId m]"
| "jsonStrings (ConnectionState m) = [state_ConnectionId m, state_State m, state_Error m, state_ErrorType m]"
| "jsonStrings (ResultDNS m) = []"
| "jsonStrings (Data m) = []"
| "jsonStrings (Ping m) = []"

definition encodable :: "tape \<Rightarrow> message \<Rightarrow> bool" where
  "encodable rnd m \<longleftrightarrow> length (payload rnd m) < 2 ^ 32 \<and> list_all validUTF8 (jsonStrings m)"

lemma validUTF8_ascii: "list_all (\<lambda>c. code c < 128) s \<Longrightarrow> validUTF8 s"
proof (induction s)
  case Nil
  then show ?case by (simp add: validUTF8.simps)
next
  case (Cons c s)
  then show ?case by (subst validUTF8.simps) (simp add: runeLen_def)
qed

lemma fits_num [simp]: "jfits KUint32 (jnum32 w)" "jplain (jnum32 w)"
  using unat_word_less(2) [of w] by (auto simp: jfits_def jplain_def jnum32_def)

lemma fits_str [simp]: "jfits KString (JStr s)" "jplain (JStr s) \<longleftrightarrow> validUTF8 s"
  by (simp_all add: jfits_def jplain_def)

lemma juint32_num [simp]: "f k = Some (jnum32 w) \<Longrightarrow> juint32 f k old = w"
  by (simp add: juint32_def jnum32_def)

lemma list_all_omitempty [simp]: "list_all P (omitempty k s) \<longleftrightarrow> s \<noteq> [] \<longrightarrow> P (k, JStr s)"
  by (simp add: omitempty_def)

text \<open>The form in which the round trip of \<open>encoding/json\<close> is used: every member is in the field list.\<close>

lemma junmarshal_fields:
  assumes "distinct (map fst fs)" and "distinct (map fst ms)"
    and "list_all (\<lambda>(k, v). list_all (\<lambda>c. code c < 128) k \<and> jplain v \<and> list_ex (\<lambda>(k', kd). k' = k \<and> jfits kd v) fs) ms"
  shows "junmarshal fs (jmarshal ms) = Some (map_of ms)"
proof (rule junmarshal_jmarshal [OF assms(1,2)])
  fix k v
  assume "(k, v) \<in> set ms"
  with assms(3) show "validUTF8 k \<and> jplain v \<and> (\<exists>kd. (k, kd) \<in> set fs \<and> jfits kd v)"
    by (fastforce simp: list_all_iff list_ex_iff intro: validUTF8_ascii)
qed

lemma unmarshal_RequestDNS:
  assumes "validUTF8 (dnsReq_Network m)" and "validUTF8 (dnsReq_DomainName m)"
  shows "unmarshalRequestDNS (marshalRequestDNS m) = Some m"
proof -
  define ms where "ms = (''id'', jnum32 (dnsReq_Id m)) # omitempty ''network'' (dnsReq_Network m)
      @ omitempty ''domain_name'' (dnsReq_DomainName m)"
  have "junmarshal [(''id'', KUint32), (''network'', KString), (''domain_name'', KString)] (jmarshal ms) = Some (map_of ms)"
  proof (rule junmarshal_fields)
    show "distinct (map fst ms)"
      by (simp add: ms_def omitempty_def)
  qed (use assms in \<open>simp_all add: ms_def\<close>)
  then show ?thesis
    unfolding unmarshalRequestDNS_def marshalRequestDNS_def
    by (simp add: ms_def [symmetric]) (simp add: ms_def omitempty_def jstring_def)
qed

lemma unmarshal_RequestDial:
  assumes "validUTF8 (dial_Network m)" and "validUTF8 (dial_Address m)" and "validUTF8 (dial_ConnectionId m)"
  shows "unmarshalRequestDial (marshalRequestDial m) = Some m"
proof -
  define ms where "ms = (''id'', jnum32 (dial_Id m)) # omitempty ''network'' (dial_Network m)
      @ omitempty ''address'' (dial_Address m) @ omitempty ''connection_id'' (dial_ConnectionId m)"
  have "junmarshal [(''id'', KUint32), (''network'', KString), (''address'', KString), (''connection_id'', KString)]
      (jmarshal ms) = Some (map_of ms)"
  proof (rule junmarshal_fields)
    show "distinct (map fst ms)"
      by (simp add: ms_def omitempty_def)
  qed (use assms in \<open>simp_all add: ms_def\<close>)
  then show ?thesis
    unfolding unmarshalRequestDial_def marshalRequestDial_def
    by (simp add: ms_def [symmetric]) (simp add: ms_def omitempty_def jstring_def)
qed

lemma unmarshal_ConnectionState:
  assumes "validUTF8 (state_ConnectionId m)" and "validUTF8 (state_State m)" and "validUTF8 (state_Error m)"
    and "validUTF8 (state_ErrorType m)"
  shows "unmarshalConnectionState (marshalConnectionState m) = Some m"
proof -
  define ms where "ms = (''id'', jnum32 (state_Id m)) # (''ack'', jnum32 (state_Ack m))
       # omitempty ''connection_id'' (state_ConnectionId m) @ omitempty ''state'' (state_State m)
       @ omitempty ''error'' (state_Error m) @ omitempty ''error_type'' (state_ErrorType m)"
  have "junmarshal [(''id'', KUint32), (''ack'', KUint32), (''connection_id'', KString), (''state'', KString),
           (''error'', KString), (''error_type'', KString)] (jmarshal ms) = Some (map_of ms)"
  proof (rule junmarshal_fields)
    show "distinct (map fst ms)"
      by (simp add: ms_def omitempty_def)
  qed (use assms in \<open>simp_all add: ms_def\<close>)
  then show ?thesis
    unfolding unmarshalConnectionState_def marshalConnectionState_def
    by (simp add: ms_def [symmetric]) (simp add: ms_def omitempty_def jstring_def)
qed

lemma length_tagged [simp]: "length (tagged c dat) = 5 + length dat"
  by (simp add: tagged_def)

lemma length_concat_tagged:
  "length addrs \<le> length (concat (map (tagged c) addrs))"
  "a \<in> set addrs \<Longrightarrow> length a \<le> length (concat (map (tagged c) addrs))"
  by (induction addrs) auto

lemma length_s1Header [simp]: "length (s1Header m len) = 20"
  by (simp add: s1Header_def)

lemma s1Header_fields:
  "s1Header m len ! 0 = Kind m"
  "take 4 (drop 8 (s1Header m len)) = putUint32 (MessageId m)"
  "take 4 (drop 12 (s1Header m len)) = putUint32 (AckMessageId m)"
  "take 4 (drop 16 (s1Header m len)) = putUint32 len"
  by (simp_all add: s1Header_def)

lemma knownKind_Kind [simp]: "knownKind (Kind m)"
  by (cases m) (simp_all add: knownKind_def)

context full_reader
begin

lemma ReadBytes_ok:
  assumes "good s" and "content s = tagged CHR ''b'' dat @ rest" and "length dat < 2 ^ 32"
  shows "\<exists>s'. ReadBytes rf s = Some (Ok dat, s') \<and> good s' \<and> content s' = rest"
proof -
  obtain s1 where s1: "rf 5 s = Some (Ok (byte_of_char CHR ''b'' # putUint32 (of_nat (length dat))), s1)"
    "good s1" "content s1 = dat @ rest"
    using rf_append [OF assms(1), of "byte_of_char CHR ''b'' # putUint32 (of_nat (length dat))" "dat @ rest" 5] assms(2)
    by (auto simp: tagged_def)
  obtain s2 where "rf (length dat) s1 = Some (Ok dat, s2)" "good s2" "content s2 = rest"
    using rf_append [OF s1(2,3) refl] by blast
  with s1 assms(3) show ?thesis
    by (simp add: ReadBytes_def io_simps unat_of_nat32)
qed

lemma ReadString_ok:
  assumes "good s" and "content s = tagged CHR ''s'' (bytes_of str) @ rest" and "length str < 2 ^ 32"
  shows "\<exists>s'. ReadString rf s = Some (Ok str, s') \<and> good s' \<and> content s' = rest"
proof -
  obtain s1 where s1: "rf 5 s = Some (Ok (byte_of_char CHR ''s'' # putUint32 (of_nat (length str))), s1)"
    "good s1" "content s1 = bytes_of str @ rest"
    using rf_append [OF assms(1), of "byte_of_char CHR ''s'' # putUint32 (of_nat (length str))" "bytes_of str @ rest" 5] assms(2)
    by (auto simp: tagged_def)
  obtain s2 where "rf (length str) s1 = Some (Ok (bytes_of str), s2)" "good s2" "content s2 = rest"
    using rf_append [OF s1(2,3)] length_bytes_of by metis
  with s1 assms(3) show ?thesis
    by (simp add: ReadString_def io_simps unat_of_nat32)
qed

lemma ReadArrayHeader_ok:
  assumes "good s" and "content s = (byte_of_char CHR ''a'' # putUint32 (of_nat n)) @ rest" and "n < 2 ^ 32"
  shows "\<exists>s'. ReadArrayHeader rf s = Some (Ok \<lparr>Size = n\<rparr>, s') \<and> good s' \<and> content s' = rest"
proof -
  obtain s1 where "rf 5 s = Some (Ok (byte_of_char CHR ''a'' # putUint32 (of_nat n)), s1)"
    "good s1" "content s1 = rest"
    using rf_append [OF assms(1,2), of 5] by auto
  with assms(3) show ?thesis
    by (simp add: ReadArrayHeader_def io_simps unat_of_nat32)
qed

lemma readAddresses_ok:
  assumes "good s" and "content s = concat (map (tagged CHR ''b'') addrs) @ rest"
    and "\<And>a. a \<in> set addrs \<Longrightarrow> length a < 2 ^ 32"
  shows "\<exists>s'. readAddresses rf (length addrs) s = Some (Ok addrs, s') \<and> good s' \<and> content s' = rest"
  using assms
proof (induction addrs arbitrary: s)
  case Nil
  then show ?case by (simp add: io_simps)
next
  case (Cons a addrs)
  then obtain s1 where s1: "ReadBytes rf s = Some (Ok a, s1)" "good s1"
    "content s1 = concat (map (tagged CHR ''b'') addrs) @ rest"
    using ReadBytes_ok [of s a "concat (map (tagged CHR ''b'') addrs) @ rest"] by auto
  with Cons obtain s2 where "readAddresses rf (length addrs) s1 = Some (Ok addrs, s2)" "good s2" "content s2 = rest"
    by (metis list.set_intros(2))
  with s1 show ?case
    by (simp add: io_simps)
qed

end

text \<open>The decoder of the payload undoes the encoder.\<close>

lemma decodeBody_ResultDNS:
  assumes "length (payload rnd (ResultDNS m)) < 2 ^ 32"
  shows "decodeBody KindResultDNS (dnsRes_Id m) (dnsRes_Ack m) (payload rnd (ResultDNS m)) s = Some (Ok (ResultDNS m), s)"
proof -
  define addrs where "addrs = dnsRes_Addresses m"
  define tail where "tail = tagged CHR ''s'' (bytes_of (dnsRes_Error m))"
  define body where "body = concat (map (tagged CHR ''b'') addrs)"
  have len: "length body + length tail < 2 ^ 32"
    using assms by (simp add: body_def addrs_def tail_def)
  have "length addrs < 2 ^ 32" "length (dnsRes_Error m) < 2 ^ 32"
    using length_concat_tagged(1) [of addrs "CHR ''b''"] len by (simp_all add: body_def tail_def)
  moreover have "\<And>a. a \<in> set addrs \<Longrightarrow> length a < 2 ^ 32"
    using length_concat_tagged(2) [of _ addrs "CHR ''b''"] len by (fastforce simp: body_def)
  moreover have "payload rnd (ResultDNS m) = (byte_of_char CHR ''a'' # putUint32 (of_nat (length addrs))) @ body @ tail"
    by (simp add: addrs_def body_def tail_def)
  ultimately show ?thesis
    using br.full.ReadArrayHeader_ok [of _ "length addrs" "body @ tail"] br.full.readAddresses_ok [of _ addrs tail]
      br.full.ReadString_ok [of _ "dnsRes_Error m" "[]"]
    by (simp add: decodeBody_def Kind_defs onBytes_def io_simps body_def tail_def addrs_def)
qed

lemma decodeBody_Data:
  assumes "length (payload rnd (Data m)) < 2 ^ 32"
  shows "decodeBody KindData (data_Id m) (data_Ack m) (payload rnd (Data m)) s = Some (Ok (Data m), s)"
proof -
  have "length (data_ConnectionId m) < 2 ^ 32" "length (data_Data m) < 2 ^ 32"
    using assms by simp_all
  then show ?thesis
    using br.full.ReadString_ok [of _ "data_ConnectionId m" "tagged CHR ''b'' (data_Data m)"]
      br.full.ReadBytes_ok [of _ "data_Data m" "[]"]
    by (simp add: decodeBody_def Kind_defs onBytes_def io_simps)
qed

lemma decodeBody_payload:
  assumes "encodable rnd m"
  shows "decodeBody (Kind m) (MessageId m) (AckMessageId m) (payload rnd m) s = Some (Ok m, s)"
proof (cases m)
  case (RequestDNS m1)
  with assms show ?thesis
    by (simp add: encodable_def decodeBody_def unmarshal_RequestDNS io_simps)
next
  case (RequestDial m1)
  with assms show ?thesis
    by (simp add: encodable_def decodeBody_def unmarshal_RequestDial io_simps Kind_defs)
next
  case (ConnectionState m1)
  with assms show ?thesis
    by (simp add: encodable_def decodeBody_def unmarshal_ConnectionState io_simps Kind_defs)
next
  case (ResultDNS m1)
  with assms show ?thesis
    using decodeBody_ResultDNS [of rnd m1 s] by (simp add: encodable_def)
next
  case (Data m1)
  with assms show ?thesis
    using decodeBody_Data [of rnd m1 s] by (simp add: encodable_def)
next
  case (Ping m1)
  then show ?thesis
    by (simp add: decodeBody_def io_simps Kind_defs)
qed

text \<open>\<open>decodeBody\<close> works on a local reader: it returns, it leaves the outer state alone and does not
  panic.\<close>

definition returns :: "('a, 's) io \<Rightarrow> bool" where
  "returns m \<longleftrightarrow> (\<forall>s. \<exists>r s'. m s = Some (r, s') \<and> r \<noteq> Panic)"

lemma returns_bind: "returns m \<Longrightarrow> (\<And>x. returns (k x)) \<Longrightarrow> returns (bind m k)"
  unfolding returns_def bind_def by (fastforce split: res.splits option.splits)

lemma returns_basic: "returns (ret x)" "returns (throw e)"
  by (simp_all add: returns_def io_simps)

lemma returns_r1: "returns (r1 n)"
  by (simp add: returns_def readFull_bytesReader fullSpec_def)

lemma returns_helpers: "returns (ReadBytes r1)" "returns (ReadString r1)" "returns (ReadArrayHeader r1)"
  unfolding ReadBytes_def ReadString_def ReadArrayHeader_def
  by (auto intro!: returns_bind returns_basic returns_r1)

lemma returns_readAddresses: "returns (readAddresses r1 n)"
  by (induction n) (auto intro!: returns_bind returns_basic returns_helpers)

lemma onBytes_returns: "returns m \<Longrightarrow> \<exists>r. onBytes m dat s = Some (r, s) \<and> r \<noteq> Panic"
  unfolding returns_def onBytes_def by (elim allE [of _ dat]) auto

lemma decodeBody_total: "\<exists>r. decodeBody kind mid ack dat s = Some (r, s) \<and> r \<noteq> Panic"
proof -
  have "returns (bind (ReadArrayHeader r1) (\<lambda>h. bind (readAddresses r1 (Size h)) (\<lambda>addrs.
      bind (ReadString r1) (\<lambda>errMsg. ret (ResultDNS \<lparr>dnsRes_Id = mid, dnsRes_Ack = ack,
        dnsRes_Addresses = addrs, dnsRes_Error = errMsg\<rparr>)))))"
    by (intro returns_bind returns_basic returns_helpers returns_readAddresses)
  moreover have "returns (bind (ReadString r1) (\<lambda>connId. bind (ReadBytes r1) (\<lambda>body.
      ret (Data \<lparr>data_Id = mid, data_Ack = ack, data_ConnectionId = connId, data_Data = body\<rparr>))))"
    by (intro returns_bind returns_basic returns_helpers)
  ultimately show ?thesis
    by (simp add: decodeBody_def onBytes_returns io_simps split: option.split)
qed

context full_reader
begin

lemma Read_frame:
  assumes "good s" and "content s = frame rnd m @ rest" and "encodable rnd m"
  shows "\<exists>s'. Read rf s = Some (Ok m, s') \<and> good s' \<and> content s' = rest"
proof -
  define len :: "32 word" where "len = of_nat (length (payload rnd m))"
  have unat_len: "unat len = length (payload rnd m)"
    using assms(3) by (simp add: len_def encodable_def unat_of_nat32)
  have c: "content s = s1Header m len @ payload rnd m @ rest"
    by (simp add: assms(2) frame_def len_def)
  obtain s1 where s1: "rf 20 s = Some (Ok (s1Header m len), s1)" "good s1" "content s1 = payload rnd m @ rest"
    using rf_append [OF assms(1) c, of 20] by auto
  obtain s2 where "rf (unat len) s1 = Some (Ok (payload rnd m), s2)" "good s2" "content s2 = rest"
    using rf_append [OF s1(2,3) unat_len [symmetric]] by blast
  with s1 decodeBody_payload [OF assms(3), of s2] show ?thesis
    by (simp add: Read_def io_simps Let_def s1Header_fields)
qed

text \<open>On every input \<open>Read\<close> returns a message or an error.\<close>

lemma Read_total:
  assumes "good s"
  shows "\<exists>r s'. Read rf s = Some (r, s') \<and> r \<noteq> Panic \<and> good s'"
proof (cases "20 \<le> length (content s)")
  case True
  define h where "h = take 20 (content s)"
  define n where "n = unat (uint32 (take 4 (drop 16 h)))"
  obtain s1 where s1: "rf 20 s = Some (Ok h, s1)" "good s1"
    using rf_ok [OF assms True] by (auto simp: h_def)
  obtain s2 where s2: "rf n s1 = Some (fullSpec n (content s1), s2)" "good s2"
    using rf_spec [OF s1(2)] by blast
  show ?thesis
  proof (cases "knownKind (h ! 0) \<and> n \<le> length (content s1)")
    case True
    with s1 s2 show ?thesis
      using decodeBody_total [of "h ! 0" "uint32 (take 4 (drop 8 h))" "uint32 (take 4 (drop 12 h))" "take n (content s1)" s2]
      by (auto simp: Read_def io_simps Let_def n_def [symmetric] fullSpec_def)
  next
    case False
    with s1 s2 show ?thesis
      by (cases "content s1 = []") (auto simp: Read_def io_simps Let_def n_def [symmetric] fullSpec_def)
  qed
next
  case False
  then show ?thesis
    using rf_spec [OF assms, of 20]
    by (cases "content s = []") (auto simp: fullSpec_def Read_def io_simps)
qed

text \<open>A stream that ends inside a message: \<open>io.EOF\<close> at the boundaries that \<open>io.ReadFull\<close> sees (before
  the header, and between header and payload), \<open>io.ErrUnexpectedEOF\<close> everywhere else.\<close>

lemma Read_truncated:
  assumes "good s" and "frame rnd m = content s @ missing" and "missing \<noteq> []" and "encodable rnd m"
  shows "\<exists>s'. Read rf s =
    Some (Err (if length (content s) = 0 \<or> length (content s) = 20 then EOF else UnexpectedEOF), s')"
proof (cases "20 \<le> length (content s)")
  case False
  then show ?thesis
    using rf_spec [OF assms(1), of 20] by (auto simp: fullSpec_def Read_def io_simps)
next
  case True
  define len :: "32 word" where "len = of_nat (length (payload rnd m))"
  have unat_len: "unat len = length (payload rnd m)"
    using assms(4) by (simp add: len_def encodable_def unat_of_nat32)
  have "take 20 (frame rnd m) = take 20 (content s)"
    using True assms(2) by simp
  then have h: "take 20 (content s) = s1Header m len"
    by (simp add: frame_def len_def)
  obtain s1 where s1: "rf 20 s = Some (Ok (s1Header m len), s1)" "good s1" "content s1 = drop 20 (content s)"
    using rf_ok [OF assms(1) True] h by auto
  have "20 + length (payload rnd m) = length (content s) + length missing" "0 < length missing"
    using arg_cong [OF assms(2), of length] assms(3) by (simp_all add: frame_def)
  moreover have "length (content s1) = length (content s) - 20"
    by (simp add: s1(3))
  ultimately have short: "length (content s1) < length (payload rnd m)"
    using True by linarith
  obtain s2 where "rf (length (payload rnd m)) s1 = Some (fullSpec (length (payload rnd m)) (content s1), s2)"
    using rf_spec [OF s1(2)] by blast
  with s1 short True show ?thesis
    by (auto simp: Read_def io_simps Let_def s1Header_fields unat_len fullSpec_def)
qed

end

section \<open>Streams of messages\<close>

text \<open>A writer that is called for each message in turn, a reader that is called \<open>n\<close> times. Every ping
  takes its random payload from a tape of its own.\<close>

fun writeAll :: "'s writer \<Rightarrow> (tape \<times> message) list \<Rightarrow> (unit, 's) io" where
  "writeAll wr [] = ret ()"
| "writeAll wr ((rnd, m) # ms) = bind (Write wr rnd m) (\<lambda>_. writeAll wr ms)"

fun readAll :: "'s reader \<Rightarrow> nat \<Rightarrow> (message list, 's) io" where
  "readAll rf 0 = ret []"
| "readAll rf (Suc n) = bind (Read rf) (\<lambda>m. bind (readAll rf n) (\<lambda>ms. ret (m # ms)))"

lemma writeAll_invariant:
  assumes "\<And>d f r f'. wr d f = Some (r, f') \<Longrightarrow> g f' = g f"
  shows "writeAll wr ms f = Some (Ok u, f') \<Longrightarrow> g f' = g f"
proof (induction ms arbitrary: f)
  case (Cons x ms)
  obtain rnd m where x: "x = (rnd, m)" by fastforce
  with Cons.prems obtain n h where "wr (frame rnd m) f = Some (Ok n, h)" "writeAll wr ms h = Some (Ok u, f')"
    by (auto simp: bind_eq_Ok Write_frame)
  with Cons.IH assms show ?case
    by metis
qed (simp add: ret_def)

abbreviation frames :: "(tape \<times> message) list \<Rightarrow> bytes" where
  "frames ms \<equiv> concat (map (\<lambda>(rnd, m). frame rnd m) ms)"

context byte_sink
begin

lemma writeAll_sent:
  assumes "wgood s" and "list_all (\<lambda>(rnd, m). fits (frame rnd m)) ms"
  shows "\<exists>s'. writeAll wr ms s = Some (Ok (), s') \<and> wgood s' \<and> sent s' = sent s @ frames ms"
  using assms
proof (induction ms arbitrary: s)
  case Nil
  then show ?case by (simp add: io_simps)
next
  case (Cons x ms)
  obtain rnd m where x: "x = (rnd, m)" by fastforce
  with Cons.prems obtain n s1 where s1: "wr (frame rnd m) s = Some (Ok n, s1)" "wgood s1" "sent s1 = sent s @ frame rnd m"
    using wr_ok [of s "frame rnd m"] by auto
  with Cons.prems Cons.IH [of s1] x obtain s2 where "writeAll wr ms s1 = Some (Ok (), s2)" "wgood s2" "sent s2 = sent s1 @ frames ms"
    by auto
  with s1 x show ?case
    by (simp add: Write_frame io_simps)
qed

end

context full_reader
begin

lemma readAll_frames:
  assumes "good s" and "content s = frames ms @ rest" and "list_all (\<lambda>(rnd, m). encodable rnd m) ms"
  shows "\<exists>s'. readAll rf (length ms) s = Some (Ok (map snd ms), s') \<and> good s' \<and> content s' = rest"
  using assms
proof (induction ms arbitrary: s)
  case Nil
  then show ?case by (simp add: io_simps)
next
  case (Cons x ms)
  obtain rnd m where x: "x = (rnd, m)" by fastforce
  with Cons.prems obtain s1 where s1: "Read rf s = Some (Ok m, s1)" "good s1" "content s1 = frames ms @ rest"
    using Read_frame [of s rnd m "frames ms @ rest"] by auto
  with Cons.prems Cons.IH [of s1] x obtain s2 where "readAll rf (length ms) s1 = Some (Ok (map snd ms), s2)" "good s2" "content s2 = rest"
    by auto
  with s1 x show ?case
    by (simp add: io_simps)
qed

lemma Read_eof:
  assumes "good s" and "content s = []"
  shows "\<exists>s'. Read rf s = Some (Err EOF, s')"
  using rf_spec [OF assms(1), of 20] assms(2) by (auto simp: Read_def io_simps fullSpec_def)

end

section \<open>Properties\<close>

text \<open>\<open>Writer.Write\<close> hands the destination one chunk: the 20 byte header (kind, 7 zero bytes, id, ack,
  payload length, big-endian) followed by the payload of the message, for every message and
  destination; what the destination returns is what \<open>Write\<close> returns.\<close>

theorem s1_write_frame:
  "Write wr rnd m s = wr (Kind m # zeros 7 @ putUint32 (MessageId m) @ putUint32 (AckMessageId m)
      @ putUint32 (of_nat (length (payload rnd m))) @ payload rnd m) s"
  by (simp add: Write_frame frame_def s1Header_def)

text \<open>C10. Round trip of the codec on a network connection: messages written one after the other to a
  buffer are read back unchanged and in order, whatever the segments in which the connection
  delivers the bytes, and the next \<open>Read\<close> reports \<open>io.EOF\<close>. A message must fit its 32-bit length
  field, and the strings it carries as JSON must be UTF-8.\<close>

theorem s1_stream_roundtrip:
  assumes "list_all (\<lambda>(rnd, m). encodable rnd m) ms"
  shows "\<exists>buf. writeAll bufferWrite ms [] = Some (Ok (), buf) \<and>
    (\<forall>segs. concat segs = buf \<longrightarrow>
      (\<exists>segs'. readAll (readFull connRead) (length ms) segs = Some (Ok (map snd ms), segs') \<and>
        (\<exists>segs''. Read (readFull connRead) segs' = Some (Err EOF, segs''))))"
proof -
  obtain buf where buf: "writeAll bufferWrite ms [] = Some (Ok (), buf)" "buf = frames ms"
    using bw.writeAll_sent [where s = "[]" and ms = ms] by (auto simp: list_all_iff)
  then show ?thesis
    using conn.full.readAll_frames [where ms = ms and rest = "[]"] conn.full.Read_eof assms
    by (intro exI [of _ buf]) fastforce
qed


text \<open>C28. A stream that ends inside a message is reported: \<open>io.EOF\<close> before the header and between
  header and payload, \<open>io.ErrUnexpectedEOF\<close> at every other cut. No partial message is returned.\<close>

theorem s1_read_truncated:
  assumes "encodable rnd m" and "k < length (frame rnd m)" and "concat segs = take k (frame rnd m)"
  shows "\<exists>segs'. Read (readFull connRead) segs = Some (Err (if k = 0 \<or> k = 20 then EOF else UnexpectedEOF), segs')"
  using conn.full.Read_truncated [where s = segs and rnd = rnd and m = m and missing = "drop k (frame rnd m)"] assms
  by simp

subsection \<open>Concrete messages\<close>

text \<open>The messages of \<open>s1_test.go\<close>, and the bytes the tests expect.\<close>

definition sampleMessages :: "(tape \<times> message) list" where
  "sampleMessages =
     [(\<lambda>_. 0, RequestDNS \<lparr>dnsReq_Id = 1, dnsReq_Network = ''ip'', dnsReq_DomainName = ''chat.0xff6600.com''\<rparr>),
      (\<lambda>_. 0, ResultDNS \<lparr>dnsRes_Id = 0, dnsRes_Ack = 1, dnsRes_Addresses = [[34, 117, 188, 166]], dnsRes_Error = []\<rparr>),
      (\<lambda>_. 0, Data \<lparr>data_Id = 0, data_Ack = 0, data_ConnectionId = ''test'', data_Data = bytes_of ''abcd''\<rparr>)]"

lemma zeros_7: "zeros 7 = [0, 0, 0, 0, 0, 0, 0]"
  by (simp add: zeros_def eval_nat_numeral)

lemmas sample_simps = sampleMessages_def Write_frame frame_def s1Header_def bufferWrite_def Kind_defs tagged_def bytes_of_def
  byte_of_char_def zeros_7 putUint32_def be_4

lemma sample_ResultDNS_bytes:
  "Write bufferWrite (fst (sampleMessages ! 1)) (snd (sampleMessages ! 1)) [] =
    Some (Ok 39, [2, 0, 0, 0, 0, 0, 0, 0, 0, 0, 0, 0, 0, 0, 0, 1, 0, 0, 0, 19,
      97, 0, 0, 0, 1, 98, 0, 0, 0, 4, 34, 117, 188, 166, 115, 0, 0, 0, 0])"
  by (simp add: sample_simps)

lemma sample_Data_bytes:
  "Write bufferWrite (fst (sampleMessages ! 2)) (snd (sampleMessages ! 2)) [] =
    Some (Ok 38, [0, 0, 0, 0, 0, 0, 0, 0, 0, 0, 0, 0, 0, 0, 0, 0, 0, 0, 0, 18,
      115, 0, 0, 0, 4, 116, 101, 115, 116, 98, 0, 0, 0, 4, 97, 98, 99, 100])"
  by (simp add: sample_simps)

lemma sample_encodable: "list_all (\<lambda>(rnd, m). encodable rnd m) sampleMessages"
  by (simp add: sampleMessages_def encodable_def validUTF8_ascii marshalRequestDNS_def jmarshal_def jnum32_def omitempty_def
      showNat.simps jquote_def jscalar_def jescape_safe htmlSafe_def)

theorem s1_stream_roundtrip_witness:
  "\<exists>buf. writeAll bufferWrite sampleMessages [] = Some (Ok (), buf) \<and>
    (\<forall>segs. concat segs = buf \<longrightarrow>
      (\<exists>segs'. readAll (readFull connRead) (length sampleMessages) segs = Some (Ok (map snd sampleMessages), segs') \<and>
        (\<exists>segs''. Read (readFull connRead) segs' = Some (Err EOF, segs''))))"
  by (rule s1_stream_roundtrip [OF sample_encodable])

theorem s1_read_truncated_witness:
  "\<exists>segs'. Read (readFull connRead) [[0, 0, 0], [0, 0, 0, 0, 0, 0, 0, 0, 0, 0, 0, 0, 0, 0, 0, 0, 18, 115]] =
     Some (Err UnexpectedEOF, segs')"
  using s1_read_truncated [of "\<lambda>_. 0" "snd (sampleMessages ! 2)" 21
      "[[0, 0, 0], [0, 0, 0, 0, 0, 0, 0, 0, 0, 0, 0, 0, 0, 0, 0, 0, 18, 115]]"] sample_encodable
  by (simp add: sample_simps)

end
