(* ===== verification/Cipher.thy ===== *)
theory Cipher
  imports Prelude
begin

text \<open>
  The parts of \<open>crypto/aes\<close> and \<open>crypto/cipher\<close> behind \<open>f1.Encrypt\<close> and \<open>f1.Decrypt\<close>: the AES
  block function for 128, 192 and 256 bit keys (FIPS 197) and cipher feedback mode with full blocks.
  The framers rely on one law, that decrypting inverts encrypting; it is stated and proved here for
  any block function that yields blocks of 16 bytes, and AES is such a function.
\<close>

section \<open>AES\<close>

definition BlockSize :: nat where
  "BlockSize = 16"

definition sbox :: "byte list" where
  "sbox = [
    0x63, 0x7C, 0x77, 0x7B, 0xF2, 0x6B, 0x6F, 0xC5, 0x30, 0x01, 0x67, 0x2B, 0xFE, 0xD7, 0xAB, 0x76,
    0xCA, 0x82, 0xC9, 0x7D, 0xFA, 0x59, 0x47, 0xF0, 0xAD, 0xD4, 0xA2, 0xAF, 0x9C, 0xA4, 0x72, 0xC0,
    0xB7, 0xFD, 0x93, 0x26, 0x36, 0x3F, 0xF7, 0xCC, 0x34, 0xA5, 0xE5, 0xF1, 0x71, 0xD8, 0x31, 0x15,
    0x04, 0xC7, 0x23, 0xC3, 0x18, 0x96, 0x05, 0x9A, 0x07, 0x12, 0x80, 0xE2, 0xEB, 0x27, 0xB2, 0x75,
    0x09, 0x83, 0x2C, 0x1A, 0x1B, 0x6E, 0x5A, 0xA0, 0x52, 0x3B, 0xD6, 0xB3, 0x29, 0xE3, 0x2F, 0x84,
    0x53, 0xD1, 0x00, 0xED, 0x20, 0xFC, 0xB1, 0x5B, 0x6A, 0xCB, 0xBE, 0x39, 0x4A, 0x4C, 0x58, 0xCF,
    0xD0, 0xEF, 0xAA, 0xFB, 0x43, 0x4D, 0x33, 0x85, 0x45, 0xF9, 0x02, 0x7F, 0x50, 0x3C, 0x9F, 0xA8,
    0x51, 0xA3, 0x40, 0x8F, 0x92, 0x9D, 0x38, 0xF5, 0xBC, 0xB6, 0xDA, 0x21, 0x10, 0xFF, 0xF3, 0xD2,
    0xCD, 0x0C, 0x13, 0xEC, 0x5F, 0x97, 0x44, 0x17, 0xC4, 0xA7, 0x7E, 0x3D, 0x64, 0x5D, 0x19, 0x73,
    0x60, 0x81, 0x4F, 0xDC, 0x22, 0x2A, 0x90, 0x88, 0x46, 0xEE, 0xB8, 0x14, 0xDE, 0x5E, 0x0B, 0xDB,
    0xE0, 0x32, 0x3A, 0x0A, 0x49, 0x06, 0x24, 0x5C, 0xC2, 0xD3, 0xAC, 0x62, 0x91, 0x95, 0xE4, 0x79,
    0xE7, 0xC8, 0x37, 0x6D, 0x8D, 0xD5, 0x4E, 0xA9, 0x6C, 0x56, 0xF4, 0xEA, 0x65, 0x7A, 0xAE, 0x08,
    0xBA, 0x78, 0x25, 0x2E, 0x1C, 0xA6, 0xB4, 0xC6, 0xE8, 0xDD, 0x74, 0x1F, 0x4B, 0xBD, 0x8B, 0x8A,
    0x70, 0x3E, 0xB5, 0x66, 0x48, 0x03, 0xF6, 0x0E, 0x61, 0x35, 0x57, 0xB9, 0x86, 0xC1, 0x1D, 0x9E,
    0xE1, 0xF8, 0x98, 0x11, 0x69, 0xD9, 0x8E, 0x94, 0x9B, 0x1E, 0x87, 0xE9, 0xCE, 0x55, 0x28, 0xDF,
    0x8C, 0xA1, 0x89, 0x0D, 0xBF, 0xE6, 0x42, 0x68, 0x41, 0x99, 0x2D, 0x0F, 0xB0, 0x54, 0xBB, 0x16]"

definition subByte :: "byte \<Rightarrow> byte" where
  "subByte b = sbox ! unat b"

text \<open>Multiplication by x in GF(2^8) modulo x^8 + x^4 + x^3 + x + 1.\<close>

definition xtime :: "byte \<Rightarrow> byte" where
  "xtime b = (if 128 \<le> unat b then push_bit 1 b XOR 0x1B else push_bit 1 b)"

definition xorBytes :: "bytes \<Rightarrow> bytes \<Rightarrow> bytes" where
  "xorBytes a b = map2 (XOR) a b"

text \<open>Key expansion: words of four bytes. \<open>nk\<close> is the length of the key in words; a key of \<open>nk\<close>
  words is expanded to \<open>4 * (nk + 7)\<close> words. The list holds the words computed so far, newest
  first.\<close>

definition rcon :: "nat \<Rightarrow> byte" where
  "rcon i = (xtime ^^ (i - 1)) 1"

fun keyWords :: "bytes \<Rightarrow> bytes list" where
  "keyWords (a # b # c # d # r) = [a, b, c, d] # keyWords r"
| "keyWords _ = []"

definition nextWord :: "nat \<Rightarrow> nat \<Rightarrow> bytes list \<Rightarrow> bytes" where
  "nextWord nk i ws =
     (let temp = ws ! 0;
          temp' = (if i mod nk = 0 then xorBytes (map subByte (rotate1 temp)) [rcon (i div nk), 0, 0, 0]
                   else if 6 < nk \<and> i mod nk = 4 then map subByte temp
                   else temp)
      in xorBytes (ws ! (nk - 1)) temp')"

fun expandFrom :: "nat \<Rightarrow> nat \<Rightarrow> nat \<Rightarrow> bytes list \<Rightarrow> bytes list" where
  "expandFrom nk 0 i ws = ws"
| "expandFrom nk (Suc n) i ws = expandFrom nk n (Suc i) (nextWord nk i ws # ws)"

definition expandKey :: "bytes \<Rightarrow> bytes list" where
  "expandKey key =
     (let ws = keyWords key; nk = length ws
      in rev (expandFrom nk (4 * (nk + 7) - nk) nk (rev ws)))"

text \<open>The state is a list of 16 bytes, column after column.\<close>

definition shiftRows :: "bytes \<Rightarrow> bytes" where
  "shiftRows s = map (\<lambda>i. s ! i) [0, 5, 10, 15, 4, 9, 14, 3, 8, 13, 2, 7, 12, 1, 6, 11]"

fun mixColumns :: "bytes \<Rightarrow> bytes" where
  "mixColumns (a # b # c # d # r) =
     (xtime a XOR (xtime b XOR b) XOR c XOR d)
     # (a XOR xtime b XOR (xtime c XOR c) XOR d)
     # (a XOR b XOR xtime c XOR (xtime d XOR d))
     # ((xtime a XOR a) XOR b XOR c XOR xtime d) # mixColumns r"
| "mixColumns _ = []"

fun aesRounds :: "bytes list \<Rightarrow> bytes \<Rightarrow> bytes" where
  "aesRounds (k # k' # ks) s = aesRounds (k' # ks) (xorBytes (mixColumns (shiftRows (map subByte s))) k)"
| "aesRounds [k] s = xorBytes (shiftRows (map subByte s)) k"
| "aesRounds [] s = s"

fun roundKeys :: "bytes list \<Rightarrow> bytes list" where
  "roundKeys (a # b # c # d # r) = (a @ b @ c @ d) # roundKeys r"
| "roundKeys _ = []"

definition aesBlock :: "bytes \<Rightarrow> bytes \<Rightarrow> bytes" where
  "aesBlock key s =
     (case roundKeys (expandKey key) of
        [] \<Rightarrow> zeros BlockSize
      | k # ks \<Rightarrow> aesRounds ks (xorBytes s k))"

text \<open>\<open>aes.NewCipher\<close>: a key has 16, 24 or 32 bytes.\<close>

definition NewCipher :: "bytes \<Rightarrow> (bytes \<Rightarrow> bytes) res" where
  "NewCipher key =
     (if length key = 16 \<or> length key = 24 \<or> length key = 32 then Ok (aesBlock key)
      else Err (Errorf ''crypto/aes: invalid key size''))"

subsection \<open>Blocks have 16 bytes\<close>

lemma length_xorBytes [simp]: "length (xorBytes a b) = min (length a) (length b)"
  by (simp add: xorBytes_def)

lemma keyWords_length: "w \<in> set (keyWords key) \<Longrightarrow> length w = 4"
  by (induction key rule: keyWords.induct) auto

lemma length_keyWords: "length (keyWords key) = length key div 4"
  by (induction key rule: keyWords.induct) auto

lemma expandFrom_words:
  "0 < nk \<Longrightarrow> nk \<le> length ws \<Longrightarrow> \<forall>w \<in> set ws. length w = 4 \<Longrightarrow>
    (\<forall>w \<in> set (expandFrom nk n i ws). length w = 4) \<and> length (expandFrom nk n i ws) = n + length ws"
proof (induction nk n i ws rule: expandFrom.induct)
  case (1 nk i ws)
  then show ?case by simp
next
  case (2 nk n i ws)
  have "length (ws ! 0) = 4" "length (ws ! (nk - 1)) = 4"
    using "2.prems" by (auto intro!: bspec [OF "2.prems"(3)] nth_mem)
  then have "length (nextWord nk i ws) = 4"
    by (simp add: nextWord_def Let_def)
  with 2 show ?case by simp
qed

lemma roundKeys_length:
  "\<forall>w \<in> set ws. length w = 4 \<Longrightarrow> k \<in> set (roundKeys ws) \<Longrightarrow> length k = 16"
  by (induction ws rule: roundKeys.induct) auto

lemma length_roundKeys: "length (roundKeys ws) = length ws div 4"
  by (induction ws rule: roundKeys.induct) auto

lemma mixColumns_length: "4 dvd length s \<Longrightarrow> length (mixColumns s) = length s"
proof (induction s rule: mixColumns.induct)
  case (1 a b c d r)
  then have "4 dvd length r"
    by simp presburger
  with 1 show ?case by simp
qed (auto dest: dvd_imp_le)

lemma length_shiftRows [simp]: "length (shiftRows s) = 16"
  by (simp add: shiftRows_def)

lemma aesRounds_length: "\<forall>k \<in> set ks. length k = 16 \<Longrightarrow> length s = 16 \<Longrightarrow> length (aesRounds ks s) = 16"
  by (induction ks s rule: aesRounds.induct) (auto simp: mixColumns_length)

lemma aesBlock_length:
  assumes "4 \<le> length key" and "length s = 16"
  shows "length (aesBlock key s) = 16"
proof -
  define ws where "ws = rev (keyWords key)"
  have ws: "0 < length ws" "\<forall>w \<in> set ws. length w = 4"
    using assms(1) by (auto simp: ws_def length_keyWords keyWords_length)
  have "\<forall>w \<in> set (expandKey key). length w = 4"
    using expandFrom_words [of "length ws" ws] ws by (simp add: expandKey_def Let_def ws_def)
  then have "\<forall>k \<in> set (roundKeys (expandKey key)). length k = 16"
    using roundKeys_length by blast
  with assms(2) show ?thesis
    by (cases "roundKeys (expandKey key)") (auto simp: aesBlock_def BlockSize_def aesRounds_length)
qed

section \<open>Cipher feedback mode\<close>

text \<open>\<open>cipher.NewCFBEncrypter(block, iv).XORKeyStream\<close> and \<open>cipher.NewCFBDecrypter\<close>: each block is
  combined with the encryption of the ciphertext block before it, the first with that of the
  initialisation vector.\<close>

function cfbEncrypt :: "(bytes \<Rightarrow> bytes) \<Rightarrow> bytes \<Rightarrow> bytes \<Rightarrow> bytes" where
  "cfbEncrypt E iv p =
     (if p = [] then []
      else let c = xorBytes (take BlockSize p) (E iv) in c @ cfbEncrypt E c (drop BlockSize p))"
  by pat_completeness auto
termination
  by (relation "measure (\<lambda>(E, iv, p). length p)") (auto simp: BlockSize_def)

function cfbDecrypt :: "(bytes \<Rightarrow> bytes) \<Rightarrow> bytes \<Rightarrow> bytes \<Rightarrow> bytes" where
  "cfbDecrypt E iv c =
     (if c = [] then []
      else xorBytes (take BlockSize c) (E iv) @ cfbDecrypt E (take BlockSize c) (drop BlockSize c))"
  by pat_completeness auto
termination
  by (relation "measure (\<lambda>(E, iv, c). length c)") (auto simp: BlockSize_def)

declare cfbEncrypt.simps [simp del] cfbDecrypt.simps [simp del]

lemma xorBytes_cancel: "length a \<le> length b \<Longrightarrow> xorBytes (xorBytes a b) b = a"
proof (induction a arbitrary: b)
  case Nil
  then show ?case by (simp add: xorBytes_def)
next
  case (Cons x a)
  then show ?case
    by (cases b) (auto simp: xorBytes_def xor.assoc)
qed

lemma xorBytes_take: "xorBytes a (take (length a) b) = xorBytes a b"
proof (induction a arbitrary: b)
  case Nil
  then show ?case by (simp add: xorBytes_def)
next
  case (Cons x a)
  then show ?case by (cases b) (auto simp: xorBytes_def)
qed

lemma cfbEncrypt_length:
  assumes "\<And>b. length b = BlockSize \<Longrightarrow> length (E b) = BlockSize" and "length iv = BlockSize"
  shows "length (cfbEncrypt E iv p) = length p"
  using assms(2)
proof (induction p arbitrary: iv rule: length_induct)
  case (1 p)
  show ?case
  proof (cases "length p \<le> BlockSize")
    case True
    with "1.prems" assms(1) [of iv] show ?thesis
      by (subst cfbEncrypt.simps) (simp add: Let_def cfbEncrypt.simps [of E _ "[]"])
  next
    case False
    define c where "c = xorBytes (take BlockSize p) (E iv)"
    have "length c = BlockSize"
      using False "1.prems" assms(1) by (simp add: c_def)
    moreover have "length (drop BlockSize p) < length p"
      using False by (auto simp: BlockSize_def)
    ultimately have "length (cfbEncrypt E c (drop BlockSize p)) = length p - BlockSize"
      using "1.IH" by (metis length_drop)
    with False \<open>length c = BlockSize\<close> show ?thesis
      by (subst cfbEncrypt.simps) (auto simp: Let_def c_def [symmetric])
  qed
qed

theorem cfbDecrypt_cfbEncrypt:
  assumes "\<And>b. length b = BlockSize \<Longrightarrow> length (E b) = BlockSize" and "length iv = BlockSize"
  shows "cfbDecrypt E iv (cfbEncrypt E iv p) = p"
  using assms(2)
proof (induction p arbitrary: iv rule: length_induct)
  case (1 p)
  define c where "c = xorBytes (take BlockSize p) (E iv)"
  have undo: "xorBytes c (E iv) = take BlockSize p"
    unfolding c_def using assms(1) [OF "1.prems"] by (intro xorBytes_cancel) simp
  have len: "length c = min (length p) BlockSize"
    using assms(1) [OF "1.prems"] by (simp add: c_def min.commute)
  show ?case
  proof (cases "p = []")
    case True
    then show ?thesis by (simp add: cfbEncrypt.simps cfbDecrypt.simps)
  next
    case False
    then have enc: "cfbEncrypt E iv p = c @ cfbEncrypt E c (drop BlockSize p)"
      by (subst cfbEncrypt.simps) (simp add: c_def Let_def)
    show ?thesis
    proof (cases "length p \<le> BlockSize")
      case True
      moreover have "c \<noteq> []"
        using False len by (cases p) (auto simp: BlockSize_def)
      ultimately show ?thesis
        using False undo len enc
        by (subst cfbDecrypt.simps) (auto simp: cfbEncrypt.simps [of E _ "[]"] cfbDecrypt.simps [of E _ "[]"])
    next
      case long: False
      then have "length c = BlockSize" "length (drop BlockSize p) < length p"
        using len by (auto simp: BlockSize_def)
      then have "cfbDecrypt E c (cfbEncrypt E c (drop BlockSize p)) = drop BlockSize p"
        using "1.IH" by blast
      with False undo enc \<open>length c = BlockSize\<close> show ?thesis
        by (subst cfbDecrypt.simps) (auto simp: BlockSize_def)
    qed
  qed
qed

end
