(* ===== verification/Conf.thy ===== *)
theory Conf
  imports Go_Std
begin

text \<open>
  Configuration (\<open>conf/conf.go\<close>, \<open>conf/names.go\<close>, \<open>conf/buffer.go\<close>): a map from names to strings,
  with the accessors and the names the other packages use.
\<close>

type_synonym Values = "string \<rightharpoonup> string"

definition MAX_BUFFER_SIZE :: nat where "MAX_BUFFER_SIZE = 1024 * 1024 * 8"
definition DEFAULT_BUFFER_SIZE :: nat where "DEFAULT_BUFFER_SIZE = 1024 * 64"

definition FRAMER_PSK :: string where "FRAMER_PSK = ''framer_psk''"
definition FRAMER_TIMESTAMP :: string where "FRAMER_TIMESTAMP = ''framer_timestamp''"
definition FRAMER_ROLE :: string where "FRAMER_ROLE = ''framer_role''"
definition SERVER_URL :: string where "SERVER_URL = ''server_url''"
definition PORT :: string where "PORT = ''port''"

lemmas conf_names = FRAMER_PSK_def FRAMER_TIMESTAMP_def FRAMER_ROLE_def SERVER_URL_def PORT_def

text \<open>\<open>Clone\<close> returns a new map with the same entries; in the model, where a map is a value, updates
  of the copy never touch the original.\<close>

definition Clone :: "Values \<Rightarrow> Values" where
  "Clone v = (\<lambda>name. v name)"

definition Set :: "Values \<Rightarrow> string \<Rightarrow> string \<Rightarrow> Values" where
  "Set v name val = v(name \<mapsto> val)"

definition Get :: "Values \<Rightarrow> string \<Rightarrow> string" where
  "Get v name = (case v name of Some val \<Rightarrow> val | None \<Rightarrow> [])"

definition GetInt :: "Values \<Rightarrow> string \<Rightarrow> int" where
  "GetInt v name =
     (case v name of
        Some val \<Rightarrow> (case parseInt64 val of Some iv \<Rightarrow> iv | None \<Rightarrow> 0)
      | None \<Rightarrow> 0)"

definition GetInt64 :: "Values \<Rightarrow> string \<Rightarrow> int" where
  "GetInt64 v name =
     (case v name of
        Some val \<Rightarrow> (case parseInt64 val of Some iv \<Rightarrow> iv | None \<Rightarrow> 0)
      | None \<Rightarrow> 0)"

lemma Get_Set [simp]: "Get (Set v name val) n = (if n = name then val else Get v n)"
  by (simp add: Get_def Set_def)

lemma Get_Clone [simp]: "Get (Clone v) n = Get v n"
  by (simp add: Get_def Clone_def)

text \<open>An \<open>int64\<close> stored with \<open>%d\<close> is read back by both integer accessors.\<close>

lemma GetInt_Set_showInt:
  assumes "- (2 ^ 63) \<le> i" and "i < 2 ^ 63"
  shows "GetInt (Set v name (showInt i)) name = i" and "GetInt64 (Set v name (showInt i)) name = i"
  using parseInt64_showInt [OF assms] by (simp_all add: GetInt_def GetInt64_def Set_def)

lemma GetInt_range: "- (2 ^ 63) \<le> GetInt v name \<and> GetInt v name < 2 ^ 63"
proof -
  have "- (2 ^ 63) \<le> i \<and> i < 2 ^ 63" if "parseInt64 s = Some i" for s i
    using that by (auto simp: parseInt64_def Let_def split: list.splits option.splits if_splits)
  then show ?thesis
    by (auto simp: GetInt_def split: option.split)
qed

end
