(* ===== verification/F1_Framer.thy ===== *)
theory F1_Framer
  imports Cipher Conf
begin

text \<open>
  The framer \<open>transport/framer/f1\<close>: encryption (\<open>encrypt.go\<close>) and the framed stream (\<open>f1.go\<close>,
  \<open>f0.go\<close>). A frame is a 10 byte header (two zero bytes, the size of the ciphertext, the size of the
  padding) and the ciphertext of data and padding. Shown here: on any source that honours
  \<open>full_reader\<close> and carries frames of the right key, \<open>F1.Read\<close> honours \<open>byte_source\<close>, with the
  concatenation of the decrypted chunks as its contents; on any destination that honours
  \<open>byte_sink\<close>, \<open>F1.Write\<close> honours \<open>byte_sink\<close> for the plaintext.
\<close>

section \<open>encrypt.go\<close>

definition KeySize :: nat where
  "KeySize = BlockSize"

text \<open>Operations that use \<open>crypto/rand\<close> take the tape and return what is left of it.\<close>

definition NewKey :: "tape \<Rightarrow> bytes \<times> tape" where
  "NewKey t = (randBytes BlockSize t, randSkip BlockSize t)"

definition Encrypt :: "bytes \<Rightarrow> bytes \<Rightarrow> tape \<Rightarrow> bytes res \<times> tape" where
  "Encrypt key dat t =
     (case NewCipher key of
        Ok block \<Rightarrow>
          (let iv = randBytes BlockSize t
           in (Ok (iv @ cfbEncrypt block iv dat), randSkip BlockSize t))
      | Err e \<Rightarrow> (Err e, t)
      | Panic \<Rightarrow> (Panic, t))"

text \<open>\<open>dat[:aes.BlockSize]\<close> panics on fewer than 16 bytes.\<close>

definition Decrypt :: "bytes \<Rightarrow> bytes \<Rightarrow> bytes res" where
  "Decrypt key dat =
     (case NewCipher key of
        Ok block \<Rightarrow>
          (if length dat < BlockSize then Panic
           else Ok (cfbDecrypt block (take BlockSize dat) (drop BlockSize dat)))
      | Err e \<Rightarrow> Err e
      | Panic \<Rightarrow> Panic)"

text \<open>\<open>Xor\<close>: both operands are copied into one slice, the shorter first; the loop combines byte
  \<open>i\<close> with byte \<open>j + i\<close>; the result is the slice from \<open>j\<close> on.\<close>

definition Xor :: "bytes \<Rightarrow> bytes \<Rightarrow> bytes" where
  "Xor x y =
     (let lenX = length x; lenY = length y;
          rs0 = zeros (lenX + lenY);
          (rs1, j) = (if lenX < lenY then (copyAt lenX y (gocopy rs0 x), lenX)
                      else (copyAt lenY x (gocopy rs0 y), lenY));
          rs2 = fold (\<lambda>i rs. rs[j + i := (rs ! i) XOR (rs ! (j + i))]) [0..<j] rs1
      in drop j rs2)"

subsection \<open>Decrypt inverts Encrypt\<close>

definition keyOk :: "bytes \<Rightarrow> bool" where
  "keyOk key \<longleftrightarrow> length key = 16 \<or> length key = 24 \<or> length key = 32"

lemma NewCipher_keyOk: "keyOk key \<Longrightarrow> NewCipher key = Ok (aesBlock key)"
  by (auto simp: NewCipher_def keyOk_def)

lemma aesBlock_block: "keyOk key \<Longrightarrow> length b = BlockSize \<Longrightarrow> length (aesBlock key b) = BlockSize"
  by (auto simp: keyOk_def BlockSize_def aesBlock_length)

lemma Encrypt_Ok:
  assumes "keyOk key"
  obtains c where "Encrypt key dat t = (Ok c, randSkip BlockSize t)" and "length c = BlockSize + length dat"
    and "Decrypt key c = Ok dat"
proof
  let ?iv = "randBytes BlockSize t"
  let ?c = "?iv @ cfbEncrypt (aesBlock key) ?iv dat"
  show "Encrypt key dat t = (Ok ?c, randSkip BlockSize t)"
    using NewCipher_keyOk [OF assms] by (simp add: Encrypt_def Let_def)
  show "length ?c = BlockSize + length dat"
    using aesBlock_block [OF assms] by (simp add: cfbEncrypt_length)
  show "Decrypt key ?c = Ok dat"
    using NewCipher_keyOk [OF assms] aesBlock_block [OF assms] by (simp add: Decrypt_def cfbDecrypt_cfbEncrypt)
qed

lemma Encrypt_bad_key: "\<not> keyOk key \<Longrightarrow> \<exists>e. Encrypt key dat t = (Err e, t) \<and> Decrypt key dat = Err e"
  by (auto simp: Encrypt_def Decrypt_def NewCipher_def keyOk_def)

subsection \<open>What Xor computes\<close>

lemma fold_xor_nth:
  assumes "length rs = j + m" and "j \<le> m" and "k \<le> j"
  shows "fold (\<lambda>i rs. rs[j + i := (rs ! i) XOR (rs ! (j + i))]) [0..<k] rs =
    take j rs @ xorBytes (take k rs) (take k (drop j rs)) @ drop (j + k) rs"
  using assms(3)
proof (induction k)
  case 0
  then show ?case by (simp add: xorBytes_def)
next
  case (Suc k)
  let ?mid = "xorBytes (take k rs) (take k (drop j rs))"
  have len: "length ?mid = k" "length (take j rs) = j"
    using Suc.prems assms by simp_all
  define rs' where "rs' = take j rs @ ?mid @ drop (j + k) rs"
  have nth: "rs' ! k = rs ! k" "rs' ! (j + k) = rs ! (j + k)"
    using Suc.prems assms len by (simp_all add: rs'_def nth_append)
  have "rs'[j + k := v] = take j rs @ (?mid @ [v]) @ drop (j + Suc k) rs" for v
    using Suc.prems assms len
    by (simp add: rs'_def list_update_append Cons_nth_drop_Suc [symmetric])
  moreover have "xorBytes (take (Suc k) rs) (take (Suc k) (drop j rs)) = ?mid @ [rs ! k XOR rs ! (j + k)]"
    using Suc.prems assms by (simp add: xorBytes_def take_Suc_conv_app_nth)
  ultimately show ?case
    using Suc nth by (simp add: rs'_def [symmetric])
qed

theorem Xor_eq:
  "Xor x y = (if length x < length y then xorBytes x y @ drop (length x) y
              else xorBytes y x @ drop (length y) x)"
proof -
  have main: "drop (length a) (fold (\<lambda>i rs. rs[length a + i := (rs ! i) XOR (rs ! (length a + i))]) [0..<length a]
        (copyAt (length a) b (gocopy (zeros (length a + length b)) a))) = xorBytes a b @ drop (length a) b"
    if "length a \<le> length b" for a b :: bytes
  proof -
    have rs: "copyAt (length a) b (gocopy (zeros (length a + length b)) a) = a @ b"
      by (simp add: copyAt_def gocopy_def zeros_def)
    show ?thesis
      using that fold_xor_nth [of "a @ b" "length a" "length b" "length a"]
      unfolding rs by (simp add: xorBytes_take)
  qed
  show ?thesis
    using main [of x y] main [of y x] by (simp add: Xor_def Let_def add.commute)
qed

section \<open>The key of a framer\<close>

text \<open>The first half of \<open>Framer(tx, cfg)\<close>, shared by \<open>f1\<close> and \<open>ws\<close>: the pre-shared key from
  base 64, cut or repeated to 16 bytes, its first 8 bytes combined with the timestamp. A key that is
  not base 64, or empty, panics.\<close>

function fillKey :: "nat \<Rightarrow> bytes \<Rightarrow> bytes \<Rightarrow> bytes" where
  "fillKey i pskb k =
     (if i < KeySize \<and> 0 < length pskb then fillKey (i + length pskb) pskb (copyAt i pskb k) else k)"
  by pat_completeness auto
termination
  by (relation "measure (\<lambda>(i, pskb, k). KeySize - i)")
    (auto simp del: length_greater_0_conv intro!: diff_less_mono2)

declare fillKey.simps [simp del]

definition resizeKey :: "bytes \<Rightarrow> bytes" where
  "resizeKey pskb =
     (if KeySize < length pskb then take KeySize pskb
      else if length pskb < KeySize then fillKey 0 pskb (zeros KeySize)
      else pskb)"

definition stampKey :: "int \<Rightarrow> bytes \<Rightarrow> bytes" where
  "stampKey ts pskb =
     (let tsBytes = putUint64 (of_int ts)
      in xorBytes (take 8 pskb) tsBytes @ drop 8 pskb)"

definition framerKey :: "Values \<Rightarrow> bytes res" where
  "framerKey cfg =
     (let psk = Get cfg FRAMER_PSK;
          ts = (case parseInt64 (Get cfg FRAMER_TIMESTAMP) of Some iv \<Rightarrow> iv | None \<Rightarrow> 0)
      in case b64decode psk of
           None \<Rightarrow> Panic
         | Some pskb \<Rightarrow> if length pskb \<le> 0 then Panic else Ok (stampKey ts (resizeKey pskb)))"

lemma length_fillKey [simp]: "length (fillKey i pskb k) = length k"
  by (induction i pskb k rule: fillKey.induct) (subst fillKey.simps, simp)

lemma length_resizeKey [simp]: "length (resizeKey pskb) = KeySize"
  by (simp add: resizeKey_def)

lemma length_stampKey [simp]: "length (stampKey ts pskb) = length pskb"
  by (simp add: stampKey_def Let_def)

lemma framerKey_length: "framerKey cfg = Ok key \<Longrightarrow> length key = 16"
  by (auto simp: framerKey_def Let_def KeySize_def BlockSize_def split: option.splits if_splits)

text \<open>A key of exactly 16 bytes is used as it is.\<close>

lemma framerKey_exact:
  assumes "b64decode (Get cfg FRAMER_PSK) = Some k" and "length k = 16"
    and "parseInt64 (Get cfg FRAMER_TIMESTAMP) = Some ts"
  shows "framerKey cfg = Ok (stampKey ts k)"
  using assms by (auto simp: framerKey_def resizeKey_def KeySize_def BlockSize_def)

section \<open>The framed stream\<close>

text \<open>The state of an \<open>F1\<close>: the transport below it, the key, the buffer with the rest of a chunk that
  did not fit the caller's slice. The field \<open>f1_rng\<close> is the tape of \<open>crypto/rand\<close>. The two mutexes
  make \<open>Read\<close> and \<open>Write\<close> atomic, which calling them as functions of the state expresses. The
  struct \<open>Ws\<close> has the same fields and one more, so the operations that \<open>f1.go\<close> and \<open>ws.go\<close> have in
  common take any extension of the record.\<close>

record 't F1 =
  f1_tx :: 't
  f1_psk :: bytes
  f1_bufRead :: bytes
  f1_lenBufRead :: nat
  f1_rng :: tape

definition SetPSK :: "bytes \<Rightarrow> ('t, 'z) F1_scheme \<Rightarrow> ('t, 'z) F1_scheme" where
  "SetPSK psk f = f\<lparr>f1_psk := psk\<rparr>"

definition appendBuf :: "bytes \<Rightarrow> ('t, 'z) F1_scheme \<Rightarrow> ('t, 'z) F1_scheme" where
  "appendBuf dat f =
     (let sizeAfter = f1_lenBufRead f + length dat
      in if length (f1_bufRead f) < sizeAfter
         then f\<lparr>f1_bufRead := copyAt (f1_lenBufRead f) dat (gocopy (zeros sizeAfter) (take (f1_lenBufRead f) (f1_bufRead f))),
                f1_lenBufRead := sizeAfter\<rparr>
         else f\<lparr>f1_bufRead := copyAt (f1_lenBufRead f) dat (f1_bufRead f), f1_lenBufRead := sizeAfter\<rparr>)"

text \<open>Calls of the transport below: \<open>io.ReadFull(f.tx, ...)\<close>, \<open>f.tx.Write\<close>, \<open>f.tx.Close\<close>.\<close>

definition onTx :: "('a, 't) io \<Rightarrow> ('a, ('t, 'z) F1_scheme) io" where
  "onTx m f = (case m (f1_tx f) of None \<Rightarrow> None | Some (r, t) \<Rightarrow> Some (r, f\<lparr>f1_tx := t\<rparr>))"

text \<open>The outline that \<open>F1.Read\<close> and \<open>Ws.Read\<close> share: what is buffered first, otherwise the next
  chunk of the transport (\<open>nextChunk\<close>), whose tail is buffered when it is longer than the caller's slice.\<close>

definition frameRead :: "(bytes, ('t, 'z) F1_scheme) io \<Rightarrow> nat \<Rightarrow> (bytes, ('t, 'z) F1_scheme) io" where
  "frameRead nextChunk n f =
     (if 0 < f1_lenBufRead f then
        (let sz = (if f1_lenBufRead f < n then f1_lenBufRead f else n)
         in Some (Ok (take sz (f1_bufRead f)),
              f\<lparr>f1_bufRead := gocopy (f1_bufRead f) (drop sz (f1_bufRead f)),
                f1_lenBufRead := f1_lenBufRead f - sz\<rparr>))
      else
        bind nextChunk (\<lambda>chunk f.
          if n < length chunk then ret (take n chunk) (appendBuf (drop n chunk) f) else ret chunk f) f)"

text \<open>The middle of \<open>F1.Read\<close>: \<open>chunk[:len(chunk)-sizePad]\<close> panics when the padding is longer than
  the chunk.\<close>

definition F1_nextChunk :: "'t reader \<Rightarrow> (bytes, ('t, 'z) F1_scheme) io" where
  "F1_nextChunk rf =
     bind (onTx (rf 10)) (\<lambda>header.
       let sizeAll = unat (uint32 (take 4 (drop 2 header)));
           sizePad = unat (uint32 (take 4 (drop 6 header)))
       in bind (onTx (rf sizeAll)) (\<lambda>chunkEnc f.
            case Decrypt (f1_psk f) chunkEnc of
              Err e \<Rightarrow> throw e f
            | Panic \<Rightarrow> panic f
            | Ok chunk \<Rightarrow>
                if length chunk < sizePad then panic f
                else ret (take (length chunk - sizePad) chunk) f))"

definition F1_Read :: "'t reader \<Rightarrow> 't F1 reader" where
  "F1_Read rf = frameRead (F1_nextChunk rf)"

text \<open>The random choices of one \<open>Write\<close>: for short data a byte that sets the padding size, the padding,
  the initialisation vector.\<close>

definition F1_padSize :: "bytes \<Rightarrow> tape \<Rightarrow> nat \<times> tape" where
  "F1_padSize dat t =
     (let (sizePad, t1) = (if length dat < 256 then (unat (randBytes 1 t ! 0), randSkip 1 t) else (0, t))
      in (if sizePad < 2 then 2 else sizePad, t1))"

definition F1_Write :: "'t writer \<Rightarrow> bytes \<Rightarrow> (nat, 't F1) io" where
  "F1_Write wr dat f =
     (let (sizePad, t1) = F1_padSize dat (f1_rng f);
          pad = randBytes sizePad t1;
          chunk = copyAt (length dat) pad (gocopy (zeros (length dat + sizePad)) dat);
          (r, t2) = Encrypt (f1_psk f) chunk (randSkip sizePad t1);
          f1 = f\<lparr>f1_rng := t2\<rparr>
      in case r of
           Err e \<Rightarrow> throw e f1
         | Panic \<Rightarrow> panic f1
         | Ok chunkEnc \<Rightarrow>
             (let header = zeros 2 @ putUint32 (of_nat (length chunkEnc)) @ putUint32 (of_nat sizePad)
              in onTx (wr (header @ chunkEnc)) f1))"

text \<open>\<open>Close\<close> closes the transport; \<open>F0\<close> passes every call through.\<close>

definition F1_Close :: "('a, 't) io \<Rightarrow> ('a, 't F1) io" where
  "F1_Close close = onTx close"

record 't F0 =
  f0_tx :: 't

definition F0_call :: "('a, 't) io \<Rightarrow> ('a, 't F0) io" where
  "F0_call m f = (case m (f0_tx f) of None \<Rightarrow> None | Some (r, t) \<Rightarrow> Some (r, f\<lparr>f0_tx := t\<rparr>))"

definition F0_Read :: "'t reader \<Rightarrow> 't F0 reader" where
  "F0_Read rd n = F0_call (rd n)"

definition F0_Write :: "'t writer \<Rightarrow> 't F0 writer" where
  "F0_Write wr d = F0_call (wr d)"

definition F0_Close :: "('a, 't) io \<Rightarrow> ('a, 't F0) io" where
  "F0_Close close = F0_call close"

definition F1_Framer :: "'t \<Rightarrow> Values \<Rightarrow> tape \<Rightarrow> 't F1 res" where
  "F1_Framer tx cfg t =
     (case framerKey cfg of
        Ok pskb \<Rightarrow>
          Ok \<lparr>f1_tx = tx, f1_psk = pskb, f1_bufRead = zeros DEFAULT_BUFFER_SIZE, f1_lenBufRead = 0, f1_rng = t\<rparr>
      | Err e \<Rightarrow> Err e
      | Panic \<Rightarrow> Panic)"

section \<open>The stream of an F1 is the concatenation of its chunks\<close>

text \<open>The plaintext that a sequence of bytes on the transport carries under a key: \<open>None\<close> where it is
  not a sequence of whole frames that decrypt to at least their padding.\<close>

function f1Plain :: "bytes \<Rightarrow> bytes \<Rightarrow> bytes option" where
  "f1Plain psk bs =
     (if bs = [] then Some []
      else if length bs < 10 then None
      else let sizeAll = unat (uint32 (take 4 (drop 2 bs)));
               sizePad = unat (uint32 (take 4 (drop 6 bs)));
               body = drop 10 bs
           in if length body < sizeAll then None
              else case Decrypt psk (take sizeAll body) of
                Ok chunk \<Rightarrow>
                  if length chunk < sizePad then None
                  else map_option (\<lambda>p. take (length chunk - sizePad) chunk @ p) (f1Plain psk (drop sizeAll body))
              | _ \<Rightarrow> None)"
  by pat_completeness auto
termination
  by (relation "measure (\<lambda>(psk, bs). length bs)") auto

declare f1Plain.simps [simp del]

lemma f1Plain_Nil [simp]: "f1Plain psk [] = Some []"
  by (simp add: f1Plain.simps)

text \<open>One frame: the header that \<open>F1.Write\<close> builds and a ciphertext.\<close>

definition f1Frame :: "nat \<Rightarrow> bytes \<Rightarrow> bytes" where
  "f1Frame sizePad chunkEnc =
     zeros 2 @ putUint32 (of_nat (length chunkEnc)) @ putUint32 (of_nat sizePad) @ chunkEnc"

lemma f1Plain_step:
  assumes "10 \<le> length bs" and "unat (uint32 (take 4 (drop 2 bs))) = sizeAll" and "unat (uint32 (take 4 (drop 6 bs))) = length pad"
    and "drop 10 bs = chunkEnc @ rest" and "length chunkEnc = sizeAll" and "Decrypt psk chunkEnc = Ok (dat @ pad)"
  shows "f1Plain psk bs = map_option (\<lambda>p. dat @ p) (f1Plain psk rest)"
proof -
  have "bs \<noteq> []" "\<not> length bs < 10"
    using assms(1) by auto
  with assms(2-) show ?thesis
    by (subst f1Plain.simps) (simp add: Let_def)
qed

lemma f1Plain_frame:
  assumes "Decrypt psk chunkEnc = Ok (dat @ pad)" and "length chunkEnc < 2 ^ 32" and "length pad < 2 ^ 32"
  shows "f1Plain psk (f1Frame (length pad) chunkEnc @ rest) = map_option (\<lambda>p. dat @ p) (f1Plain psk rest)"
  by (rule f1Plain_step [where chunkEnc = chunkEnc and pad = pad])
    (use assms in \<open>simp_all add: f1Frame_def unat_of_nat32\<close>)

text \<open>A prefix of whole frames can be split off.\<close>

lemma f1Plain_append:
  "f1Plain psk a = Some p \<Longrightarrow> f1Plain psk (a @ b) = map_option (\<lambda>q. p @ q) (f1Plain psk b)"
proof (induction psk a arbitrary: p rule: f1Plain.induct)
  case (1 psk a)
  show ?case
  proof (cases "a = []")
    case True
    with "1.prems" show ?thesis by (cases "f1Plain psk b") auto
  next
    case False
    define sizeAll where "sizeAll = unat (uint32 (take 4 (drop 2 a)))"
    define sizePad where "sizePad = unat (uint32 (take 4 (drop 6 a)))"
    note body = trans [OF f1Plain.simps [of psk a, symmetric] "1.prems"]
    from body False obtain chunk q where a: "\<not> length a < 10" "\<not> length (drop 10 a) < sizeAll"
      "Decrypt psk (take sizeAll (drop 10 a)) = Ok chunk" "\<not> length chunk < sizePad"
      "f1Plain psk (drop sizeAll (drop 10 a)) = Some q" "p = take (length chunk - sizePad) chunk @ q"
      by (auto simp: Let_def sizeAll_def [symmetric] sizePad_def [symmetric] split: if_splits res.splits)
    have ih: "f1Plain psk (drop sizeAll (drop 10 a) @ b) = map_option (\<lambda>r. q @ r) (f1Plain psk b)"
      using False a "1.IH" [OF False, of sizeAll sizePad "drop 10 a" chunk q]
      by (simp add: sizeAll_def sizePad_def)
    have "take 4 (drop 2 (a @ b)) = take 4 (drop 2 a)" "take 4 (drop 6 (a @ b)) = take 4 (drop 6 a)"
      "drop 10 (a @ b) = drop 10 a @ b"
      "\<not> length (a @ b) < 10" "\<not> length (drop 10 a @ b) < sizeAll"
      using a(1,2) by simp_all
    with False a ih show ?thesis
      by (subst f1Plain.simps)
        (simp only: Let_def sizeAll_def [symmetric] sizePad_def [symmetric], simp add: option.map_comp comp_def, simp flip: append_assoc)
  qed
qed

subsection \<open>The read buffer\<close>

text \<open>The buffered bytes, and the invariant that keeps every slice expression of \<open>Read\<close> and
  \<open>appendBuf\<close> in bounds.\<close>

definition f1Buffered :: "('t, 'z) F1_scheme \<Rightarrow> bytes" where
  "f1Buffered f = take (f1_lenBufRead f) (f1_bufRead f)"

definition f1BufOk :: "('t, 'z) F1_scheme \<Rightarrow> bool" where
  "f1BufOk f \<longleftrightarrow> f1_lenBufRead f \<le> length (f1_bufRead f)"

text \<open>The part of the state that is not the buffer.\<close>

definition f1Unbuffered :: "('t, 'z) F1_scheme \<Rightarrow> ('t, 'z) F1_scheme" where
  "f1Unbuffered f = f\<lparr>f1_bufRead := [], f1_lenBufRead := 0\<rparr>"

lemma f1Unbuffered_update [simp]:
  "f1Unbuffered (f\<lparr>f1_bufRead := b\<rparr>) = f1Unbuffered f" "f1Unbuffered (f\<lparr>f1_lenBufRead := l\<rparr>) = f1Unbuffered f"
  by (simp_all add: f1Unbuffered_def)

lemma appendBuf_spec:
  assumes "f1BufOk f"
  shows "f1BufOk (appendBuf dat f)" and "f1Buffered (appendBuf dat f) = f1Buffered f @ dat"
    and "f1Unbuffered (appendBuf dat f) = f1Unbuffered f"
proof -
  let ?l = "f1_lenBufRead f" and ?b = "f1_bufRead f"
  have fresh: "take (?l + length dat) (copyAt ?l dat (gocopy (zeros (?l + length dat)) (take ?l ?b))) = take ?l ?b @ dat"
    using assms by (subst take_copyAt) (simp_all add: gocopy_def f1BufOk_def)
  show "f1BufOk (appendBuf dat f)" "f1Unbuffered (appendBuf dat f) = f1Unbuffered f"
    by (simp_all add: appendBuf_def f1BufOk_def Let_def)
  show "f1Buffered (appendBuf dat f) = f1Buffered f @ dat"
    using fresh take_copyAt [of ?l dat ?b] by (simp add: appendBuf_def f1Buffered_def Let_def)
qed

lemma frameRead_buffered:
  assumes "f1BufOk f" and "0 < f1_lenBufRead f"
  shows "\<exists>f'. frameRead nc n f = Some (Ok (take n (f1Buffered f)), f') \<and> f1BufOk f' \<and>
    f1Buffered f' = drop n (f1Buffered f) \<and> f1Unbuffered f' = f1Unbuffered f"
proof -
  let ?l = "f1_lenBufRead f" and ?b = "f1_bufRead f"
  define sz where "sz = min ?l n"
  have shift: "take (?l - sz) (gocopy ?b (drop sz ?b)) = drop sz (take ?l ?b)"
    using assms by (simp add: gocopy_def f1BufOk_def drop_take)
  have "(if ?l < n then ?l else n) = sz"
    by (simp add: sz_def)
  moreover have "take sz ?b = take n (take ?l ?b)" "drop sz (take ?l ?b) = drop n (take ?l ?b)"
    using assms by (auto simp: sz_def f1BufOk_def min_def)
  ultimately show ?thesis
    using assms shift by (auto simp: frameRead_def f1BufOk_def f1Buffered_def Let_def)
qed

text \<open>The contract of the operation that fetches the next chunk: it delivers the chunks of the stream
  \<open>plain\<close> in order, leaves the buffer alone, and fails only at the end.\<close>

locale chunk_source =
  fixes nextChunk :: "(bytes, ('t, 'z) F1_scheme) io" and plain :: "('t, 'z) F1_scheme \<Rightarrow> bytes"
    and cgood :: "('t, 'z) F1_scheme \<Rightarrow> bool" and crank :: "('t, 'z) F1_scheme \<Rightarrow> nat"
  assumes unbuffered: "f1Unbuffered f = f1Unbuffered g \<Longrightarrow> plain f = plain g \<and> cgood f = cgood g \<and> crank f = crank g"
    and nextChunk_ok: "cgood f \<Longrightarrow> plain f \<noteq> [] \<or> 0 < crank f \<Longrightarrow>
      \<exists>c f'. nextChunk f = Some (Ok c, f') \<and> cgood f' \<and> plain f = c @ plain f' \<and> crank f' < crank f
        \<and> f1_bufRead f' = f1_bufRead f \<and> f1_lenBufRead f' = f1_lenBufRead f"
    and nextChunk_eof: "cgood f \<Longrightarrow> plain f = [] \<Longrightarrow> crank f = 0 \<Longrightarrow>
      \<exists>f'. nextChunk f = Some (Err EOF, f') \<and> cgood f' \<and> plain f' = []
        \<and> f1_bufRead f' = f1_bufRead f \<and> f1_lenBufRead f' = f1_lenBufRead f"
begin

lemma frameRead_source:
  assumes "f1BufOk f \<and> cgood f" and "0 < n"
  shows "\<exists>r f'. frameRead nextChunk n f = Some (r, f') \<and>
    source_step (\<lambda>f. f1Buffered f @ plain f) (\<lambda>f. f1BufOk f \<and> cgood f) crank n f r f'"
proof (cases "0 < f1_lenBufRead f")
  case True
  have ne: "f1Buffered f \<noteq> []"
    using assms True by (auto simp: f1Buffered_def f1BufOk_def)
  obtain f' where f': "frameRead nextChunk n f = Some (Ok (take n (f1Buffered f)), f')" "f1BufOk f'"
    "f1Buffered f' = drop n (f1Buffered f)" "f1Unbuffered f' = f1Unbuffered f"
    using frameRead_buffered [of f nextChunk n] assms True by blast
  with unbuffered [OF f'(4)] ne assms show ?thesis
    by (auto simp: source_step_def)
next
  case empty: False
  then have none: "f1Buffered f = []" "f1_lenBufRead f = 0"
    by (simp_all add: f1Buffered_def)
  show ?thesis
  proof (cases "plain f \<noteq> [] \<or> 0 < crank f")
    case True
    obtain c f' where f': "nextChunk f = Some (Ok c, f')" "cgood f'" "plain f = c @ plain f'" "crank f' < crank f"
      "f1_bufRead f' = f1_bufRead f" "f1_lenBufRead f' = f1_lenBufRead f"
      using nextChunk_ok [OF _ True] assms by blast
    have buf: "f1BufOk f'" "f1Buffered f' = []"
      using f' none assms by (simp_all add: f1BufOk_def f1Buffered_def)
    show ?thesis
    proof (cases "n < length c")
      case True
      with f' none buf appendBuf_spec [OF buf(1), of "drop n c"] unbuffered [of "appendBuf (drop n c) f'" f'] assms(2)
      show ?thesis
        by (auto simp: frameRead_def io_simps source_step_def simp flip: append_assoc)
    next
      case False
      with f' none buf show ?thesis
        by (auto simp: frameRead_def io_simps source_step_def)
    qed
  next
    case False
    then obtain f' where "nextChunk f = Some (Err EOF, f')" "cgood f'" "plain f' = []"
      "f1_bufRead f' = f1_bufRead f" "f1_lenBufRead f' = f1_lenBufRead f"
      using nextChunk_eof [of f] assms by auto
    with none False assms show ?thesis
      by (auto simp: frameRead_def io_simps source_step_def f1BufOk_def f1Buffered_def)
  qed
qed

end

sublocale chunk_source \<subseteq> frames: byte_source "frameRead nextChunk" "\<lambda>f. f1Buffered f @ plain f"
    "\<lambda>f. f1BufOk f \<and> cgood f" crank
  by unfold_locales (rule frameRead_source)

subsection \<open>F1 over any full reader\<close>

lemma f1Plain_cases:
  assumes "f1Plain psk bs = Some p" and "bs \<noteq> []"
  obtains header chunkEnc rest dat pad q where "bs = header @ chunkEnc @ rest" and "length header = 10"
    and "unat (uint32 (take 4 (drop 2 header))) = length chunkEnc"
    and "unat (uint32 (take 4 (drop 6 header))) = length pad"
    and "Decrypt psk chunkEnc = Ok (dat @ pad)" and "f1Plain psk rest = Some q" and "p = dat @ q"
proof -
  define sizeAll where "sizeAll = unat (uint32 (take 4 (drop 2 bs)))"
  define sizePad where "sizePad = unat (uint32 (take 4 (drop 6 bs)))"
  note body = trans [OF f1Plain.simps [of psk bs, symmetric] assms(1)]
  from body assms(2) obtain chunk q where a: "\<not> length bs < 10" "\<not> length (drop 10 bs) < sizeAll"
    "Decrypt psk (take sizeAll (drop 10 bs)) = Ok chunk" "\<not> length chunk < sizePad"
    "f1Plain psk (drop sizeAll (drop 10 bs)) = Some q" "p = take (length chunk - sizePad) chunk @ q"
    by (auto simp: Let_def sizeAll_def [symmetric] sizePad_def [symmetric] split: if_splits res.splits)
  show thesis
  proof (rule that)
    show "bs = take 10 bs @ take sizeAll (drop 10 bs) @ drop sizeAll (drop 10 bs)"
      by (metis append_take_drop_id)
    show "Decrypt psk (take sizeAll (drop 10 bs)) = Ok (take (length chunk - sizePad) chunk @ drop (length chunk - sizePad) chunk)"
      using a(3) by simp
  qed (use a in \<open>auto simp: sizeAll_def sizePad_def drop_take min_def\<close>)
qed

text \<open>The transport carries whole frames of the right key, and the plaintext in them.\<close>

definition f1Good :: "('s \<Rightarrow> bytes) \<Rightarrow> ('s \<Rightarrow> bool) \<Rightarrow> ('s, 'z) F1_scheme \<Rightarrow> bool" where
  "f1Good content good f \<longleftrightarrow> good (f1_tx f) \<and> f1Plain (f1_psk f) (content (f1_tx f)) \<noteq> None"

definition f1Stream :: "('s \<Rightarrow> bytes) \<Rightarrow> ('s, 'z) F1_scheme \<Rightarrow> bytes" where
  "f1Stream content f = the (f1Plain (f1_psk f) (content (f1_tx f)))"

context full_reader
begin

lemma onTx_rf:
  assumes "good (f1_tx f)" and "content (f1_tx f) = xs @ rest" and "length xs = n"
  obtains t where "onTx (rf n) f = Some (Ok xs, f\<lparr>f1_tx := t\<rparr>)" and "good t" and "content t = rest"
proof -
  obtain t where "rf n (f1_tx f) = Some (Ok xs, t)" "good t" "content t = rest"
    using rf_append [OF assms] .
  then show thesis
    by (intro that [of t]) (simp_all add: onTx_def)
qed

lemma F1_nextChunk_step:
  assumes "good (f1_tx f)" and bs: "content (f1_tx f) = header @ chunkEnc @ rest" "length header = 10"
    "unat (uint32 (take 4 (drop 2 header))) = length chunkEnc" "unat (uint32 (take 4 (drop 6 header))) = length pad"
    "Decrypt (f1_psk f) chunkEnc = Ok (dat @ pad)"
  shows "\<exists>t. F1_nextChunk rf f = Some (Ok dat, f\<lparr>f1_tx := t\<rparr>) \<and> good t \<and> content t = rest"
proof -
  obtain t1 where t1: "onTx (rf 10) f = Some (Ok header, f\<lparr>f1_tx := t1\<rparr>)" "good t1" "content t1 = chunkEnc @ rest"
    using onTx_rf [OF assms(1) bs(1,2)] .
  obtain t2 where t2: "onTx (rf (length chunkEnc)) (f\<lparr>f1_tx := t1\<rparr>) = Some (Ok chunkEnc, f\<lparr>f1_tx := t2\<rparr>)"
    "good t2" "content t2 = rest"
    using onTx_rf [of "f\<lparr>f1_tx := t1\<rparr>" chunkEnc rest "length chunkEnc"] t1 by auto
  then show ?thesis
    using bs t1 by (intro exI [of _ t2]) (simp add: F1_nextChunk_def io_simps Let_def)
qed

lemma F1_nextChunk_ok:
  assumes "f1Good content good f" and "content (f1_tx f) \<noteq> []"
  shows "\<exists>c f'. F1_nextChunk rf f = Some (Ok c, f') \<and> f1Good content good f' \<and> f1Stream content f = c @ f1Stream content f'
    \<and> length (content (f1_tx f')) < length (content (f1_tx f))
    \<and> f1_bufRead f' = f1_bufRead f \<and> f1_lenBufRead f' = f1_lenBufRead f"
proof -
  from assms(1) obtain p where p: "f1Plain (f1_psk f) (content (f1_tx f)) = Some p" and g: "good (f1_tx f)"
    by (auto simp: f1Good_def)
  obtain header chunkEnc rest dat pad q where bs: "content (f1_tx f) = header @ chunkEnc @ rest" "length header = 10"
    "unat (uint32 (take 4 (drop 2 header))) = length chunkEnc" "unat (uint32 (take 4 (drop 6 header))) = length pad"
    "Decrypt (f1_psk f) chunkEnc = Ok (dat @ pad)" "f1Plain (f1_psk f) rest = Some q" "p = dat @ q"
    using f1Plain_cases [OF p assms(2)] .
  obtain t where "F1_nextChunk rf f = Some (Ok dat, f\<lparr>f1_tx := t\<rparr>)" "good t" "content t = rest"
    using F1_nextChunk_step [OF g bs(1-5)] by blast
  then show ?thesis
    using p bs by (auto simp: f1Good_def f1Stream_def)
qed

text \<open>A frame is read as one chunk whatever follows it, provided the caller's slice holds the chunk.\<close>

lemma F1_Read_frame:
  assumes "good (f1_tx f)" and "content (f1_tx f) = f1Frame (length pad) chunkEnc @ rest"
    and "Decrypt (f1_psk f) chunkEnc = Ok (dat @ pad)" and "length chunkEnc < 2 ^ 32" and "length pad < 2 ^ 32"
    and "f1_lenBufRead f = 0" and "length dat \<le> n"
  shows "\<exists>t. F1_Read rf n f = Some (Ok dat, f\<lparr>f1_tx := t\<rparr>) \<and> good t \<and> content t = rest"
proof -
  let ?h = "zeros 2 @ putUint32 (of_nat (length chunkEnc)) @ putUint32 (of_nat (length pad))"
  have "\<exists>t. F1_nextChunk rf f = Some (Ok dat, f\<lparr>f1_tx := t\<rparr>) \<and> good t \<and> content t = rest"
    by (rule F1_nextChunk_step [where header = ?h and chunkEnc = chunkEnc and pad = pad])
      (use assms in \<open>simp_all add: f1Frame_def unat_of_nat32\<close>)
  with assms(6,7) show ?thesis
    by (auto simp: F1_Read_def frameRead_def io_simps)
qed

lemma F1_nextChunk_eof:
  assumes "f1Good content good f" and "content (f1_tx f) = []"
  shows "\<exists>f'. F1_nextChunk rf f = Some (Err EOF, f') \<and> f1Good content good f' \<and> f1Stream content f' = []
    \<and> f1_bufRead f' = f1_bufRead f \<and> f1_lenBufRead f' = f1_lenBufRead f"
proof -
  obtain t where "rf 10 (f1_tx f) = Some (Err EOF, t)" "good t" "content t = []"
    using rf_eof [of "f1_tx f" 10] assms by (auto simp: f1Good_def)
  then show ?thesis
    by (auto simp: F1_nextChunk_def io_simps onTx_def f1Good_def f1Stream_def)
qed

end

lemma f1Unbuffered_eqD:
  "f1Unbuffered f = f1Unbuffered g \<Longrightarrow> f1_tx f = f1_tx g \<and> f1_psk f = f1_psk g \<and> f1_rng f = f1_rng g \<and> F1.more f = F1.more g"
  by (cases f, cases g) (simp add: f1Unbuffered_def)

locale f1_reader = full_reader

sublocale f1_reader \<subseteq> f1: chunk_source "F1_nextChunk rf" "f1Stream content" "f1Good content good"
    "\<lambda>f. length (content (f1_tx f))"
proof (unfold_locales, goal_cases)
  case (1 f g)
  then show ?case
    by (auto simp: f1Good_def f1Stream_def dest: f1Unbuffered_eqD)
next
  case (2 f)
  then have "content (f1_tx f) \<noteq> []"
    by (auto simp: f1Stream_def)
  with 2 F1_nextChunk_ok show ?case
    by blast
next
  case (3 f)
  with F1_nextChunk_eof show ?case
    by simp
qed

text \<open>Writing: everything written is a sequence of whole frames.\<close>

lemma F1_padSize_bounds:
  assumes "F1_padSize dat t = (sizePad, t1)"
  shows "2 \<le> sizePad" and "sizePad < 256"
  using assms by (auto simp: F1_padSize_def Let_def split: if_splits)

lemma F1_Write_frame:
  assumes "keyOk (f1_psk f)"
  obtains pad chunkEnc t where "F1_Write wr dat f = onTx (wr (f1Frame (length pad) chunkEnc)) (f\<lparr>f1_rng := t\<rparr>)"
    and "Decrypt (f1_psk f) chunkEnc = Ok (dat @ pad)" and "length chunkEnc = 16 + length dat + length pad"
    and "2 \<le> length pad" and "length pad < 256"
proof -
  obtain sizePad t1 where ps: "F1_padSize dat (f1_rng f) = (sizePad, t1)"
    by fastforce
  let ?pad = "randBytes sizePad t1"
  have chunk: "copyAt (length dat) ?pad (gocopy (zeros (length dat + sizePad)) dat) = dat @ ?pad"
    by (simp add: copyAt_def gocopy_def zeros_def)
  obtain c where c: "Encrypt (f1_psk f) (dat @ ?pad) (randSkip sizePad t1) = (Ok c, randSkip BlockSize (randSkip sizePad t1))"
    "length c = BlockSize + length (dat @ ?pad)" "Decrypt (f1_psk f) c = Ok (dat @ ?pad)"
    using Encrypt_Ok [OF assms] .
  show thesis
  proof (rule that [of "?pad" c "randSkip BlockSize (randSkip sizePad t1)"])
    show "F1_Write wr dat f = onTx (wr (f1Frame (length ?pad) c)) (f\<lparr>f1_rng := randSkip BlockSize (randSkip sizePad t1)\<rparr>)"
      using c by (simp add: F1_Write_def ps Let_def chunk f1Frame_def)
  qed (use c F1_padSize_bounds [OF ps] in \<open>simp_all add: BlockSize_def\<close>)
qed

definition f1WGood :: "('s \<Rightarrow> bytes) \<Rightarrow> ('s \<Rightarrow> bool) \<Rightarrow> ('s, 'z) F1_scheme \<Rightarrow> bool" where
  "f1WGood sent wgood f \<longleftrightarrow> keyOk (f1_psk f) \<and> f1Good sent wgood f"

definition f1Fits :: "(bytes \<Rightarrow> bool) \<Rightarrow> bytes \<Rightarrow> bool" where
  "f1Fits fits dat \<longleftrightarrow> length dat + 300 < 2 ^ 32 \<and> (\<forall>e. length e \<le> length dat + 300 \<longrightarrow> fits e)"

context byte_sink
begin

lemma F1_Write_sent:
  assumes "f1WGood sent wgood f" and "f1Fits fits dat"
  shows "\<exists>n f'. F1_Write wr dat f = Some (Ok n, f') \<and> f1WGood sent wgood f' \<and> f1Stream sent f' = f1Stream sent f @ dat"
proof -
  from assms(1) obtain p where g: "wgood (f1_tx f)" "keyOk (f1_psk f)" and p: "f1Plain (f1_psk f) (sent (f1_tx f)) = Some p"
    by (auto simp: f1WGood_def f1Good_def)
  obtain pad chunkEnc t where w: "F1_Write wr dat f = onTx (wr (f1Frame (length pad) chunkEnc)) (f\<lparr>f1_rng := t\<rparr>)"
    "Decrypt (f1_psk f) chunkEnc = Ok (dat @ pad)" "length chunkEnc = 16 + length dat + length pad" "length pad < 256"
    using F1_Write_frame [OF g(2), of wr dat] by metis
  let ?d = "f1Frame (length pad) chunkEnc"
  have "length ?d \<le> length dat + 300"
    using w by (simp add: f1Frame_def)
  with assms(2) obtain n t' where "wr ?d (f1_tx f) = Some (Ok n, t')" "wgood t'" "sent t' = sent (f1_tx f) @ ?d"
    using wr_ok [OF g(1), of ?d] by (auto simp: f1Fits_def)
  moreover have "f1Plain (f1_psk f) (sent (f1_tx f) @ ?d) = Some (p @ dat)"
    using f1Plain_append [OF p, of ?d] f1Plain_frame [OF w(2), of "[]"] w assms(2) by (simp add: f1Fits_def)
  ultimately show ?thesis
    using w(1) g p by (auto simp: onTx_def f1WGood_def f1Good_def f1Stream_def)
qed

end

locale f1_writer = byte_sink

sublocale f1_writer \<subseteq> f1w: byte_sink "F1_Write wr" "f1Stream sent" "f1WGood sent wgood" "f1Fits fits"
  by unfold_locales (rule F1_Write_sent)

text \<open>On the connections and buffers of the program: an \<open>F1\<close> over a TCP connection, whatever its
  segments, and an \<open>F1\<close> that writes to a buffer.\<close>

interpretation f1conn: f1_reader "readFull connRead" concat "\<lambda>_. True" ..

interpretation f1buf: f1_writer bufferWrite "\<lambda>s. s" "\<lambda>_. True" "\<lambda>_. True" ..

section \<open>Properties\<close>

text \<open>\<open>Decrypt\<close> undoes \<open>Encrypt\<close>: with a key of 16, 24 or 32 bytes \<open>Encrypt\<close> returns the 16 byte
  initialisation vector it drew followed by as many bytes as the plaintext has, and \<open>Decrypt\<close> under
  the same key returns the plaintext; with a key of any other length both return the same error.\<close>

theorem encrypt_roundtrip:
  "if length key \<in> {16, 24, 32}
   then \<exists>c t'. Encrypt key dat t = (Ok c, t') \<and> length c = 16 + length dat \<and> take 16 c = randBytes 16 t \<and> Decrypt key c = Ok dat
   else \<exists>e. Encrypt key dat t = (Err e, t) \<and> (\<forall>c. Decrypt key c = Err e)"
proof (cases "keyOk key")
  case True
  obtain c where c: "Encrypt key dat t = (Ok c, randSkip BlockSize t)" "length c = BlockSize + length dat" "Decrypt key c = Ok dat"
    using Encrypt_Ok [OF True] .
  moreover have "take 16 c = randBytes 16 t"
    using c(1) NewCipher_keyOk [OF True] by (auto simp: Encrypt_def Let_def BlockSize_def)
  ultimately show ?thesis
    using True by (auto simp: keyOk_def BlockSize_def)
next
  case False
  then show ?thesis
    by (auto simp: Encrypt_def Decrypt_def NewCipher_def keyOk_def)
qed

lemma fillKey_nth:
  assumes "0 < length pskb" and "length k = KeySize" and "i mod length pskb = 0"
    and "\<And>j. j < i \<Longrightarrow> j < KeySize \<Longrightarrow> k ! j = pskb ! (j mod length pskb)" and "j < KeySize"
  shows "fillKey i pskb k ! j = pskb ! (j mod length pskb)"
  using assms
proof (induction i pskb k rule: fillKey.induct)
  case (1 i pskb k)
  show ?case
  proof (cases "i < KeySize")
    case False
    with "1.prems" show ?thesis
      by (subst fillKey.simps) simp
  next
    case True
    let ?l = "length pskb" and ?k = "copyAt i pskb k"
    have new: "?k ! m = pskb ! (m mod ?l)" if m: "m < i + ?l" "m < KeySize" for m
    proof (cases "m < i")
      case True
      with "1.prems" m show ?thesis
        by (simp add: copyAt_def nth_append)
    next
      case False
      then have "(m - i) mod ?l = m mod ?l"
        using "1.prems"(3) by (metis le_add_diff_inverse linorder_not_le mod_add_left_eq add_0)
      with False m have "m mod ?l = m - i"
        by simp
      moreover have "m - i < ?l" "m - i < KeySize - i"
        using False m by linarith+
      ultimately show ?thesis
        using False m True "1.prems"(2) by (simp add: copyAt_def gocopy_def nth_append)
    qed
    have "fillKey (i + ?l) pskb ?k ! j = pskb ! (j mod ?l)"
      using True "1.prems" new by (intro "1.IH") auto
    with True "1.prems"(1) show ?thesis
      by (subst fillKey.simps) simp
  qed
qed

lemma resizeKey_nth:
  assumes "pskb \<noteq> []" and "i < 16"
  shows "resizeKey pskb ! i = pskb ! (i mod length pskb)"
  using assms fillKey_nth [of pskb "zeros KeySize" 0 i] by (simp add: resizeKey_def KeySize_def BlockSize_def)

text \<open>The key of a framer: \<open>Framer\<close> panics exactly when the pre-shared key is not base 64 or is
  empty; otherwise the key has 16 bytes, byte \<open>i\<close> being byte \<open>i\<close> of the decoded key, cut or repeated
  to 16 bytes, combined for \<open>i < 8\<close> with byte \<open>i\<close> of the big-endian timestamp (0 when the timestamp
  is not an integer).\<close>

theorem framer_key:
  "framerKey cfg =
    (case b64decode (Get cfg FRAMER_PSK) of
       None \<Rightarrow> Panic
     | Some pskb \<Rightarrow>
         if pskb = [] then Panic
         else Ok (map (\<lambda>i. pskb ! (i mod length pskb) XOR
           (if i < 8 then putUint64 (of_int (case parseInt64 (Get cfg FRAMER_TIMESTAMP) of Some iv \<Rightarrow> iv | None \<Rightarrow> 0)) ! i else 0))
           [0..<16]))"
proof -
  have "stampKey ts (resizeKey pskb) =
      map (\<lambda>i. pskb ! (i mod length pskb) XOR (if i < 8 then putUint64 (of_int ts) ! i else 0)) [0..<16]"
    if "pskb \<noteq> []" for ts pskb
  proof (rule nth_equalityI)
    fix i
    assume "i < length (stampKey ts (resizeKey pskb))"
    then have "i < 16"
      by (simp add: KeySize_def BlockSize_def)
    with that resizeKey_nth [OF that this]
    show "stampKey ts (resizeKey pskb) ! i =
        map (\<lambda>i. pskb ! (i mod length pskb) XOR (if i < 8 then putUint64 (of_int ts) ! i else 0)) [0..<16] ! i"
      by (auto simp: stampKey_def xorBytes_def nth_append KeySize_def BlockSize_def)
  qed (simp add: KeySize_def BlockSize_def)
  then show ?thesis
    by (simp add: framerKey_def Let_def split: option.split)
qed

lemma F1_Framer_state:
  assumes "framerKey cfg = Ok psk"
  shows "F1_Framer tx cfg t =
    Ok \<lparr>f1_tx = tx, f1_psk = psk, f1_bufRead = zeros DEFAULT_BUFFER_SIZE, f1_lenBufRead = 0, f1_rng = t\<rparr>"
  using assms by (simp add: F1_Framer_def)

text \<open>The two ends of a stream: what a fresh writer sends is what a fresh reader with the same
  configuration finds on its transport.\<close>

lemma f1_writer_start:
  assumes "framerKey cfg = Ok psk" and "F1_Framer [] cfg t = Ok w"
  shows "f1WGood (\<lambda>s. s) (\<lambda>_. True) w" and "f1Stream (\<lambda>s. s) w = []" and "f1_psk w = psk"
  using assms framerKey_length [OF assms(1)]
  by (auto simp: F1_Framer_state f1WGood_def f1Good_def f1Stream_def keyOk_def)

lemma f1_reader_start:
  assumes "framerKey cfg = Ok psk" and "F1_Framer tx cfg t = Ok r" and "f1Plain psk (content tx) = Some p" and "good tx"
  shows "f1BufOk r \<and> f1Good content good r" and "f1Buffered r @ f1Stream content r = p"
  using assms by (auto simp: F1_Framer_state f1BufOk_def f1Good_def f1Buffered_def f1Stream_def)

text \<open>\<open>Write\<close> does not change the key.\<close>

lemma F1_Write_psk: "F1_Write wr d f = Some (r, f') \<Longrightarrow> f1_psk f' = f1_psk f"
  by (auto simp: F1_Write_def onTx_def throw_def panic_def Let_def split: prod.splits res.splits option.splits)

lemma writeEach_psk: "writeEach (F1_Write wr) ds f = Some (Ok u, f') \<Longrightarrow> f1_psk f' = f1_psk f"
  by (induction ds arbitrary: f) (auto simp: ret_def bind_eq_Ok dest: F1_Write_psk)

text \<open>C8. An \<open>F1\<close> is a byte stream. Chunks written to one framer and carried by a connection to a
  framer with the same configuration are read as the concatenation of the chunks: \<open>io.ReadFull\<close>
  for any \<open>n\<close> bytes returns the first \<open>n\<close> of them, or the right end-of-file error when there are
  fewer, whatever the padding, the initialisation vectors and the segments of the connection.\<close>

theorem f1_stream:
  assumes "framerKey cfg = Ok psk" and "list_all (\<lambda>d. length d + 300 < 2 ^ 32) ds"
  shows "\<exists>w w'. F1_Framer [] cfg t = Ok w \<and> writeEach (F1_Write bufferWrite) ds w = Some (Ok (), w') \<and>
    (\<forall>segs t' n. concat segs = f1_tx w' \<longrightarrow>
      (\<exists>r r'. F1_Framer segs cfg t' = Ok r \<and>
        readFull (F1_Read (readFull connRead)) n r = Some (fullSpec n (concat ds), r')))"
proof -
  obtain w :: "bytes F1" where w: "F1_Framer [] cfg t = Ok w"
    by (rule that [OF F1_Framer_state [OF assms(1)]])
  note start = f1_writer_start [OF assms(1) w]
  obtain w' where w': "writeEach (F1_Write bufferWrite) ds w = Some (Ok (), w')" "f1WGood (\<lambda>s. s) (\<lambda>_. True) w'"
    "f1Stream (\<lambda>s. s) w' = concat ds"
  proof -
    have "list_all (f1Fits (\<lambda>_. True)) ds"
      using assms(2) by (simp add: f1Fits_def list_all_iff)
    from f1buf.f1w.writeEach_sent [OF start(1) this] start(2) that show thesis
      by auto
  qed
  have plain: "f1Plain psk (f1_tx w') = Some (concat ds)"
    using w'(2,3) writeEach_psk [OF w'(1)] start(3) by (auto simp: f1WGood_def f1Good_def f1Stream_def)
  have "\<exists>r r'. F1_Framer segs cfg t' = Ok r \<and> readFull (F1_Read (readFull connRead)) n r = Some (fullSpec n (concat ds), r')"
    if "concat segs = f1_tx w'" for segs t' n
  proof -
    obtain r where r: "F1_Framer segs cfg t' = Ok r"
      by (rule that [OF F1_Framer_state [OF assms(1)]])
    have "f1Plain psk (concat segs) = Some (concat ds)"
      using plain that by simp
    note start = f1_reader_start [where content = concat and good = "\<lambda>_. True", OF assms(1) r this TrueI]
    from f1conn.f1.frames.full.rf_spec [OF start(1), of n] start(2) r show ?thesis
      unfolding F1_Read_def by auto
  qed
  with w w'(1) show ?thesis
    by blast
qed

text \<open>A frame whose header announces fewer than 16 bytes of ciphertext makes \<open>Read\<close> panic: the code
  slices the initialisation vector off without checking the length, and the header is not
  authenticated, so any peer that can send 10 bytes can do it.\<close>

theorem f1_short_frame_panics:
  assumes "keyOk (f1_psk f)" and "f1_lenBufRead f = 0" and "k < 16" and "length c = k"
    and "f1_tx f = [zeros 2 @ putUint32 (of_nat k) @ putUint32 p @ c]"
  shows "\<exists>f'. F1_Read (readFull connRead) n f = Some (Panic, f')"
proof -
  let ?h = "zeros 2 @ putUint32 (of_nat k) @ putUint32 p"
  obtain t1 where t1: "onTx (readFull connRead 10) f = Some (Ok ?h, f\<lparr>f1_tx := t1\<rparr>)" "concat t1 = c"
    by (rule conn.full.onTx_rf [of f ?h c 10]) (use assms(5) in auto)
  obtain t2 where "onTx (readFull connRead k) (f\<lparr>f1_tx := t1\<rparr>) = Some (Ok c, f\<lparr>f1_tx := t2\<rparr>)"
    by (rule conn.full.onTx_rf [of "f\<lparr>f1_tx := t1\<rparr>" c "[]" k]) (use t1 assms(4) in auto)
  with t1 show ?thesis
    using assms NewCipher_keyOk [OF assms(1)]
    by (simp add: F1_Read_def frameRead_def F1_nextChunk_def io_simps Let_def unat_of_nat32 Decrypt_def BlockSize_def)
qed

subsection \<open>Concrete configurations\<close>

text \<open>The pre-shared key of the tests (\<open>ws_test.go\<close>) with a fixed time.\<close>

definition sampleConf :: Values where
  "sampleConf = Set (Set Map.empty FRAMER_PSK ''XQhhqjIC5WOJtpKaXm40bQ=='') FRAMER_TIMESTAMP ''1700000000''"

lemma sampleConf_key: "framerKey sampleConf = Ok (case framerKey sampleConf of Ok k \<Rightarrow> k | _ \<Rightarrow> [])"
proof -
  have "Get sampleConf FRAMER_PSK = ''XQhhqjIC5WOJtpKaXm40bQ==''"
    by (simp add: sampleConf_def conf_names)
  moreover have "''XQhhqjIC5WOJtpKaXm40bQ=='' = b64encode [93, 8, 97, 170, 50, 2, 229, 99, 137, 182, 146, 154, 94, 110, 52, 109]"
    by (simp add: b64char_def char_of_def bit_0)
  ultimately show ?thesis
    by (simp only: framerKey_def Let_def b64decode_encode) (simp split: option.splits)
qed

theorem f1_stream_witness:
  "\<exists>w w'. F1_Framer [] sampleConf (\<lambda>_. 7) = Ok w \<and>
    writeEach (F1_Write bufferWrite) [bytes_of ''ab'', zeros 300, bytes_of ''c''] w = Some (Ok (), w') \<and>
    (\<forall>segs t' n. concat segs = f1_tx w' \<longrightarrow>
      (\<exists>r r'. F1_Framer segs sampleConf t' = Ok r \<and>
        readFull (F1_Read (readFull connRead)) n r = Some (fullSpec n (concat [bytes_of ''ab'', zeros 300, bytes_of ''c'']), r')))"
  by (rule f1_stream [OF sampleConf_key]) simp

theorem f1_short_frame_panics_witness:
  "\<exists>f'. F1_Read (readFull connRead) 100
     \<lparr>f1_tx = [zeros 2 @ putUint32 (of_nat 3) @ putUint32 2 @ [1, 2, 3]], f1_psk = zeros 16, f1_bufRead = [], f1_lenBufRead = 0,
      f1_rng = \<lambda>_. 0\<rparr> = Some (Panic, f')"
  by (rule f1_short_frame_panics [where k = 3 and c = "[1, 2, 3]" and p = 2]) (simp_all add: keyOk_def)

end
