(* ===== verification/Ws_Framer.thy ===== *)
theory Ws_Framer
  imports F1_Framer
begin

text \<open>
  The framer \<open>transport/framer/ws/ws.go\<close>: encrypted chunks as binary websocket frames, masked from
  client to server and not masked from server to client. Shown here: \<open>Ws.Read\<close> honours
  \<open>byte_source\<close> and \<open>Ws.Write\<close> honours \<open>byte_sink\<close>, for every size of chunk (the three length
  encodings), when the two ends have opposite roles.
\<close>

section \<open>The state\<close>

text \<open>\<open>Ws\<close> has the fields of \<open>F1\<close> and \<open>mask\<close>; \<open>SetPSK\<close>, \<open>appendBuf\<close> and the outline of \<open>Read\<close> are
  the same code (\<open>SetPSK\<close>, \<open>appendBuf\<close>, \<open>frameRead\<close>).\<close>

record 't Ws = "'t F1" +
  ws_mask :: bool

definition Ws_Encrypt :: "bytes \<Rightarrow> bytes \<Rightarrow> tape \<Rightarrow> bytes res \<times> tape" where
  "Ws_Encrypt key dat t = Encrypt key dat t"

definition Ws_Decrypt :: "bytes \<Rightarrow> bytes \<Rightarrow> bytes res" where
  "Ws_Decrypt key dat = Decrypt key dat"

section \<open>Read\<close>

text \<open>\<open>make([]byte, size)\<close> with \<open>size\<close> a 64-bit signed integer: a negative size, or one beyond the
  address space of the runtime (48 bits), panics.\<close>

definition maxAlloc :: int where
  "maxAlloc = 2 ^ 48"

definition Ws_readSize :: "'t reader \<Rightarrow> byte \<Rightarrow> (int, ('t, 'z) F1_scheme) io" where
  "Ws_readSize rf sizeBase =
     (if sizeBase < 126 then ret (uint sizeBase)
      else if sizeBase = 126 then bind (onTx (rf 2)) (\<lambda>sizeb. ret (uint (uint16 sizeb)))
      else bind (onTx (rf 8)) (\<lambda>sizeb. ret (sint (uint64 sizeb))))"

definition maskBytes :: "bytes \<Rightarrow> bytes \<Rightarrow> bytes" where
  "maskBytes mk d = map (\<lambda>i. d ! i XOR mk ! (i mod 4)) [0..<length d]"

definition Ws_nextChunk :: "'t reader \<Rightarrow> (bytes, 't Ws) io" where
  "Ws_nextChunk rf =
     bind (onTx (rf 2)) (\<lambda>header.
       let fin = 0 < header ! 0 AND 0x80;
           opCode = header ! 0 AND 0x0F
       in if \<not> fin \<or> opCode \<noteq> 2 then throw EOF
          else
            let masking = 0 < header ! 1 AND 0x80;
                sizeBase = header ! 1 AND 0x7F
            in bind (Ws_readSize rf sizeBase) (\<lambda>size f.
                 if masking = ws_mask f then throw (Errorf ''mask error in receiving frame.'') f
                 else
                   bind (if masking then onTx (rf 4) else ret []) (\<lambda>mk f.
                     if size < 0 \<or> maxAlloc < size then panic f
                     else
                       bind (onTx (rf (nat size))) (\<lambda>chunkEnc f.
                         lift (Ws_Decrypt (f1_psk f) (if 0 < length mk then maskBytes mk chunkEnc else chunkEnc)) f) f) f))"

definition Ws_Read :: "'t reader \<Rightarrow> 't Ws reader" where
  "Ws_Read rf = frameRead (Ws_nextChunk rf)"

section \<open>Write\<close>

text \<open>The header before the mask: FIN and the opcode 2, the mask bit, the size in 7 bits, or 16 bits
  after 126, or 64 bits after 127.\<close>

definition wsHeader :: "bool \<Rightarrow> nat \<Rightarrow> bytes" where
  "wsHeader m sz =
     (let bit7 = (if m then 0x80 else 0)
      in if sz \<le> 125 then [0x82, of_nat sz OR bit7]
         else if sz < 2 ^ 16 then [0x82, 126 OR bit7] @ putUint16 (of_nat sz)
         else [0x82, 127 OR bit7] @ putUint64 (of_nat sz))"

definition Ws_Write :: "'t writer \<Rightarrow> bytes \<Rightarrow> (nat, 't Ws) io" where
  "Ws_Write wr dat f =
     (let (r, t1) = Ws_Encrypt (f1_psk f) dat (f1_rng f)
      in case r of
           Err e \<Rightarrow> throw e (f\<lparr>f1_rng := t1\<rparr>)
         | Panic \<Rightarrow> panic (f\<lparr>f1_rng := t1\<rparr>)
         | Ok chunkEnc \<Rightarrow>
             (let header = wsHeader (ws_mask f) (length chunkEnc)
              in if ws_mask f
                 then (let mk = randBytes 4 t1
                       in onTx (wr (header @ mk @ maskBytes mk chunkEnc)) (f\<lparr>f1_rng := randSkip 4 t1\<rparr>))
                 else onTx (wr (header @ chunkEnc)) (f\<lparr>f1_rng := t1\<rparr>)))"

text \<open>\<open>Close\<close> closes the transport when it is an \<open>io.Closer\<close> (\<open>Some close\<close>).\<close>

definition Ws_Close :: "(unit, 't) io option \<Rightarrow> (unit, 't Ws) io" where
  "Ws_Close closer = (case closer of Some close \<Rightarrow> onTx close | None \<Rightarrow> ret ())"

definition Ws_Framer :: "'t \<Rightarrow> Values \<Rightarrow> tape \<Rightarrow> 't Ws res" where
  "Ws_Framer tx cfg t =
     (case framerKey cfg of
        Ok pskb \<Rightarrow>
          Ok \<lparr>f1_tx = tx, f1_psk = pskb, f1_bufRead = zeros DEFAULT_BUFFER_SIZE, f1_lenBufRead = 0, f1_rng = t,
              ws_mask = equalFold (Get cfg FRAMER_ROLE) ''client''\<rparr>
      | Err e \<Rightarrow> Err e
      | Panic \<Rightarrow> Panic)"

section \<open>Frames\<close>

lemma length_maskBytes [simp]: "length (maskBytes mk d) = length d"
  by (simp add: maskBytes_def)

lemma maskBytes_cancel [simp]: "maskBytes mk (maskBytes mk d) = d"
  by (rule nth_equalityI) (simp_all add: maskBytes_def xor.assoc)

text \<open>The plaintext that a sequence of bytes carries as frames, masked (\<open>m\<close>) or not, under a key.
  \<open>wsSplit\<close> takes the first frame apart: the payload and what follows.\<close>

definition wsSplit :: "bool \<Rightarrow> bytes \<Rightarrow> (bytes \<times> bytes) option" where
  "wsSplit m bs =
     (let sizeBase = bs ! 1 AND 0x7F;
          ext = (if sizeBase < 126 then 0 else if sizeBase = 126 then 2 else 8);
          size = (if sizeBase < 126 then unat sizeBase else ube (take ext (drop 2 bs)));
          mk = take (if m then 4 else 0) (drop (2 + ext) bs);
          body = drop (2 + ext + (if m then 4 else 0)) bs
      in if length bs < 2 + ext + (if m then 4 else 0) \<or> \<not> 0 < bs ! 0 AND 0x80 \<or> bs ! 0 AND 0x0F \<noteq> 2 \<or> (0 < bs ! 1 AND 0x80) \<noteq> m
           \<or> maxAlloc < int size \<or> length body < size then None
         else Some (if m then maskBytes mk (take size body) else take size body, drop size body))"

lemma wsSplit_shorter: "wsSplit m bs = Some (c, rest) \<Longrightarrow> length rest < length bs"
  by (auto simp: wsSplit_def Let_def split: if_splits)

function wsPlain :: "bool \<Rightarrow> bytes \<Rightarrow> bytes \<Rightarrow> bytes option" where
  "wsPlain m psk bs =
     (if bs = [] then Some []
      else case wsSplit m bs of
        None \<Rightarrow> None
      | Some (c, rest) \<Rightarrow>
          (case Decrypt psk c of
             Ok chunk \<Rightarrow> map_option (\<lambda>p. chunk @ p) (wsPlain m psk rest)
           | _ \<Rightarrow> None))"
  by pat_completeness auto
termination
  by (relation "measure (\<lambda>(m, psk, bs). length bs)") (auto dest: wsSplit_shorter)

declare wsPlain.simps [simp del]

lemma wsPlain_Nil [simp]: "wsPlain m psk [] = Some []"
  by (simp add: wsPlain.simps)

text \<open>One frame as \<open>Ws.Write\<close> builds it (no mask: \<open>mk = []\<close>).\<close>

definition wsFrame :: "bytes \<Rightarrow> bytes \<Rightarrow> bytes" where
  "wsFrame mk c = wsHeader (mk \<noteq> []) (length c) @ mk @ (if mk \<noteq> [] then maskBytes mk c else c)"

lemma wsHeader_bits:
  assumes "n \<le> 127"
  shows "(of_nat n OR 0x80 :: byte) AND 0x7F = of_nat n" and "(of_nat n OR 0x80 :: byte) AND 0x80 = 0x80"
    and "(of_nat n :: byte) AND 0x7F = of_nat n" and "(of_nat n :: byte) AND 0x80 = 0"
proof -
  have "list_all (\<lambda>n. (of_nat n OR 0x80 :: byte) AND 0x7F = of_nat n \<and> (of_nat n OR 0x80 :: byte) AND 0x80 = 0x80
      \<and> (of_nat n :: byte) AND 0x7F = of_nat n \<and> (of_nat n :: byte) AND 0x80 = 0) [0..<128]"
    by code_simp
  then show "(of_nat n OR 0x80 :: byte) AND 0x7F = of_nat n" "(of_nat n OR 0x80 :: byte) AND 0x80 = 0x80"
    "(of_nat n :: byte) AND 0x7F = of_nat n" "(of_nat n :: byte) AND 0x80 = 0"
    using assms by (auto simp: list_all_iff)
qed

lemma wsHeader_bits_num:
  "(126 OR 0x80 :: byte) AND 0x7F = 126" "(126 OR 0x80 :: byte) AND 0x80 = 0x80" "(126 :: byte) AND 0x7F = 126" "(126 :: byte) AND 0x80 = 0"
  "(127 OR 0x80 :: byte) AND 0x7F = 127" "(127 OR 0x80 :: byte) AND 0x80 = 0x80" "(127 :: byte) AND 0x7F = 127" "(127 :: byte) AND 0x80 = 0"
  using wsHeader_bits [of 126] wsHeader_bits [of 127] by simp_all

lemma wsSplit_frame:
  assumes "length mk = 4 \<or> mk = []" and "int (length c) \<le> maxAlloc"
  shows "wsSplit (mk \<noteq> []) (wsFrame mk c @ rest) = Some (c, rest)"
proof -
  have small: "ube (putUint16 (of_nat (length c))) = length c" if "length c < 65536"
    using that by (simp add: putUint16_def ube_be unat_of_nat)
  have large: "ube (putUint64 (of_nat (length c))) = length c"
    using assms(2) by (simp add: maxAlloc_def putUint64_def ube_be unat_of_nat)
  have byte: "(of_nat (length c) :: byte) < 126" "unat (of_nat (length c) :: byte) = length c" if "length c \<le> 125"
    using that by (simp_all add: word_less_nat_alt unat_of_nat)
  consider "length c \<le> 125" | "125 < length c" "length c < 65536" | "65536 \<le> length c"
    by linarith
  then show ?thesis
    using assms small large byte
    by cases (auto simp: wsSplit_def wsFrame_def wsHeader_def Let_def wsHeader_bits wsHeader_bits_num)
qed

lemma wsSplit_cases:
  assumes "wsSplit m bs = Some (c, rest)"
  obtains b0 b1 ext mk body where "bs = [b0, b1] @ ext @ mk @ body @ rest" and "0 < b0 AND 0x80" and "b0 AND 0x0F = 2"
    and "(0 < b1 AND 0x80) = m" and "length ext = (if b1 AND 0x7F < 126 then 0 else if b1 AND 0x7F = 126 then 2 else 8)"
    and "length mk = (if m then 4 else 0)" and "c = (if m then maskBytes mk body else body)"
    and "length body = (if b1 AND 0x7F < 126 then unat (b1 AND 0x7F) else ube ext)" and "int (length body) \<le> maxAlloc"
proof -
  define e where "e = (if bs ! 1 AND 0x7F < 126 then 0 else if bs ! 1 AND 0x7F = 126 then 2 else 8 :: nat)"
  define k where "k = (if m then 4 else 0 :: nat)"
  define sz where "sz = (if bs ! 1 AND 0x7F < 126 then unat (bs ! 1 AND 0x7F) else ube (take e (drop 2 bs)))"
  have split: "2 + e + k \<le> length bs" "0 < bs ! 0 AND 0x80" "bs ! 0 AND 0x0F = 2" "(0 < bs ! 1 AND 0x80) = m"
    "int sz \<le> maxAlloc" "sz \<le> length (drop (2 + e + k) bs)"
    "c = (if m then maskBytes (take k (drop (2 + e) bs)) (take sz (drop (2 + e + k) bs)) else take sz (drop (2 + e + k) bs))"
    "rest = drop sz (drop (2 + e + k) bs)"
    using assms unfolding wsSplit_def Let_def e_def [symmetric] k_def [symmetric] sz_def [symmetric]
    by (simp_all split: if_splits)
  obtain b0 b1 tl where tl: "bs = [b0, b1] @ tl"
    using split(1) by (metis append_Cons append_Nil list.size(3) add_leE length_Cons neq_Nil_conv not_less_eq_eq numeral_2_eq_2 zero_le)
  show thesis
  proof (rule that)
    show "bs = [b0, b1] @ take e tl @ take k (drop e tl) @ take sz (drop (e + k) tl) @ rest"
      using tl split(8) append_take_drop_id [of k "drop e tl"] append_take_drop_id [of sz "drop (e + k) tl"]
      by (simp add: add.commute)
  qed (use tl split in \<open>auto simp: e_def k_def sz_def\<close>)
qed

lemma wsPlain_cases:
  assumes "wsPlain m psk bs = Some p" and "bs \<noteq> []"
  obtains c rest chunk q where "wsSplit m bs = Some (c, rest)" and "Decrypt psk c = Ok chunk"
    and "wsPlain m psk rest = Some q" and "p = chunk @ q"
  using trans [OF wsPlain.simps [of m psk bs, symmetric] assms(1)] assms(2)
  by (auto split: option.splits res.splits)

lemma wsPlain_step:
  assumes "wsSplit m bs = Some (c, rest)" and "Decrypt psk c = Ok chunk"
  shows "wsPlain m psk bs = map_option (\<lambda>p. chunk @ p) (wsPlain m psk rest)"
  using assms wsSplit_shorter [OF assms(1)] by (subst wsPlain.simps) auto

lemma wsSplit_append:
  assumes "wsSplit m bs = Some (c, rest)"
  shows "wsSplit m (bs @ b) = Some (c, rest @ b)"
  using assms by (rule wsSplit_cases) (auto simp: wsSplit_def Let_def)

lemma wsPlain_append:
  "wsPlain m psk a = Some p \<Longrightarrow> wsPlain m psk (a @ b) = map_option (\<lambda>q. p @ q) (wsPlain m psk b)"
proof (induction m psk a arbitrary: p rule: wsPlain.induct)
  case (1 m psk a)
  show ?case
  proof (cases "a = []")
    case True
    with "1.prems" show ?thesis by (cases "wsPlain m psk b") auto
  next
    case False
    obtain c rest chunk q where a: "wsSplit m a = Some (c, rest)" "Decrypt psk c = Ok chunk"
      "wsPlain m psk rest = Some q" "p = chunk @ q"
      using wsPlain_cases [OF "1.prems" False] .
    have "wsPlain m psk (rest @ b) = map_option (\<lambda>r. q @ r) (wsPlain m psk b)"
      using "1.IH" [OF False a(1) refl a(2,3)] .
    with wsPlain_step [OF wsSplit_append [OF a(1), of b] a(2)] a(4) show ?thesis
      by (simp add: option.map_comp comp_def flip: append_assoc)
  qed
qed

section \<open>Ws over any full reader\<close>

definition wsGood :: "('s \<Rightarrow> bytes) \<Rightarrow> ('s \<Rightarrow> bool) \<Rightarrow> 's Ws \<Rightarrow> bool" where
  "wsGood content good f \<longleftrightarrow> good (f1_tx f) \<and> wsPlain (\<not> ws_mask f) (f1_psk f) (content (f1_tx f)) \<noteq> None"

definition wsStream :: "('s \<Rightarrow> bytes) \<Rightarrow> 's Ws \<Rightarrow> bytes" where
  "wsStream content f = the (wsPlain (\<not> ws_mask f) (f1_psk f) (content (f1_tx f)))"

lemma sint_uint64:
  assumes "int (ube b) \<le> maxAlloc"
  shows "sint (uint64 b) = int (ube b)"
  using assms by (simp add: uint64_def maxAlloc_def signed_of_nat signed_take_bit_int_eq_self)

lemma uint_uint16: "length b = 2 \<Longrightarrow> uint (uint16 b) = int (ube b)"
  using ube_less [of b] by (simp add: uint16_def unsigned_of_nat take_bit_nat_eq_self)

context full_reader
begin

lemma Ws_readSize_ok:
  assumes "good (f1_tx f)" and "content (f1_tx f) = ext @ rest"
    and "length ext = (if sb < 126 then 0 else if sb = 126 then 2 else 8)"
    and "n = (if sb < 126 then unat sb else ube ext)" and "int n \<le> maxAlloc"
  shows "\<exists>t. Ws_readSize rf sb f = Some (Ok (int n), f\<lparr>f1_tx := t\<rparr>) \<and> good t \<and> content t = rest"
proof (cases "sb < 126")
  case True
  with assms show ?thesis
    by (intro exI [of _ "f1_tx f"]) (simp add: Ws_readSize_def io_simps)
next
  case False
  obtain t where t: "onTx (rf (length ext)) f = Some (Ok ext, f\<lparr>f1_tx := t\<rparr>)" "good t" "content t = rest"
    using onTx_rf [OF assms(1,2) refl] .
  with False assms(3-5) show ?thesis
    by (intro exI [of _ t]) (auto simp: Ws_readSize_def io_simps uint_uint16 sint_uint64)
qed

lemma Ws_nextChunk_ok:
  assumes "wsGood content good f" and "content (f1_tx f) \<noteq> []"
  shows "\<exists>c f'. Ws_nextChunk rf f = Some (Ok c, f') \<and> wsGood content good f' \<and> wsStream content f = c @ wsStream content f'
    \<and> length (content (f1_tx f')) < length (content (f1_tx f))
    \<and> f1_bufRead f' = f1_bufRead f \<and> f1_lenBufRead f' = f1_lenBufRead f"
proof -
  let ?m = "\<not> ws_mask f"
  from assms(1) obtain p where p: "wsPlain ?m (f1_psk f) (content (f1_tx f)) = Some p" and g: "good (f1_tx f)"
    by (auto simp: wsGood_def)
  obtain c rest chunk q where s: "wsSplit ?m (content (f1_tx f)) = Some (c, rest)" "Decrypt (f1_psk f) c = Ok chunk"
    "wsPlain ?m (f1_psk f) rest = Some q" "p = chunk @ q"
    using wsPlain_cases [OF p assms(2)] .
  obtain b0 b1 ext mk body where h: "content (f1_tx f) = [b0, b1] @ ext @ mk @ body @ rest"
    "0 < b0 AND 0x80" "b0 AND 0x0F = 2" "(0 < b1 AND 0x80) = ?m"
    "length ext = (if b1 AND 0x7F < 126 then 0 else if b1 AND 0x7F = 126 then 2 else 8)"
    "length mk = (if ?m then 4 else 0)" "c = (if ?m then maskBytes mk body else body)"
    "length body = (if b1 AND 0x7F < 126 then unat (b1 AND 0x7F) else ube ext)" "int (length body) \<le> maxAlloc"
    using wsSplit_cases [OF s(1)] .
  obtain t1 where t1: "onTx (rf 2) f = Some (Ok [b0, b1], f\<lparr>f1_tx := t1\<rparr>)" "good t1" "content t1 = ext @ mk @ body @ rest"
    using onTx_rf [OF g h(1), of 2] by auto
  obtain t2 where t2: "Ws_readSize rf (b1 AND 0x7F) (f\<lparr>f1_tx := t1\<rparr>) = Some (Ok (int (length body)), f\<lparr>f1_tx := t2\<rparr>)"
    "good t2" "content t2 = mk @ body @ rest"
    using Ws_readSize_ok [of "f\<lparr>f1_tx := t1\<rparr>" ext "mk @ body @ rest" "b1 AND 0x7F", OF _ _ h(5,8,9)] t1 by auto
  have "\<exists>t. (if ?m then onTx (rf 4) else ret []) (f\<lparr>f1_tx := t2\<rparr>) = Some (Ok mk, f\<lparr>f1_tx := t\<rparr>)
    \<and> good t \<and> content t = body @ rest"
  proof (cases "ws_mask f")
    case True
    with h(6) t2 show ?thesis
      by (intro exI [of _ t2]) (simp add: io_simps)
  next
    case False
    obtain t where "onTx (rf 4) (f\<lparr>f1_tx := t2\<rparr>) = Some (Ok mk, f\<lparr>f1_tx := t\<rparr>)" "good t" "content t = body @ rest"
      using onTx_rf [of "f\<lparr>f1_tx := t2\<rparr>" mk "body @ rest" 4] False t2 h(6) by auto
    with False show ?thesis
      by (intro exI [of _ t]) simp
  qed
  then obtain t3 where t3: "(if ?m then onTx (rf 4) else ret []) (f\<lparr>f1_tx := t2\<rparr>) = Some (Ok mk, f\<lparr>f1_tx := t3\<rparr>)"
    "good t3" "content t3 = body @ rest"
    by blast
  obtain t4 where t4: "onTx (rf (length body)) (f\<lparr>f1_tx := t3\<rparr>) = Some (Ok body, f\<lparr>f1_tx := t4\<rparr>)"
    "good t4" "content t4 = rest"
    using onTx_rf [of "f\<lparr>f1_tx := t3\<rparr>" body rest "length body"] t3 by auto
  have unmask: "Decrypt (f1_psk f) (if 0 < length mk then maskBytes mk body else body) = Ok chunk"
    using h(6,7) s(2) by (auto split: if_splits)
  have "Ws_nextChunk rf f = Some (Ok chunk, f\<lparr>f1_tx := t4\<rparr>)"
    unfolding Ws_nextChunk_def using h(2-4,9) t1 t2 t3 t4 unmask by (simp add: io_simps Let_def Ws_Decrypt_def)
  then show ?thesis
    using p s h(1) t4 by (auto simp: wsGood_def wsStream_def)
qed

lemma Ws_nextChunk_eof:
  assumes "wsGood content good f" and "content (f1_tx f) = []"
  shows "\<exists>f'. Ws_nextChunk rf f = Some (Err EOF, f') \<and> wsGood content good f' \<and> wsStream content f' = []
    \<and> f1_bufRead f' = f1_bufRead f \<and> f1_lenBufRead f' = f1_lenBufRead f"
proof -
  obtain t where "rf 2 (f1_tx f) = Some (Err EOF, t)" "good t" "content t = []"
    using rf_eof [of "f1_tx f" 2] assms by (auto simp: wsGood_def)
  then show ?thesis
    by (auto simp: Ws_nextChunk_def io_simps onTx_def wsGood_def wsStream_def)
qed

end

locale ws_reader = full_reader

sublocale ws_reader \<subseteq> ws: chunk_source "Ws_nextChunk rf" "wsStream content" "wsGood content good"
    "\<lambda>f. length (content (f1_tx f))"
proof (unfold_locales, goal_cases)
  case (1 f g)
  from f1Unbuffered_eqD [OF this] have "f1_tx f = f1_tx g" "f1_psk f = f1_psk g" "ws_mask f = ws_mask g"
    by (cases f, cases g, simp)+
  then show ?case
    by (auto simp: wsGood_def wsStream_def)
next
  case (2 f)
  then have "content (f1_tx f) \<noteq> []"
    by (auto simp: wsStream_def)
  with 2 Ws_nextChunk_ok show ?case
    by blast
next
  case (3 f)
  with Ws_nextChunk_eof show ?case
    by simp
qed

text \<open>Writing: what \<open>Ws.Write\<close> sends is one frame, masked when the writer is the client.\<close>

lemma Ws_Write_frame:
  assumes "keyOk (f1_psk f)"
  obtains mk c t where "Ws_Write wr dat f = onTx (wr (wsFrame mk c)) (f\<lparr>f1_rng := t\<rparr>)"
    and "length mk = (if ws_mask f then 4 else 0)"
    and "Decrypt (f1_psk f) c = Ok dat" and "length c = 16 + length dat"
proof -
  obtain c where c: "Encrypt (f1_psk f) dat (f1_rng f) = (Ok c, randSkip BlockSize (f1_rng f))"
    "length c = BlockSize + length dat" "Decrypt (f1_psk f) c = Ok dat"
    using Encrypt_Ok [OF assms] .
  let ?t = "randSkip BlockSize (f1_rng f)"
  let ?mk = "if ws_mask f then randBytes 4 ?t else []"
  have "?mk \<noteq> [] \<longleftrightarrow> ws_mask f"
    by (auto simp: randBytes_def)
  with c show thesis
    by (intro that [of ?mk c "if ws_mask f then randSkip 4 ?t else ?t"])
      (auto simp: Ws_Write_def Ws_Encrypt_def wsFrame_def BlockSize_def Let_def)
qed

lemma length_wsFrame: "length (wsFrame mk c) \<le> 10 + length mk + length c"
  by (simp add: wsFrame_def wsHeader_def Let_def)

text \<open>The stream of the writer: its frames are masked exactly when it is the client.\<close>

definition wsWGood :: "('s \<Rightarrow> bytes) \<Rightarrow> ('s \<Rightarrow> bool) \<Rightarrow> 's Ws \<Rightarrow> bool" where
  "wsWGood sent wgood f \<longleftrightarrow>
     wgood (f1_tx f) \<and> keyOk (f1_psk f) \<and> wsPlain (ws_mask f) (f1_psk f) (sent (f1_tx f)) \<noteq> None"

definition wsSent :: "('s \<Rightarrow> bytes) \<Rightarrow> 's Ws \<Rightarrow> bytes" where
  "wsSent sent f = the (wsPlain (ws_mask f) (f1_psk f) (sent (f1_tx f)))"

definition wsFits :: "(bytes \<Rightarrow> bool) \<Rightarrow> bytes \<Rightarrow> bool" where
  "wsFits fits dat \<longleftrightarrow> int (length dat) + 16 \<le> maxAlloc \<and> (\<forall>e. length e \<le> length dat + 30 \<longrightarrow> fits e)"

context byte_sink
begin

lemma Ws_Write_sent:
  assumes "wsWGood sent wgood f" and "wsFits fits dat"
  shows "\<exists>n f'. Ws_Write wr dat f = Some (Ok n, f') \<and> wsWGood sent wgood f' \<and> wsSent sent f' = wsSent sent f @ dat"
proof -
  from assms(1) obtain p where g: "wgood (f1_tx f)" "keyOk (f1_psk f)"
    and p: "wsPlain (ws_mask f) (f1_psk f) (sent (f1_tx f)) = Some p"
    by (auto simp: wsWGood_def)
  obtain mk c t where w: "Ws_Write wr dat f = onTx (wr (wsFrame mk c)) (f\<lparr>f1_rng := t\<rparr>)"
    "length mk = (if ws_mask f then 4 else 0)" "Decrypt (f1_psk f) c = Ok dat" "length c = 16 + length dat"
    using Ws_Write_frame [OF g(2)] .
  have "length (wsFrame mk c) \<le> length dat + 30"
    using length_wsFrame [of mk c] w(2,4) by (simp split: if_splits)
  with assms(2) obtain n t' where "wr (wsFrame mk c) (f1_tx f) = Some (Ok n, t')" "wgood t'"
    "sent t' = sent (f1_tx f) @ wsFrame mk c"
    using wr_ok [OF g(1), of "wsFrame mk c"] by (auto simp: wsFits_def)
  moreover have "wsPlain (ws_mask f) (f1_psk f) (wsFrame mk c) = Some dat"
  proof -
    have "mk \<noteq> [] \<longleftrightarrow> ws_mask f"
      using w(2) by (auto split: if_splits)
    with wsSplit_frame [of mk c "[]"] w assms(2) have "wsSplit (ws_mask f) (wsFrame mk c) = Some (c, [])"
      by (auto simp: wsFits_def)
    from wsPlain_step [OF this w(3)] show ?thesis
      by simp
  qed
  then have "wsPlain (ws_mask f) (f1_psk f) (sent (f1_tx f) @ wsFrame mk c) = Some (p @ dat)"
    using wsPlain_append [OF p] by simp
  ultimately show ?thesis
    using w(1) g p by (auto simp: onTx_def wsWGood_def wsSent_def)
qed

end

locale ws_writer = byte_sink

sublocale ws_writer \<subseteq> wsw: byte_sink "Ws_Write wr" "wsSent sent" "wsWGood sent wgood" "wsFits fits"
  by unfold_locales (rule Ws_Write_sent)

interpretation wsconn: ws_reader "readFull connRead" concat "\<lambda>_. True" ..

interpretation wsbuf: ws_writer bufferWrite "\<lambda>s. s" "\<lambda>_. True" "\<lambda>_. True" ..

section \<open>Properties\<close>

lemma Ws_Framer_state:
  assumes "framerKey cfg = Ok psk"
  shows "Ws_Framer tx (Set cfg FRAMER_ROLE role) t =
    Ok \<lparr>f1_tx = tx, f1_psk = psk, f1_bufRead = zeros DEFAULT_BUFFER_SIZE, f1_lenBufRead = 0, f1_rng = t,
      ws_mask = equalFold role ''client''\<rparr>"
  using assms by (simp add: Ws_Framer_def framerKey_def conf_names)

lemma ws_writer_start:
  assumes "framerKey cfg = Ok psk" and "Ws_Framer [] (Set cfg FRAMER_ROLE role) t = Ok w"
  shows "wsWGood (\<lambda>s. s) (\<lambda>_. True) w" and "wsSent (\<lambda>s. s) w = []" and "f1_psk w = psk" and "ws_mask w = equalFold role ''client''"
  using assms framerKey_length [OF assms(1)]
  by (auto simp: Ws_Framer_state wsWGood_def wsSent_def keyOk_def)

lemma ws_reader_start:
  assumes "framerKey cfg = Ok psk" and "Ws_Framer tx (Set cfg FRAMER_ROLE role) t = Ok r"
    and "wsPlain (\<not> equalFold role ''client'') psk (content tx) = Some p" and "good tx"
  shows "f1BufOk r \<and> wsGood content good r" and "f1Buffered r @ wsStream content r = p"
  using assms by (auto simp: Ws_Framer_state f1BufOk_def wsGood_def f1Buffered_def wsStream_def)

lemma Ws_Write_keeps: "Ws_Write wr d f = Some (r, f') \<Longrightarrow> f1_psk f' = f1_psk f \<and> ws_mask f' = ws_mask f"
  by (auto simp: Ws_Write_def onTx_def throw_def panic_def Let_def split: prod.splits res.splits option.splits if_splits)

lemma ws_writeEach_keeps:
  "writeEach (Ws_Write wr) ds f = Some (Ok u, f') \<Longrightarrow> f1_psk f' = f1_psk f \<and> ws_mask f' = ws_mask f"
proof (induction ds arbitrary: f)
  case (Cons d ds)
  from Cons.prems obtain n g where "Ws_Write wr d f = Some (Ok n, g)" "writeEach (Ws_Write wr) ds g = Some (Ok u, f')"
    by (auto simp: bind_eq_Ok)
  with Cons.IH Ws_Write_keeps show ?case
    by metis
qed (simp add: ret_def)

text \<open>C9. A \<open>Ws\<close> is a byte stream in both directions. Chunks of any size written by one end (7, 16 or 64
  bit lengths), with either role, and carried by a connection to an end of the opposite role with
  the same key and timestamp are read as their concatenation: \<open>io.ReadFull\<close> for \<open>n\<close> bytes returns
  what it returns on that byte sequence, whatever the masks and the segments.\<close>

theorem ws_stream:
  assumes "framerKey cfg = Ok psk" and "list_all (\<lambda>d. length d < 2 ^ 47) ds"
    and "equalFold roleW ''client'' \<longleftrightarrow> \<not> equalFold roleR ''client''"
  shows "\<exists>w w'. Ws_Framer [] (Set cfg FRAMER_ROLE roleW) t = Ok w \<and> writeEach (Ws_Write bufferWrite) ds w = Some (Ok (), w') \<and>
    (\<forall>segs t' n. concat segs = f1_tx w' \<longrightarrow>
      (\<exists>r r'. Ws_Framer segs (Set cfg FRAMER_ROLE roleR) t' = Ok r \<and>
        readFull (Ws_Read (readFull connRead)) n r = Some (fullSpec n (concat ds), r')))"
proof -
  obtain w :: "bytes Ws" where w: "Ws_Framer [] (Set cfg FRAMER_ROLE roleW) t = Ok w"
    by (rule that [OF Ws_Framer_state [OF assms(1)]])
  note start = ws_writer_start [OF assms(1) w]
  have "list_all (wsFits (\<lambda>_. True)) ds"
    using assms(2) by (auto simp: wsFits_def list_all_iff maxAlloc_def)
  then obtain w' where w': "writeEach (Ws_Write bufferWrite) ds w = Some (Ok (), w')" "wsWGood (\<lambda>s. s) (\<lambda>_. True) w'"
    "wsSent (\<lambda>s. s) w' = concat ds"
    using wsbuf.wsw.writeEach_sent [OF start(1)] start(2) by auto
  have plain: "wsPlain (\<not> equalFold roleR ''client'') psk (f1_tx w') = Some (concat ds)"
    using w'(2,3) ws_writeEach_keeps [OF w'(1)] start(3,4) assms(3) by (auto simp: wsWGood_def wsSent_def)
  have "\<exists>r r'. Ws_Framer segs (Set cfg FRAMER_ROLE roleR) t' = Ok r \<and>
      readFull (Ws_Read (readFull connRead)) n r = Some (fullSpec n (concat ds), r')"
    if "concat segs = f1_tx w'" for segs t' n
  proof -
    obtain r where r: "Ws_Framer segs (Set cfg FRAMER_ROLE roleR) t' = Ok r"
      by (rule that [OF Ws_Framer_state [OF assms(1)]])
    have "wsPlain (\<not> equalFold roleR ''client'') psk (concat segs) = Some (concat ds)"
      using plain that by simp
    note start = ws_reader_start [where content = concat and good = "\<lambda>_. True", OF assms(1) r this TrueI]
    from wsconn.ws.frames.full.rf_spec [OF start(1), of n] start(2) r show ?thesis
      unfolding Ws_Read_def by auto
  qed
  with w w'(1) show ?thesis
    by blast
qed

theorem ws_stream_witness:
  "\<exists>w w'. Ws_Framer [] (Set sampleConf FRAMER_ROLE ''client'') (\<lambda>_. 9) = Ok w \<and>
    writeEach (Ws_Write bufferWrite) [zeros 75, zeros 374, zeros 262145] w = Some (Ok (), w') \<and>
    (\<forall>segs t' n. concat segs = f1_tx w' \<longrightarrow>
      (\<exists>r r'. Ws_Framer segs (Set sampleConf FRAMER_ROLE ''server'') t' = Ok r \<and>
        readFull (Ws_Read (readFull connRead)) n r = Some (fullSpec n (concat [zeros 75, zeros 374, zeros 262145]), r')))"
  by (rule ws_stream [OF sampleConf_key])
    (simp_all add: equalFold_def foldName_ascii toUpperChar_def)

text \<open>The roles protect the direction: a frame from a peer of the same role, and therefore with the
  wrong mask bit, is refused with the mask error before any payload is read.\<close>

theorem ws_mask_error:
  assumes "f1_lenBufRead f = 0" and "b0 = 0x82" and "b1 AND 0x7F < 126" and "(0 < b1 AND 0x80) = ws_mask f"
    and "f1_tx f = [b0, b1] # segs"
  shows "Ws_Read (readFull connRead) n f =
    Some (Err (Errorf ''mask error in receiving frame.''), f\<lparr>f1_tx := segs\<rparr>)"
proof -
  have "readFull connRead 2 (f1_tx f) = Some (Ok [b0, b1], segs)"
    unfolding readFull_def by (subst readLoop.simps, subst readLoop.simps) (simp add: assms(5))
  then show ?thesis
    using assms by (simp add: Ws_Read_def frameRead_def Ws_nextChunk_def io_simps onTx_def Ws_readSize_def Let_def)
qed

theorem ws_mask_error_witness:
  "Ws_Read (readFull connRead) 10
     \<lparr>f1_tx = [[0x82, 0x85], [1, 2]], f1_psk = zeros 16, f1_bufRead = [], f1_lenBufRead = 0, f1_rng = \<lambda>_. 0, ws_mask = True\<rparr> =
   Some (Err (Errorf ''mask error in receiving frame.''),
     \<lparr>f1_tx = [[1, 2]], f1_psk = zeros 16, f1_bufRead = [], f1_lenBufRead = 0, f1_rng = \<lambda>_. 0, ws_mask = True\<rparr>)"
  by (subst ws_mask_error [where segs = "[[1, 2]]"]) simp_all

end
