(* ===== verification/F1g_Framer.thy ===== *)
theory F1g_Framer
  imports F1_Framer
begin

text \<open>
  The framer \<open>transport/framer/f1g/f1g.go\<close>: an \<open>F1\<close> that starts with a handshake in which the server
  sends a fresh session key under the pre-shared key. Shown here: after the handshakes both ends hold
  the same key, whatever the network does to the segments, and what the server writes afterwards is
  what the client reads.
\<close>

text \<open>The field \<open>tx\<close> is set once, by \<open>Framer\<close>, to the \<open>F1\<close> it builds: the type assertion of
  \<open>handshake\<close> holds by the type of \<open>g_tx\<close>.\<close>

record 't F1g =
  g_role :: string
  g_tx :: "'t F1"
  g_eof :: bool

definition F1g_isEOF :: "'t F1g \<Rightarrow> bool" where
  "F1g_isEOF f = g_eof f"

definition onF1 :: "('a, 't F1) io \<Rightarrow> ('a, 't F1g) io" where
  "onF1 m f = (case m (g_tx f) of None \<Rightarrow> None | Some (r, tx) \<Rightarrow> Some (r, f\<lparr>g_tx := tx\<rparr>))"

text \<open>The random bytes come from the tape of the \<open>F1\<close>. An error is logged and turned into the end of the
  stream; a panic of the \<open>F1\<close> goes on.\<close>

definition F1g_handshake :: "'t writer \<Rightarrow> 't reader \<Rightarrow> (unit, 't F1g) io" where
  "F1g_handshake wr rf f =
     (let lenKey = KeySize
      in if equalFold (g_role f) ''server'' then
           (let (key, t1) = NewKey (f1_rng (g_tx f));
                chunk = copyAt lenKey key (randBytes (lenKey * 2) t1);
                f1 = f\<lparr>g_tx := (g_tx f)\<lparr>f1_rng := randSkip (lenKey * 2) t1\<rparr>\<rparr>
            in case onF1 (F1_Write wr chunk) f1 of
                 None \<Rightarrow> None
               | Some (Err e, f2) \<Rightarrow> Some (Ok (), f2\<lparr>g_eof := True\<rparr>)
               | Some (Panic, f2) \<Rightarrow> Some (Panic, f2)
               | Some (Ok n, f2) \<Rightarrow> Some (Ok (), f2\<lparr>g_tx := SetPSK key (g_tx f2)\<rparr>))
         else
           (case onF1 (readFull (F1_Read rf) (lenKey * 2)) f of
              None \<Rightarrow> None
            | Some (Err e, f2) \<Rightarrow> Some (Ok (), f2\<lparr>g_eof := True\<rparr>)
            | Some (Panic, f2) \<Rightarrow> Some (Panic, f2)
            | Some (Ok chunk, f2) \<Rightarrow> Some (Ok (), f2\<lparr>g_tx := SetPSK (drop lenKey chunk) (g_tx f2)\<rparr>)))"

definition F1g_Read :: "'t reader \<Rightarrow> 't F1g reader" where
  "F1g_Read rf n f = (if F1g_isEOF f then throw EOF f else onF1 (F1_Read rf n) f)"

definition F1g_Write :: "'t writer \<Rightarrow> 't F1g writer" where
  "F1g_Write wr dat f = (if F1g_isEOF f then throw EOF f else onF1 (F1_Write wr dat) f)"

definition F1g_Close :: "('a, 't) io \<Rightarrow> ('a, 't F1g) io" where
  "F1g_Close close = onF1 (F1_Close close)"

definition F1g_Framer :: "'t writer \<Rightarrow> 't reader \<Rightarrow> 't \<Rightarrow> Values \<Rightarrow> tape \<Rightarrow> ('t F1g) res option" where
  "F1g_Framer wr rf tx cfg t =
     (case F1_Framer tx cfg t of
        Ok txF1 \<Rightarrow>
          (case F1g_handshake wr rf \<lparr>g_role = Get cfg FRAMER_ROLE, g_tx = txF1, g_eof = False\<rparr> of
             None \<Rightarrow> None
           | Some (Ok u, f) \<Rightarrow> Some (Ok f)
           | Some (Err e, f) \<Rightarrow> Some (Err e)
           | Some (Panic, f) \<Rightarrow> Some Panic)
      | Err e \<Rightarrow> Some (Err e)
      | Panic \<Rightarrow> Some Panic)"

section \<open>Both ends agree on the key\<close>

lemma F1g_server:
  assumes "equalFold (g_role f) ''server''" and "keyOk (f1_psk (g_tx f))"
  obtains key pad nonce c f' where
    "F1g_handshake bufferWrite rf f = Some (Ok (), f')" and "length key = 16" and "length nonce = 16"
    and "Decrypt (f1_psk (g_tx f)) c = Ok ((nonce @ key) @ pad)" and "length pad < 256" and "length c < 1000"
    and "f1_tx (g_tx f') = f1_tx (g_tx f) @ f1Frame (length pad) c" and "f1_psk (g_tx f') = key" and "g_eof f' = g_eof f"
proof -
  obtain key t1 where k: "NewKey (f1_rng (g_tx f)) = (key, t1)" and len: "length key = 16"
    by (simp add: NewKey_def BlockSize_def)
  let ?nonce = "take 16 (randBytes 32 t1)"
  have chunk: "copyAt KeySize key (randBytes (KeySize * 2) t1) = ?nonce @ key"
    using len by (simp add: KeySize_def BlockSize_def copyAt_def gocopy_def)
  let ?tx = "(g_tx f)\<lparr>f1_rng := randSkip (KeySize * 2) t1\<rparr>"
  obtain pad c t where w: "F1_Write bufferWrite (?nonce @ key) ?tx = onTx (bufferWrite (f1Frame (length pad) c)) (?tx\<lparr>f1_rng := t\<rparr>)"
    "Decrypt (f1_psk (g_tx f)) c = Ok ((?nonce @ key) @ pad)" "length c = 16 + length (?nonce @ key) + length pad" "length pad < 256"
  proof (rule F1_Write_frame [of ?tx bufferWrite "?nonce @ key"])
    show "keyOk (f1_psk ?tx)"
      using assms(2) by simp
  qed simp
  show thesis
    by (rule that [of "f\<lparr>g_tx := ?tx\<lparr>f1_rng := t, f1_tx := f1_tx (g_tx f) @ f1Frame (length pad) c, f1_psk := key\<rparr>\<rparr>" key ?nonce c pad])
      (use assms k len w in \<open>simp_all add: F1g_handshake_def chunk onF1_def onTx_def bufferWrite_def SetPSK_def Let_def\<close>)
qed

context full_reader
begin

lemma F1g_client:
  assumes "\<not> equalFold (g_role f) ''server''" and "f1_lenBufRead (g_tx f) = 0" and "good (f1_tx (g_tx f))"
    and "content (f1_tx (g_tx f)) = f1Frame (length pad) c @ rest"
    and "Decrypt (f1_psk (g_tx f)) c = Ok ((nonce @ key) @ pad)" and "length pad < 256" and "length c < 1000"
    and "length key = 16" and "length nonce = 16"
  obtains t where "F1g_handshake wr rf f = Some (Ok (), f\<lparr>g_tx := (g_tx f)\<lparr>f1_tx := t, f1_psk := key\<rparr>\<rparr>)"
    and "good t" and "content t = rest"
proof -
  obtain t where t: "F1_Read rf 32 (g_tx f) = Some (Ok (nonce @ key), (g_tx f)\<lparr>f1_tx := t\<rparr>)" "good t" "content t = rest"
    using F1_Read_frame [OF assms(3-5), of 32] assms(2,6-) by auto
  have "readFull (F1_Read rf) 32 (g_tx f) = Some (Ok (nonce @ key), (g_tx f)\<lparr>f1_tx := t\<rparr>)"
    unfolding readFull_def by (subst readLoop.simps, subst readLoop.simps) (use t assms in simp)
  then show thesis
    using assms t by (intro that [of t]) (simp_all add: F1g_handshake_def onF1_def KeySize_def BlockSize_def SetPSK_def Let_def)
qed

end

lemma role_fold: "\<not> equalFold ''client'' ''server''" "equalFold ''server'' ''server''"
  by (simp_all add: equalFold_def foldName_ascii toUpperChar_def)

text \<open>The framer before its handshake.\<close>

definition f1gStart :: "bytes \<Rightarrow> string \<Rightarrow> 't \<Rightarrow> tape \<Rightarrow> 't F1g" where
  "f1gStart psk r tx t =
     \<lparr>g_role = r, g_tx = \<lparr>f1_tx = tx, f1_psk = psk, f1_bufRead = zeros DEFAULT_BUFFER_SIZE, f1_lenBufRead = 0, f1_rng = t\<rparr>,
      g_eof = False\<rparr>"

lemma F1g_Framer_start:
  assumes "framerKey cfg = Ok psk" and "F1g_handshake wr rf (f1gStart psk r tx t) = Some (Ok (), f)"
  shows "F1g_Framer wr rf tx (Set cfg FRAMER_ROLE r) t = Some (Ok f)"
  using assms by (simp add: F1g_Framer_def F1_Framer_def f1gStart_def framerKey_def conf_names)

text \<open>Key agreement of \<open>f1g\<close>. A server and a client framer made from the same configuration, apart
  from the role: the server's handshake returns; whatever the segments in which its bytes (and
  anything that follows them) reach the client, the client's handshake returns, takes exactly the
  server's frame from the connection, and both hold the same 16 byte session key.\<close>

theorem f1g_key_agreement:
  assumes "framerKey cfg = Ok psk"
  shows "\<exists>s. F1g_Framer bufferWrite rf [] (Set cfg FRAMER_ROLE ''server'') t = Some (Ok s)
    \<and> length (f1_psk (g_tx s)) = 16 \<and> \<not> F1g_isEOF s
    \<and> (\<forall>segs later t'. concat segs = f1_tx (g_tx s) @ later \<longrightarrow>
        (\<exists>c. F1g_Framer wr (readFull connRead) segs (Set (Clone cfg) FRAMER_ROLE ''client'') t' = Some (Ok c)
          \<and> f1_psk (g_tx c) = f1_psk (g_tx s) \<and> concat (f1_tx (g_tx c)) = later \<and> \<not> F1g_isEOF c))"
proof -
  have ok: "keyOk psk"
    using framerKey_length [OF assms] by (simp add: keyOk_def)
  have clone: "framerKey (Clone cfg) = Ok psk"
    using assms by (simp add: framerKey_def)
  obtain s key nonce c pad where s: "F1g_handshake bufferWrite rf (f1gStart psk ''server'' [] t) = Some (Ok (), s)"
    and c: "length key = 16" "length nonce = 16" "Decrypt psk c = Ok ((nonce @ key) @ pad)" "length pad < 256" "length c < 1000"
    and s': "f1_tx (g_tx s) = f1Frame (length pad) c" "f1_psk (g_tx s) = key" "\<not> g_eof s"
    by (rule F1g_server [of "f1gStart psk ''server'' [] t" rf])
      (use ok role_fold in \<open>auto simp: f1gStart_def\<close>)
  have client: "\<exists>f. F1g_Framer wr (readFull connRead) segs (Set (Clone cfg) FRAMER_ROLE ''client'') t' = Some (Ok f)
      \<and> f1_psk (g_tx f) = key \<and> concat (f1_tx (g_tx f)) = later \<and> \<not> F1g_isEOF f"
    if segs: "concat segs = f1Frame (length pad) c @ later" for segs later t'
  proof -
    obtain u where u: "F1g_handshake wr (readFull connRead) (f1gStart psk ''client'' segs t') = Some (Ok (),
        (f1gStart psk ''client'' segs t')\<lparr>g_tx := (g_tx (f1gStart psk ''client'' segs t'))\<lparr>f1_tx := u, f1_psk := key\<rparr>\<rparr>)"
      "concat u = later"
      by (rule conn.full.F1g_client [of "f1gStart psk ''client'' segs t'" pad c later nonce key wr])
        (use segs c role_fold in \<open>auto simp: f1gStart_def\<close>)
    then show ?thesis
      using F1g_Framer_start [OF clone u(1)] by (simp add: f1gStart_def F1g_isEOF_def)
  qed
  show ?thesis
    using F1g_Framer_start [OF assms s] s' c(1) client by (intro exI [of _ s]) (simp add: F1g_isEOF_def)
qed

theorem f1g_key_agreement_witness:
  "\<exists>s. F1g_Framer bufferWrite (readFull bytesReader) [] (Set sampleConf FRAMER_ROLE ''server'') (\<lambda>_. 3) = Some (Ok s)
    \<and> length (f1_psk (g_tx s)) = 16 \<and> \<not> F1g_isEOF s
    \<and> (\<forall>segs later t'. concat segs = f1_tx (g_tx s) @ later \<longrightarrow>
        (\<exists>c. F1g_Framer (\<lambda>d. ret (length d)) (readFull connRead) segs (Set (Clone sampleConf) FRAMER_ROLE ''client'') t' = Some (Ok c)
          \<and> f1_psk (g_tx c) = f1_psk (g_tx s) \<and> concat (f1_tx (g_tx c)) = later \<and> \<not> F1g_isEOF c))"
  by (rule f1g_key_agreement [OF sampleConf_key])

end
