(* ===== verification/Cipher_Test.thy ===== *)
theory Cipher_Test
  imports Cipher
begin

text \<open>
  A known answer for the model of \<open>crypto/aes\<close>: the test vector of FIPS 197, appendix C.1, computed
  in the kernel.
\<close>

lemma aes_fips197_c1:
  "aesBlock (map of_nat [0..<16]) (map (\<lambda>i. of_nat (17 * i)) [0..<16]) =
    [0x69, 0xC4, 0xE0, 0xD8, 0x6A, 0x7B, 0x04, 0x30, 0xD8, 0xCD, 0xB7, 0x80, 0x70, 0xB4, 0xC5, 0x5A]"
  by code_simp

end
