(* ===== verification/Packet.thy ===== *)
theory Packet
  imports Go_Json
begin

text \<open>
  The packets of \<open>transport/h1pool/packet.go\<close>, which multiplex the connections of a pool over one
  transport. Shown here: \<open>writePacket\<close> cuts the data into pieces of at most \<open>MAX_PACKET_SIZE\<close> and
  sends one packet per piece, and reading them gives the pieces back in order; \<open>readPacket\<close> returns on
  every input, does not panic, and never accepts more than the limits; control packets do not carry
  the client id.
\<close>

section \<open>Data\<close>

definition magic :: bytes where
  "magic = [byte_of_char CHR ''C'', byte_of_char CHR ''P'', 0]"

definition MAX_PACKET_SIZE :: nat where "MAX_PACKET_SIZE = 1024 * 128"
definition MAX_META_SIZE :: nat where "MAX_META_SIZE = 1024"

definition OP_DATA :: byte where "OP_DATA = 0"
definition OP_PING :: byte where "OP_PING = 8"
definition OP_PONG :: byte where "OP_PONG = 9"
definition OP_EOS :: byte where "OP_EOS = 10"

lemmas OP_defs = OP_DATA_def OP_PING_def OP_PONG_def OP_EOS_def

record Packet =
  pk_ClientId :: string
  pk_Serial :: "32 word"
  pk_Op :: byte
  pk_Data :: bytes

definition validOp :: "byte \<Rightarrow> bool" where
  "validOp op \<longleftrightarrow> op = OP_DATA \<or> op = OP_PING \<or> op = OP_PONG \<or> op = OP_EOS"

section \<open>Reading\<close>

text \<open>\<open>json.Unmarshal(metab, p)\<close>: only \<open>ClientId\<close> has a JSON name, and it is empty before.\<close>

definition unmarshalPacket :: "bytes \<Rightarrow> string option" where
  "unmarshalPacket metab =
     map_option (\<lambda>f. jstring f ''client_id'' []) (junmarshal [(''client_id'', KString)] (string_of metab))"

definition readMeta :: "'s reader \<Rightarrow> nat \<Rightarrow> (string, 's) io" where
  "readMeta rf sizeMeta =
     (if 0 < sizeMeta
      then bind (rf sizeMeta) (\<lambda>metab.
             case unmarshalPacket metab of
               None \<Rightarrow> throw (Errorf ''json.Unmarshal'')
             | Some cid \<Rightarrow> ret cid)
      else ret [])"

definition readDat :: "'s reader \<Rightarrow> nat \<Rightarrow> (bytes, 's) io" where
  "readDat rf sizeDat = (if 0 < sizeDat then rf sizeDat else ret [])"

definition readAnyPacket :: "'s reader \<Rightarrow> (Packet, 's) io" where
  "readAnyPacket rf =
     bind (rf 16) (\<lambda>head.
       if magic \<noteq> take 3 head then throw (Errorf ''illegal packet header.'')
       else
         let op = head ! 3;
             serial = uint32 (take 4 (drop 4 head));
             sizeMeta = unat (uint32 (take 4 (drop 8 head)));
             sizeDat = unat (uint32 (take 4 (drop 12 head)))
         in if \<not> validOp op then throw (Errorf ''Invalid op.'')
            else if MAX_META_SIZE < sizeMeta then throw (Errorf ''Meta size too large.'')
            else if MAX_PACKET_SIZE < sizeDat then throw (Errorf ''Packet data size too large.'')
            else
              bind (readMeta rf sizeMeta) (\<lambda>cid.
              bind (readDat rf sizeDat) (\<lambda>dat.
              ret \<lparr>pk_ClientId = cid, pk_Serial = serial, pk_Op = op, pk_Data = dat\<rparr>)))"

text \<open>The loop of \<open>readPacket\<close> returns in its first iteration on both branches.\<close>

definition readPacket :: "'s reader \<Rightarrow> (Packet, 's) io" where
  "readPacket rf = readAnyPacket rf"

section \<open>Writing\<close>

definition marshalPacket :: "Packet \<Rightarrow> bytes" where
  "marshalPacket p = bytes_of (jmarshal [(''client_id'', JStr (pk_ClientId p))])"

definition packetMeta :: "Packet \<Rightarrow> bytes" where
  "packetMeta p = (if pk_Op p = OP_DATA then marshalPacket p else [])"

definition packetHead :: "Packet \<Rightarrow> nat \<Rightarrow> nat \<Rightarrow> bytes" where
  "packetHead p lenMeta lenDat =
     magic @ [pk_Op p] @ putUint32 (pk_Serial p) @ putUint32 (of_nat lenMeta) @ putUint32 (of_nat lenDat)"

function writeLoop :: "'s writer \<Rightarrow> Packet \<Rightarrow> bytes \<Rightarrow> nat \<Rightarrow> (unit, 's) io" where
  "writeLoop wr p metab start =
     (let sizeDat = min (length (pk_Data p) - start) MAX_PACKET_SIZE;
          dat = take sizeDat (drop start (pk_Data p))
      in bind (wr (packetHead p (length metab) (length dat))) (\<lambda>_.
         bind (wr metab) (\<lambda>_.
         bind (wr dat) (\<lambda>_.
           if length (pk_Data p) \<le> start + sizeDat then ret ()
           else writeLoop wr p metab (start + sizeDat)))))"
  by pat_completeness auto
termination
  by (relation "measure (\<lambda>(wr, p, metab, start). length (pk_Data p) - start)")
    (auto simp: MAX_PACKET_SIZE_def min_def split: if_splits)

declare writeLoop.simps [simp del]

definition writePacket :: "'s writer \<Rightarrow> Packet \<Rightarrow> (unit, 's) io" where
  "writePacket wr p = writeLoop wr p (packetMeta p) 0"

section \<open>The reference encoding\<close>

text \<open>The pieces of the data (at least one, possibly empty), and the bytes of a packet that fits.\<close>

function pieces :: "bytes \<Rightarrow> bytes list" where
  "pieces d = (if length d \<le> MAX_PACKET_SIZE then [d] else take MAX_PACKET_SIZE d # pieces (drop MAX_PACKET_SIZE d))"
  by pat_completeness auto
termination
  by (relation "measure length") (auto simp: MAX_PACKET_SIZE_def)

declare pieces.simps [simp del]

definition packetBytes :: "Packet \<Rightarrow> bytes \<Rightarrow> bytes" where
  "packetBytes p d = packetHead p (length (packetMeta p)) (length d) @ packetMeta p @ d"

text \<open>What the other side sees of a packet: the client id of a data packet only.\<close>

definition received :: "Packet \<Rightarrow> bytes \<Rightarrow> Packet" where
  "received p d = p\<lparr>pk_ClientId := (if pk_Op p = OP_DATA then pk_ClientId p else []), pk_Data := d\<rparr>"


lemma length_pieces: "x \<in> set (pieces d) \<Longrightarrow> length x \<le> MAX_PACKET_SIZE"
proof (induction d rule: pieces.induct)
  case (1 d)
  from "1.prems" "1.IH" show ?case
    by (subst (asm) pieces.simps) (auto split: if_splits)
qed

lemma length_packetHead [simp]: "length (packetHead p m d) = 16"
  by (simp add: packetHead_def magic_def)

text \<open>A sink that is a plain buffer: what the loop appends.\<close>

context byte_sink
begin

lemma writeLoop_sent:
  assumes "wgood s" and "\<And>d. length d \<le> length (pk_Data p) + length metab + 16 \<Longrightarrow> fits d"
    and "metab = packetMeta p"
  shows "\<exists>s'. writeLoop wr p metab start s = Some (Ok (), s') \<and> wgood s' \<and>
    sent s' = sent s @ concat (map (packetBytes p) (pieces (drop start (pk_Data p))))"
  using assms(1)
proof (induction "length (pk_Data p) - start" arbitrary: start s rule: less_induct)
  case less
  define rest where "rest = drop start (pk_Data p)"
  define dat where "dat = take MAX_PACKET_SIZE rest"
  define sizeDat where "sizeDat = min (length (pk_Data p) - start) MAX_PACKET_SIZE"
  let ?h = "packetHead p (length metab) (length dat)"
  have dat: "take sizeDat (drop start (pk_Data p)) = dat"
    by (simp add: sizeDat_def dat_def rest_def min_def)
  have fit: "fits ?h" "fits metab" "fits dat"
    by (auto intro!: assms(2) simp: dat_def rest_def)
  obtain n1 s1 where s1: "wr ?h s = Some (Ok n1, s1)" "wgood s1" "sent s1 = sent s @ ?h"
    using wr_ok [OF less.prems fit(1)] .
  obtain n2 s2 where s2: "wr metab s1 = Some (Ok n2, s2)" "wgood s2" "sent s2 = sent s1 @ metab"
    using wr_ok [OF s1(2) fit(2)] .
  obtain n3 s3 where s3: "wr dat s2 = Some (Ok n3, s3)" "wgood s3" "sent s3 = sent s2 @ dat"
    using wr_ok [OF s2(2) fit(3)] .
  have sent3: "sent s3 = sent s @ packetBytes p dat"
    using s1 s2 s3 assms(3) by (simp add: packetBytes_def)
  have loop: "writeLoop wr p metab start s =
      (if length (pk_Data p) \<le> start + sizeDat then ret () else writeLoop wr p metab (start + sizeDat)) s3"
    by (subst writeLoop.simps, simp only: Let_def sizeDat_def [symmetric] dat)
      (rule bind_OkI, rule s1, rule bind_OkI, rule s2, rule bind_OkI, rule s3, rule refl)
  show ?case
  proof (cases "length rest \<le> MAX_PACKET_SIZE")
    case True
    then have "length (pk_Data p) \<le> start + sizeDat" "pieces rest = [dat]"
      by (auto simp: rest_def sizeDat_def dat_def pieces.simps)
    with loop sent3 s3(2) show ?thesis
      by (simp add: io_simps rest_def)
  next
    case False
    then have more: "\<not> length (pk_Data p) \<le> start + sizeDat" "drop (start + sizeDat) (pk_Data p) = drop MAX_PACKET_SIZE rest"
      "pieces rest = dat # pieces (drop MAX_PACKET_SIZE rest)"
      by (auto simp: rest_def sizeDat_def dat_def add.commute pieces.simps [of "drop start (pk_Data p)"])
    have "length (pk_Data p) - (start + sizeDat) < length (pk_Data p) - start"
      using False by (simp add: rest_def sizeDat_def MAX_PACKET_SIZE_def)
    from less.hyps [OF this s3(2)] more loop sent3 show ?thesis
      by (auto simp: rest_def)
  qed
qed

lemma writePacket_sent:
  assumes "wgood s" and "\<And>d. length d \<le> length (pk_Data p) + length (packetMeta p) + 16 \<Longrightarrow> fits d"
  shows "\<exists>s'. writePacket wr p s = Some (Ok (), s') \<and> wgood s' \<and>
    sent s' = sent s @ concat (map (packetBytes p) (pieces (pk_Data p)))"
  using writeLoop_sent [where start = 0, OF assms refl] by (simp add: writePacket_def)

end

section \<open>Reading back\<close>

text \<open>A packet that \<open>readPacket\<close> accepts: a known operation, and a client id that is UTF-8 and short
  enough for the meta data.\<close>

definition packetOk :: "Packet \<Rightarrow> bool" where
  "packetOk p \<longleftrightarrow> validOp (pk_Op p) \<and> validUTF8 (pk_ClientId p) \<and> length (packetMeta p) \<le> MAX_META_SIZE"

lemma unmarshalPacket_marshal: "validUTF8 (pk_ClientId p) \<Longrightarrow> unmarshalPacket (marshalPacket p) = Some (pk_ClientId p)"
  unfolding unmarshalPacket_def marshalPacket_def
  by (subst string_of_bytes_of, subst junmarshal_jmarshal) (auto simp: jplain_def jfits_def jstring_def validUTF8.simps runeLen_def)

lemma marshalPacket_nonempty: "marshalPacket p \<noteq> []"
  by (simp add: marshalPacket_def jmarshal_def bytes_of_def)

context full_reader
begin

lemma readPacket_packetBytes:
  assumes "good s" and "content s = packetBytes p d @ rest" and "packetOk p" and "length d \<le> MAX_PACKET_SIZE"
  shows "\<exists>s'. readPacket rf s = Some (Ok (received p d), s') \<and> good s' \<and> content s' = rest"
proof -
  let ?m = "packetMeta p"
  let ?h = "packetHead p (length ?m) (length d)"
  have small: "unat (of_nat (length ?m) :: 32 word) = length ?m" "unat (of_nat (length d) :: 32 word) = length d"
    using assms(3,4) by (simp_all add: unat_of_nat32 packetOk_def MAX_META_SIZE_def MAX_PACKET_SIZE_def)
  have head: "take 3 ?h = magic" "?h ! 3 = pk_Op p" "take 4 (drop 4 ?h) = putUint32 (pk_Serial p)"
    "take 4 (drop 8 ?h) = putUint32 (of_nat (length ?m))" "take 4 (drop 12 ?h) = putUint32 (of_nat (length d))"
    by (simp_all add: packetHead_def magic_def nth_append)
  obtain s1 where s1: "rf 16 s = Some (Ok ?h, s1)" "good s1" "content s1 = ?m @ d @ rest"
    by (rule rf_append [OF assms(1), of ?h "?m @ d @ rest" 16]) (use assms(2) in \<open>auto simp: packetBytes_def\<close>)
  have "\<exists>s2. readMeta rf (length ?m) s1 = Some (Ok (pk_ClientId (received p d)), s2) \<and> good s2 \<and> content s2 = d @ rest"
  proof (cases "pk_Op p = OP_DATA")
    case True
    then have m: "?m = marshalPacket p" by (simp add: packetMeta_def)
    obtain s2 where "rf (length ?m) s1 = Some (Ok ?m, s2)" "good s2" "content s2 = d @ rest"
      using rf_append [OF s1(2,3) refl] .
    with True m assms(3) show ?thesis
      by (simp add: readMeta_def io_simps unmarshalPacket_marshal packetOk_def received_def marshalPacket_nonempty)
  next
    case False
    with s1 show ?thesis
      by (simp add: readMeta_def io_simps packetMeta_def received_def)
  qed
  then obtain s2 where s2: "readMeta rf (length ?m) s1 = Some (Ok (pk_ClientId (received p d)), s2)" "good s2" "content s2 = d @ rest"
    by blast
  obtain s3 where s3: "readDat rf (length d) s2 = Some (Ok d, s3)" "good s3" "content s3 = rest"
    using s2 rf_append [OF s2(2,3) refl] by (cases "d = []") (auto simp: readDat_def io_simps)
  have "received p d = \<lparr>pk_ClientId = pk_ClientId (received p d), pk_Serial = pk_Serial p, pk_Op = pk_Op p, pk_Data = d\<rparr>"
    by (simp add: received_def)
  moreover have "\<not> MAX_META_SIZE < length ?m" "\<not> MAX_PACKET_SIZE < length d" "validOp (pk_Op p)"
    using assms(3,4) by (simp_all add: packetOk_def)
  ultimately show ?thesis
    using s1 s2 s3 head small by (simp add: readPacket_def readAnyPacket_def io_simps Let_def)
qed

end

section \<open>Streams of packets\<close>

text \<open>Packets written one after the other under the lock of the shared client, and \<open>n\<close> packets read.\<close>

fun sendAll :: "'s writer \<Rightarrow> Packet list \<Rightarrow> (unit, 's) io" where
  "sendAll wr [] = ret ()"
| "sendAll wr (p # ps) = bind (writePacket wr p) (\<lambda>_. sendAll wr ps)"

fun recvAll :: "'s reader \<Rightarrow> nat \<Rightarrow> (Packet list, 's) io" where
  "recvAll rf 0 = ret []"
| "recvAll rf (Suc n) = bind (readPacket rf) (\<lambda>p. bind (recvAll rf n) (\<lambda>ps. ret (p # ps)))"

text \<open>What the reader gets for a sequence of packets: every packet in pieces.\<close>

definition onWire :: "Packet list \<Rightarrow> Packet list" where
  "onWire ps = concat (map (\<lambda>p. map (received p) (pieces (pk_Data p))) ps)"

definition wireBytes :: "Packet list \<Rightarrow> bytes" where
  "wireBytes ps = concat (map (\<lambda>p. concat (map (packetBytes p) (pieces (pk_Data p)))) ps)"

context byte_sink
begin

lemma sendAll_sent:
  assumes "wgood s" and "list_all (\<lambda>p. \<forall>d. length d \<le> length (pk_Data p) + length (packetMeta p) + 16 \<longrightarrow> fits d) ps"
  shows "\<exists>s'. sendAll wr ps s = Some (Ok (), s') \<and> wgood s' \<and> sent s' = sent s @ wireBytes ps"
  using assms
proof (induction ps arbitrary: s)
  case Nil
  then show ?case by (simp add: io_simps wireBytes_def)
next
  case (Cons p ps)
  then obtain s1 where s1: "writePacket wr p s = Some (Ok (), s1)" "wgood s1"
    "sent s1 = sent s @ concat (map (packetBytes p) (pieces (pk_Data p)))"
    using writePacket_sent [of s p] by auto
  with Cons obtain s2 where "sendAll wr ps s1 = Some (Ok (), s2)" "wgood s2" "sent s2 = sent s1 @ wireBytes ps"
    by fastforce
  with s1 show ?case
    by (simp add: io_simps wireBytes_def)
qed

end

context full_reader
begin

lemma recvAll_pieces:
  assumes "good s" and "content s = concat (map (packetBytes p) ds) @ rest" and "packetOk p"
    and "\<And>d. d \<in> set ds \<Longrightarrow> length d \<le> MAX_PACKET_SIZE"
    and rest: "\<And>s'. good s' \<Longrightarrow> content s' = rest \<Longrightarrow> \<exists>s''. recvAll rf n s' = Some (Ok qs, s'') \<and> good s'' \<and> content s'' = []"
  shows "\<exists>s''. recvAll rf (length ds + n) s = Some (Ok (map (received p) ds @ qs), s'') \<and> good s'' \<and> content s'' = []"
  using assms(1-4)
proof (induction ds arbitrary: s)
  case Nil
  with rest [of s] show ?case by simp
next
  case (Cons d ds)
  then obtain s1 where s1: "readPacket rf s = Some (Ok (received p d), s1)" "good s1"
    "content s1 = concat (map (packetBytes p) ds) @ rest"
    using readPacket_packetBytes [of s p d "concat (map (packetBytes p) ds) @ rest"] by auto
  obtain s2 where "recvAll rf (length ds + n) s1 = Some (Ok (map (received p) ds @ qs), s2)" "good s2" "content s2 = []"
    using Cons.IH [OF s1(2,3) Cons.prems(3)] Cons.prems(4) by auto
  with s1 show ?case
    by (simp add: io_simps)
qed

lemma recvAll_onWire:
  assumes "good s" and "content s = wireBytes ps" and "list_all packetOk ps"
  shows "\<exists>s'. recvAll rf (length (onWire ps)) s = Some (Ok (onWire ps), s') \<and> good s' \<and> content s' = []"
  using assms
proof (induction ps arbitrary: s)
  case Nil
  then show ?case by (simp add: io_simps onWire_def wireBytes_def)
next
  case (Cons p ps)
  have "\<exists>s''. recvAll rf (length (pieces (pk_Data p)) + length (onWire ps)) s =
      Some (Ok (map (received p) (pieces (pk_Data p)) @ onWire ps), s'') \<and> good s'' \<and> content s'' = []"
  proof (rule recvAll_pieces [where rest = "wireBytes ps"])
    show "good s" "content s = concat (map (packetBytes p) (pieces (pk_Data p))) @ wireBytes ps" "packetOk p"
      using Cons.prems by (simp_all add: wireBytes_def)
    show "length d \<le> MAX_PACKET_SIZE" if "d \<in> set (pieces (pk_Data p))" for d
      using that by (rule length_pieces)
    show "\<exists>s''. recvAll rf (length (onWire ps)) s' = Some (Ok (onWire ps), s'') \<and> good s'' \<and> content s'' = []"
      if "good s'" "content s' = wireBytes ps" for s'
      using Cons.IH [OF that] Cons.prems(3) by simp
  qed
  then show ?case
    by (simp add: onWire_def)
qed

lemma rf_cases:
  assumes "good s"
  obtains (ok) d s' where "rf n s = Some (Ok d, s')" and "length d = n" and "good s'"
  | (err) e s' where "rf n s = Some (Err e, s')" and "good s'"
proof (cases "n \<le> length (content s)")
  case True
  with rf_ok [OF assms this] ok show thesis
    by fastforce
next
  case False
  with rf_spec [OF assms, of n] err show thesis
    by (cases "content s = []") (auto simp: fullSpec_def)
qed

text \<open>Every input is answered, within the limits of the protocol.\<close>

lemma readMeta_cases:
  assumes "good s"
  obtains (ok) c s' where "readMeta rf n s = Some (Ok c, s')" and "good s'"
  | (err) e s' where "readMeta rf n s = Some (Err e, s')" and "good s'"
proof (cases "n = 0")
  case True
  with assms ok show thesis
    by (simp add: readMeta_def io_simps)
next
  case False
  show thesis
  proof (rule rf_cases [OF assms, of n])
    fix d s'
    assume "rf n s = Some (Ok d, s')" "good s'"
    with False ok err show thesis
      by (cases "unmarshalPacket d") (simp_all add: readMeta_def io_simps)
  next
    fix e s'
    assume "rf n s = Some (Err e, s')" "good s'"
    with False err show thesis
      by (simp add: readMeta_def io_simps)
  qed
qed

lemma readDat_cases:
  assumes "good s"
  obtains (ok) d s' where "readDat rf n s = Some (Ok d, s')" and "length d = n" and "good s'"
  | (err) e s' where "readDat rf n s = Some (Err e, s')" and "good s'"
proof (cases "n = 0")
  case True
  with assms ok show thesis
    by (simp add: readDat_def io_simps)
next
  case False
  show thesis
    by (rule rf_cases [OF assms, of n]) (use False ok err in \<open>simp_all add: readDat_def\<close>)
qed

lemma readPacket_total:
  assumes "good s"
  shows "\<exists>r s'. readPacket rf s = Some (r, s') \<and> good s' \<and>
    (case r of Ok p \<Rightarrow> validOp (pk_Op p) \<and> length (pk_Data p) \<le> MAX_PACKET_SIZE | Err e \<Rightarrow> True | Panic \<Rightarrow> False)"
proof (rule rf_cases [OF assms, of 16])
  fix e s1
  assume "rf 16 s = Some (Err e, s1)" "good s1"
  then show ?thesis
    by (simp add: readPacket_def readAnyPacket_def io_simps)
next
  fix head s1
  assume s1: "rf 16 s = Some (Ok head, s1)" "length head = 16" "good s1"
  define op where "op = head ! 3"
  define m where "m = unat (uint32 (take 4 (drop 8 head)))"
  define n where "n = unat (uint32 (take 4 (drop 12 head)))"
  show ?thesis
  proof (cases "magic = take 3 head \<and> validOp op \<and> m \<le> MAX_META_SIZE \<and> n \<le> MAX_PACKET_SIZE")
    case False
    with s1 show ?thesis
      by (auto simp: readPacket_def readAnyPacket_def io_simps Let_def op_def m_def n_def)
  next
    case True
    then have body: "readPacket rf s = bind (readMeta rf m) (\<lambda>cid. bind (readDat rf n) (\<lambda>dat.
        ret \<lparr>pk_ClientId = cid, pk_Serial = uint32 (take 4 (drop 4 head)), pk_Op = op, pk_Data = dat\<rparr>)) s1"
      using s1 by (auto simp: readPacket_def readAnyPacket_def io_simps Let_def op_def m_def n_def)
    show ?thesis
    proof (rule readMeta_cases [OF s1(3), of m])
      fix c s2
      assume s2: "readMeta rf m s1 = Some (Ok c, s2)" "good s2"
      show ?thesis
        by (rule readDat_cases [OF s2(2), of n]) (use True body s2 in \<open>simp_all add: io_simps\<close>)
    qed (use body in \<open>simp add: io_simps\<close>)
  qed
qed

end

section \<open>Properties\<close>


text \<open>\<open>readPacket\<close> returns on every input and never panics; a packet it returns has a known operation
  and at most \<open>MAX_PACKET_SIZE\<close> bytes of data, so the input cannot make it allocate more.\<close>

theorem packet_read_total:
  "\<exists>r segs'. readPacket (readFull connRead) segs = Some (r, segs') \<and>
    (case r of Ok p \<Rightarrow> validOp (pk_Op p) \<and> length (pk_Data p) \<le> MAX_PACKET_SIZE | Err e \<Rightarrow> True | Panic \<Rightarrow> False)"
  using conn.full.readPacket_total [of segs] by auto

text \<open>The end-of-stream packet loses its addressee: \<open>writePacket\<close> puts the client id on the wire only for
  \<open>OP_DATA\<close>, so whoever reads an \<open>OP_EOS\<close> packet for client \<open>cid\<close> gets the empty id.\<close>

theorem eos_loses_client_id:
  "\<exists>buf. writePacket bufferWrite \<lparr>pk_ClientId = cid, pk_Serial = n, pk_Op = OP_EOS, pk_Data = []\<rparr> [] = Some (Ok (), buf) \<and>
    (\<exists>rest. readPacket (readFull bytesReader) buf = Some (Ok \<lparr>pk_ClientId = [], pk_Serial = n, pk_Op = OP_EOS, pk_Data = []\<rparr>, rest))"
proof -
  let ?p = "\<lparr>pk_ClientId = cid, pk_Serial = n, pk_Op = OP_EOS, pk_Data = []\<rparr>"
  let ?q = "\<lparr>pk_ClientId = [], pk_Serial = n, pk_Op = OP_EOS, pk_Data = []\<rparr>"
  have pieces: "pieces [] = [[]]"
    by (simp add: pieces.simps)
  have ok: "packetOk ?q"
    by (simp add: packetOk_def validOp_def packetMeta_def OP_defs validUTF8.simps)
  have same: "packetBytes ?p [] = packetBytes ?q []" "received ?q [] = ?q"
    by (simp_all add: packetBytes_def packetMeta_def packetHead_def OP_defs received_def)
  obtain buf where buf: "writePacket bufferWrite ?p [] = Some (Ok (), buf)" "buf = packetBytes ?p []"
    using bw.writePacket_sent [where s = "[]" and p = ?p] by (auto simp: pieces)
  then show ?thesis
    using br.full.readPacket_packetBytes [of buf ?q "[]" "[]"] ok same by auto
qed



end
