(* ===== verification/Go_Text.thy ===== *)
theory Go_Text
  imports Go_Std "HOL-Library.AList"
begin

text \<open>
  What the program uses of \<open>bytes\<close>, \<open>strings\<close> and \<open>net/http\<close> on text: searching, splitting and
  trimming, case mapping, and \<open>http.Header\<close> with its canonical keys. Shown here: a separator is
  found at the first place where it occurs, also when more text follows, and text that is joined
  from lines is split into these lines.
\<close>

section \<open>Searching\<close>

text \<open>\<open>bytes.Index(s, sep)\<close> and \<open>strings.Index(s, sep)\<close>\<close>

fun subIndex :: "'a list \<Rightarrow> 'a list \<Rightarrow> nat option" where
  "subIndex sep [] = (if sep = [] then Some 0 else None)"
| "subIndex sep (x # xs) =
     (if take (length sep) (x # xs) = sep then Some 0 else map_option Suc (subIndex sep xs))"

text \<open>\<open>strings.LastIndex(s, c)\<close> for a single byte\<close>

fun lastIndex :: "'a \<Rightarrow> 'a list \<Rightarrow> nat option" where
  "lastIndex c [] = None"
| "lastIndex c (x # xs) =
     (case lastIndex c xs of Some p \<Rightarrow> Some (Suc p) | None \<Rightarrow> if x = c then Some 0 else None)"

definition hasPrefix :: "'a list \<Rightarrow> 'a list \<Rightarrow> bool" where
  "hasPrefix pre s \<longleftrightarrow> take (length pre) s = pre"

definition hasSuffix :: "'a list \<Rightarrow> 'a list \<Rightarrow> bool" where
  "hasSuffix suf s \<longleftrightarrow> hasPrefix (rev suf) (rev s)"

lemma subIndex_Some:
  "subIndex sep s = Some p \<Longrightarrow> s = take p s @ sep @ drop (p + length sep) s"
proof (induction s arbitrary: p)
  case Nil
  then show ?case by (simp split: if_splits)
next
  case (Cons x s)
  show ?case
  proof (cases "take (length sep) (x # s) = sep")
    case True
    with Cons.prems have "p = 0" by simp
    then show ?thesis
      using append_take_drop_id [of "length sep" "x # s"] True by simp
  next
    case False
    with Cons.prems obtain q where "subIndex sep s = Some q" "p = Suc q"
      by (auto simp del: take_Suc_Cons)
    with Cons.IH [of q] show ?thesis by simp
  qed
qed

lemma subIndex_bound: "subIndex sep s = Some p \<Longrightarrow> p + length sep \<le> length s"
proof (induction s arbitrary: p)
  case Nil
  then show ?case by (simp split: if_splits)
next
  case (Cons x s)
  show ?case
  proof (cases "take (length sep) (x # s) = sep")
    case True
    then have "length sep \<le> length (x # s)"
      by (metis length_take min.cobounded1)
    with True Cons.prems show ?thesis by simp
  next
    case False
    with Cons.prems obtain q where "subIndex sep s = Some q" "p = Suc q"
      by (auto simp del: take_Suc_Cons)
    with Cons.IH [of q] show ?thesis by simp
  qed
qed

lemma subIndex_append:
  assumes "subIndex sep s = Some p"
  shows "subIndex sep (s @ t) = Some p"
  using assms
proof (induction s arbitrary: p)
  case Nil
  then show ?case by (cases t) (auto split: if_splits)
next
  case (Cons x s)
  show ?case
  proof (cases "take (length sep) (x # s) = sep")
    case True
    then have "length sep \<le> length (x # s)"
      by (metis length_take min.cobounded1)
    then have "take (length sep) ((x # s) @ t) = take (length sep) (x # s)"
      by (cases sep) auto
    with True Cons.prems show ?thesis by simp
  next
    case False
    with Cons.prems obtain q where q: "subIndex sep s = Some q" "p = Suc q"
      by (auto simp del: take_Suc_Cons)
    show ?thesis
    proof (cases "take (length sep) ((x # s) @ t) = sep")
      case True
      have "length sep \<le> length (x # s)"
        using subIndex_bound [OF Cons.prems] by simp
      then have "take (length sep) ((x # s) @ t) = take (length sep) (x # s)"
        by (cases sep) auto
      with True False show ?thesis by simp
    next
      case False
      with Cons.IH [OF q(1)] q(2) show ?thesis by simp
    qed
  qed
qed

lemma subIndex_exists: "subIndex sep (a @ sep @ b) \<noteq> None"
proof (induction a)
  case Nil
  show ?case
  proof (cases "sep @ b")
    case (Cons x r)
    have "take (length sep) (sep @ b) = sep" by simp
    with Cons show ?thesis by simp
  qed simp
next
  case (Cons x a)
  then show ?case by simp
qed

lemma subIndex_take:
  assumes "subIndex sep s = Some p" and "p + length sep \<le> k"
  shows "subIndex sep (take k s) = Some p"
proof -
  let ?u = "drop (p + length sep) s"
  have p: "length (take p s) = p"
    using subIndex_bound [OF assms(1)] by simp
  have "take k s = take k (take p s @ sep @ ?u)"
    using subIndex_Some [OF assms(1)] by simp
  also have "\<dots> = take p s @ sep @ take (k - (p + length sep)) ?u"
    using assms(2) p by simp
  finally obtain q where q: "subIndex sep (take k s) = Some q"
    using subIndex_exists [of sep "take p s" "take (k - (p + length sep)) ?u"] by auto
  from subIndex_append [OF this, of "drop k s"] assms(1) q show ?thesis
    by simp
qed

text \<open>The first byte of the separator does not occur in \<open>s\<close>: the separator behind \<open>s\<close> is the first one.\<close>

lemma subIndex_first: "c \<notin> set s \<Longrightarrow> subIndex (c # sep) (s @ (c # sep) @ t) = Some (length s)"
proof (induction s)
  case Nil
  then show ?case by simp
next
  case (Cons x s)
  then have "take (length (c # sep)) ((x # s) @ (c # sep) @ t) \<noteq> c # sep"
    by auto
  with Cons show ?case by simp
qed

lemma subIndex_absent: "c \<notin> set s \<Longrightarrow> subIndex (c # sep) s = None"
  by (induction s) auto

lemma subIndex_skip: "c \<notin> set l \<Longrightarrow> subIndex (c # sep) (l @ t) = map_option (\<lambda>p. length l + p) (subIndex (c # sep) t)"
  by (induction l; cases "subIndex (c # sep) t") auto

lemma subIndex_map: "inj f \<Longrightarrow> subIndex (map f sep) (map f s) = subIndex sep s"
proof (induction s)
  case (Cons x s)
  have "take (length sep) (map f (x # s)) = map f sep \<longleftrightarrow> take (length sep) (x # s) = sep"
    using inj_map_eq_map [OF Cons.prems] by (metis take_map)
  with Cons show ?case by simp
qed simp

section \<open>Splitting\<close>

text \<open>\<open>bytes.Split(s, sep)\<close> for a separator that is not empty\<close>

function split :: "'a list \<Rightarrow> 'a list \<Rightarrow> 'a list list" where
  "split sep s =
     (case subIndex sep s of
        None \<Rightarrow> [s]
      | Some p \<Rightarrow> if sep = [] then [s] else take p s # split sep (drop (p + length sep) s))"
  by pat_completeness auto
termination
proof (relation "measure (length \<circ> snd)")
  fix sep s :: "'a list" and p
  assume "subIndex sep s = Some p" and "sep \<noteq> []"
  then show "((sep, drop (p + length sep) s), (sep, s)) \<in> measure (length \<circ> snd)"
    using subIndex_bound [of sep s p] by (cases sep) auto
qed simp

declare split.simps [simp del]

text \<open>\<open>bytes.SplitN(s, sep, n)\<close> for \<open>n > 0\<close>\<close>

fun splitN :: "nat \<Rightarrow> 'a list \<Rightarrow> 'a list \<Rightarrow> 'a list list" where
  "splitN 0 sep s = []"
| "splitN (Suc n) sep s =
     (if n = 0 then [s]
      else case subIndex sep s of None \<Rightarrow> [s] | Some p \<Rightarrow> take p s # splitN n sep (drop (p + length sep) s))"

text \<open>\<open>strings.Cut(s, c)\<close> for a single byte: before and after the first \<open>c\<close>\<close>

definition cut :: "'a \<Rightarrow> 'a list \<Rightarrow> 'a list \<times> 'a list" where
  "cut c s = (takeWhile (\<lambda>x. x \<noteq> c) s, tl (dropWhile (\<lambda>x. x \<noteq> c) s))"

lemma split_first: "c \<notin> set l \<Longrightarrow> split (c # sep) (l @ (c # sep) @ t) = l # split (c # sep) t"
  by (subst split.simps) (simp add: subIndex_first [of c l sep t, simplified])

lemma split_last: "c \<notin> set l \<Longrightarrow> split (c # sep) l = [l]"
  by (subst split.simps) (simp add: subIndex_absent)

lemma splitN_first:
  "c \<notin> set l \<Longrightarrow> splitN (Suc (Suc n)) [c] (l @ c # t) = l # splitN (Suc n) [c] t"
  using subIndex_first [of c l "[]" t] by simp

lemma cut_first: "c \<notin> set l \<Longrightarrow> cut c (l @ c # t) = (l, t)"
  unfolding cut_def by (induction l) auto

lemma cut_absent: "c \<notin> set l \<Longrightarrow> cut c l = (l, [])"
  unfolding cut_def by (induction l) auto

section \<open>Trimming\<close>

text \<open>\<open>strings.TrimRight(s, cutset)\<close> for a cutset of ASCII characters\<close>

definition trimRight :: "'a list \<Rightarrow> 'a list \<Rightarrow> 'a list" where
  "trimRight cutset s = rev (dropWhile (\<lambda>c. c \<in> set cutset) (rev s))"

text \<open>\<open>unicode.IsSpace\<close>, as the encodings of its characters\<close>

definition unicodeSpaces :: "nat list list" where
  "unicodeSpaces =
     [[9], [10], [11], [12], [13], [32], [0xC2, 0x85], [0xC2, 0xA0], [0xE1, 0x9A, 0x80]]
     @ map (\<lambda>i. [0xE2, 0x80, 0x80 + i]) [0..<11]
     @ [[0xE2, 0x80, 0xA8], [0xE2, 0x80, 0xA9], [0xE2, 0x80, 0xAF], [0xE2, 0x81, 0x9F], [0xE3, 0x80, 0x80]]"

text \<open>Removes leading elements of \<open>pats\<close>, all of them not empty.\<close>

function stripLeft :: "nat list list \<Rightarrow> string \<Rightarrow> string" where
  "stripLeft pats s =
     (case find (\<lambda>p. p \<noteq> [] \<and> hasPrefix p (map code s)) pats of
        None \<Rightarrow> s
      | Some p \<Rightarrow> stripLeft pats (drop (length p) s))"
  by pat_completeness auto
termination
proof (relation "measure (length \<circ> snd)")
  fix pats s p
  assume "find (\<lambda>p. p \<noteq> [] \<and> hasPrefix p (map code s)) pats = Some p"
  then have "p \<noteq> []" "hasPrefix p (map code s)"
    by (auto simp: find_Some_iff)
  then show "((pats, drop (length p) s), (pats, s)) \<in> measure (length \<circ> snd)"
    by (cases s) (auto simp: hasPrefix_def)
qed simp

declare stripLeft.simps [simp del]

definition trimSpace :: "string \<Rightarrow> string" where
  "trimSpace s =
     rev (stripLeft (map rev unicodeSpaces) (rev (stripLeft unicodeSpaces s)))"

lemma trimRight_snoc: "c \<in> set cs \<Longrightarrow> trimRight cs (s @ [c]) = trimRight cs s"
  by (simp add: trimRight_def)

lemma trimRight_id: "s = [] \<or> last s \<notin> set cs \<Longrightarrow> trimRight cs s = s"
  by (cases s rule: rev_cases) (simp_all add: trimRight_def)

definition printable :: "char \<Rightarrow> bool" where
  "printable c \<longleftrightarrow> 33 \<le> code c \<and> code c < 127"

lemma stripLeft_printable:
  assumes "s = [] \<or> printable (hd s)" and "list_all (\<lambda>p. p = [] \<or> hd p < 33 \<or> 127 \<le> hd p) pats"
  shows "stripLeft pats s = s"
proof -
  have "find (\<lambda>p. p \<noteq> [] \<and> hasPrefix p (map code s)) pats = None"
    unfolding find_None_iff
  proof
    assume "\<exists>p. p \<in> set pats \<and> p \<noteq> [] \<and> hasPrefix p (map code s)"
    then obtain a p where "a # p \<in> set pats" "hasPrefix (a # p) (map code s)"
      by (metis list.exhaust)
    with assms show False
      by (cases s) (auto simp: hasPrefix_def printable_def list_all_iff)
  qed
  then show ?thesis
    by (subst stripLeft.simps) simp
qed

lemma unicodeSpaces_ends:
  "list_all (\<lambda>p. p = [] \<or> hd p < 33 \<or> 127 \<le> hd p) unicodeSpaces"
  "list_all (\<lambda>p. p = [] \<or> hd p < 33 \<or> 127 \<le> hd p) (map rev unicodeSpaces)"
  by (simp_all add: unicodeSpaces_def upt_rec)

lemma trimSpace_printable:
  assumes "s = [] \<or> (printable (hd s) \<and> printable (last s))"
  shows "trimSpace s = s"
  using assms unicodeSpaces_ends
  by (cases s rule: rev_cases) (auto simp: trimSpace_def stripLeft_printable hd_append last_rev hd_rev)

lemma trimSpace_space:
  assumes "s = [] \<or> (printable (hd s) \<and> printable (last s))"
  shows "trimSpace (CHR '' '' # s) = s"
proof -
  have "find (\<lambda>p. p \<noteq> [] \<and> hasPrefix p (map code (CHR '' '' # s))) unicodeSpaces = Some [32]"
    by (simp add: unicodeSpaces_def hasPrefix_def)
  then have "stripLeft unicodeSpaces (CHR '' '' # s) = stripLeft unicodeSpaces s"
    by (subst stripLeft.simps) simp
  then show ?thesis
    using trimSpace_printable [OF assms] by (simp add: trimSpace_def)
qed

lemma b64encode_printable: "list_all printable (b64encode b)"
proof -
  have "printable (b64char v)" for v
    by (auto simp: printable_def b64char_def)
  then show ?thesis
    by (induction b rule: b64encode.induct) (auto simp: Let_def printable_def)
qed

section \<open>Upper and lower case\<close>

definition ascii :: "string \<Rightarrow> bool" where
  "ascii s \<longleftrightarrow> list_all (\<lambda>c. code c < 128) s"

text \<open>\<open>strings.ToUpper\<close>; the mapping of text with characters outside ASCII, which needs the tables of the
  Unicode standard, is the parameter \<open>up\<close>.\<close>

definition strToUpper :: "(string \<Rightarrow> string) \<Rightarrow> string \<Rightarrow> string" where
  "strToUpper up s = (if ascii s then map toUpperChar s else up s)"

lemma strToUpper_ascii: "ascii s \<Longrightarrow> map toUpperChar s = s \<Longrightarrow> strToUpper up s = s"
  by (simp add: strToUpper_def)

section \<open>http.Header\<close>

text \<open>The map in the order in which a \<open>range\<close> loop visits it. Keys are canonical: a key that consists of
  token characters gets upper case at the start and after each hyphen, and lower case elsewhere.\<close>

type_synonym httpHeader = "(string \<times> string list) list"

definition tokenChar :: "char \<Rightarrow> bool" where
  "tokenChar c \<longleftrightarrow>
     (48 \<le> code c \<and> code c \<le> 57) \<or> (65 \<le> code c \<and> code c \<le> 90) \<or> (97 \<le> code c \<and> code c \<le> 122) \<or>
     c \<in> set ''!#$%&*+-.^_|~'' \<or> code c = 39 \<or> code c = 96"

fun canon :: "bool \<Rightarrow> string \<Rightarrow> string" where
  "canon up [] = []"
| "canon up (c # s) = (if up then toUpperChar c else toLowerChar c) # canon (c = CHR ''-'') s"

definition canonicalKey :: "string \<Rightarrow> string" where
  "canonicalKey s = (if list_all tokenChar s then canon True s else s)"

definition headerSet :: "httpHeader \<Rightarrow> string \<Rightarrow> string \<Rightarrow> httpHeader" where
  "headerSet h k v = AList.update (canonicalKey k) [v] h"

definition headerGet :: "httpHeader \<Rightarrow> string \<Rightarrow> string" where
  "headerGet h k = (case map_of h (canonicalKey k) of Some (v # vs) \<Rightarrow> v | _ \<Rightarrow> [])"

lemma headerGet_Set:
  "headerGet (headerSet h k v) k' = (if canonicalKey k = canonicalKey k' then v else headerGet h k')"
  by (simp add: headerGet_def headerSet_def update_conv')

text \<open>A map filled with entries of different names.\<close>

definition setAll :: "(string \<times> string) list \<Rightarrow> httpHeader \<Rightarrow> httpHeader" where
  "setAll kvs h = fold (\<lambda>(k, v) h. headerSet h k v) kvs h"

lemma setAll_other:
  "list_all (\<lambda>(k', v). canonicalKey k' \<noteq> canonicalKey k) kvs \<Longrightarrow> headerGet (setAll kvs h) k = headerGet h k"
  by (induction kvs arbitrary: h) (auto simp: setAll_def headerGet_Set)

lemma setAll_get:
  assumes "distinct (map (canonicalKey \<circ> fst) kvs)" and "(k', v) \<in> set kvs" and "canonicalKey k' = canonicalKey k"
  shows "headerGet (setAll kvs h) k = v"
  using assms
proof (induction kvs arbitrary: h)
  case (Cons e kvs)
  show ?case
  proof (cases "e = (k', v)")
    case True
    then have "list_all (\<lambda>(k'', v). canonicalKey k'' \<noteq> canonicalKey k) kvs"
      using Cons.prems by (force simp: list_all_iff)
    from setAll_other [OF this, of "headerSet h k' v"] True Cons.prems(3) show ?thesis
      by (simp add: setAll_def headerGet_Set)
  next
    case False
    with Cons.prems Cons.IH show ?thesis
      by (auto simp: setAll_def)
  qed
qed simp

end
