(* ===== verification/Go_Url.thy ===== *)
theory Go_Url
  imports Go_Text
begin

text \<open>
  What the program uses of \<open>net/url\<close>: \<open>Parse\<close>, \<open>ParseRequestURI\<close>, \<open>RequestURI\<close>, \<open>Hostname\<close>, \<open>Port\<close>,
  \<open>Query\<close> and \<open>Values.Encode\<close>. Shown here: a query value that was escaped is unescaped to itself, and
  a request for a plain path with one query value is parsed back.
\<close>

section \<open>Escaping\<close>

datatype encoding = EncodePath | EncodeHost | EncodeZone | EncodeUserPassword | EncodeQueryComponent | EncodeFragment

definition alphaNum :: "char \<Rightarrow> bool" where
  "alphaNum c \<longleftrightarrow>
     (97 \<le> code c \<and> code c \<le> 122) \<or> (65 \<le> code c \<and> code c \<le> 90) \<or> (48 \<le> code c \<and> code c \<le> 57)"

definition shouldEscape :: "encoding \<Rightarrow> char \<Rightarrow> bool" where
  "shouldEscape mode c =
     (if alphaNum c then False
      else if (mode = EncodeHost \<or> mode = EncodeZone) \<and> (c \<in> set ''!$&()*+,;=:[]<>'' \<or> code c = 34 \<or> code c = 39) then False
      else if c \<in> set ''-_.~'' then False
      else if c \<in> set ''$&+,/:;=?@'' then
        (case mode of
           EncodePath \<Rightarrow> c = CHR ''?''
         | EncodeUserPassword \<Rightarrow> c \<in> set ''@/?:''
         | EncodeQueryComponent \<Rightarrow> True
         | EncodeFragment \<Rightarrow> False
         | _ \<Rightarrow> True)
      else if mode = EncodeFragment \<and> c \<in> set ''!()*'' then False
      else True)"

definition upperHex :: "nat \<Rightarrow> char" where
  "upperHex n = (if n < 10 then char_of (48 + n) else char_of (55 + n))"

definition ishex :: "char \<Rightarrow> bool" where
  "ishex c \<longleftrightarrow> (48 \<le> code c \<and> code c \<le> 57) \<or> (97 \<le> code c \<and> code c \<le> 102) \<or> (65 \<le> code c \<and> code c \<le> 70)"

definition unhex :: "char \<Rightarrow> nat" where
  "unhex c =
     (if 48 \<le> code c \<and> code c \<le> 57 then code c - 48
      else if 97 \<le> code c \<and> code c \<le> 102 then code c - 97 + 10
      else if 65 \<le> code c \<and> code c \<le> 70 then code c - 65 + 10
      else 0)"

fun escape :: "encoding \<Rightarrow> string \<Rightarrow> string" where
  "escape mode [] = []"
| "escape mode (c # s) =
     (if c = CHR '' '' \<and> mode = EncodeQueryComponent then CHR ''+'' # escape mode s
      else if shouldEscape mode c then CHR ''%'' # upperHex (code c div 16) # upperHex (code c mod 16) # escape mode s
      else c # escape mode s)"

text \<open>\<open>unescape(s, mode)\<close>; \<open>None\<close> for its errors.\<close>

definition badEscape :: "encoding \<Rightarrow> char \<Rightarrow> char \<Rightarrow> bool" where
  "badEscape mode a b \<longleftrightarrow>
     \<not> ishex a \<or> \<not> ishex b \<or>
     (mode = EncodeHost \<and> unhex a < 8 \<and> \<not> (a = CHR ''2'' \<and> b = CHR ''5'')) \<or>
     (mode = EncodeZone \<and> \<not> (a = CHR ''2'' \<and> b = CHR ''5'') \<and>
        (let v = char_of (16 * unhex a + unhex b) in v \<noteq> CHR '' '' \<and> shouldEscape EncodeHost v))"

function unescape :: "encoding \<Rightarrow> string \<Rightarrow> string option" where
  "unescape mode s =
     (case s of
        [] \<Rightarrow> Some []
      | c # r \<Rightarrow>
          if c = CHR ''%'' then
            (case r of
               a # b # r' \<Rightarrow>
                 if badEscape mode a b then None
                 else map_option (\<lambda>t. char_of (16 * unhex a + unhex b) # t) (unescape mode r')
             | _ \<Rightarrow> None)
          else if c = CHR ''+'' \<and> mode = EncodeQueryComponent then map_option (\<lambda>t. CHR '' '' # t) (unescape mode r)
          else if c \<noteq> CHR ''+'' \<and> (mode = EncodeHost \<or> mode = EncodeZone) \<and> code c < 128 \<and> shouldEscape mode c then None
          else map_option (\<lambda>t. c # t) (unescape mode r))"
  by pat_completeness auto
termination
  by (relation "measure (length \<circ> snd)") auto

declare unescape.simps [simp del]

lemma unescape_Nil [simp]: "unescape mode [] = Some []"
  by (simp add: unescape.simps)

lemma hex_digits:
  assumes "n < 16"
  shows "ishex (upperHex n)" and "unhex (upperHex n) = n"
  using assms by (auto simp: upperHex_def ishex_def unhex_def)

lemma unescape_escape: "unescape EncodeQueryComponent (escape EncodeQueryComponent s) = Some s"
proof (induction s)
  case (Cons c s)
  have hex: "ishex (upperHex (code c div 16))" "ishex (upperHex (code c mod 16))"
    "unhex (upperHex (code c div 16)) = code c div 16" "unhex (upperHex (code c mod 16)) = code c mod 16"
    using hex_digits [of "code c div 16"] hex_digits [of "code c mod 16"] nat_of_char_less_256 [of c]
    by (auto simp: div_less_iff_less_mult)
  have "\<not> shouldEscape EncodeQueryComponent c \<Longrightarrow> c \<noteq> CHR ''%'' \<and> c \<noteq> CHR ''+''"
    by (auto simp: shouldEscape_def alphaNum_def)
  with Cons hex show ?case
    by (subst unescape.simps) (auto simp: badEscape_def)
qed simp

text \<open>The characters an escaped query component consists of.\<close>

definition queryChar :: "char \<Rightarrow> bool" where
  "queryChar c \<longleftrightarrow> alphaNum c \<or> c \<in> set ''-_.~%+''"

lemma upperHex_alphaNum: "n < 16 \<Longrightarrow> alphaNum (upperHex n)"
  by (auto simp: upperHex_def alphaNum_def)

lemma escape_queryChar: "list_all queryChar (escape EncodeQueryComponent s)"
proof (induction s)
  case (Cons c s)
  have "alphaNum (upperHex (code c div 16))" "alphaNum (upperHex (code c mod 16))"
    using nat_of_char_less_256 [of c] by (auto intro!: upperHex_alphaNum simp: div_less_iff_less_mult)
  moreover have "\<not> shouldEscape EncodeQueryComponent c \<Longrightarrow> queryChar c"
    by (auto simp: shouldEscape_def queryChar_def split: if_splits)
  ultimately show ?case
    using Cons by (auto simp: queryChar_def)
qed simp

lemma length_escape: "length (escape mode s) \<le> 3 * length s"
  by (induction s) auto

section \<open>URLs\<close>

text \<open>The fields of \<open>url.URL\<close> the program depends on; the user information and the fragment are checked when
  a URL is parsed and not used afterwards.\<close>

record URL =
  u_Scheme :: string
  u_Opaque :: string
  u_Host :: string
  u_Path :: string
  u_RawPath :: string
  u_ForceQuery :: bool
  u_RawQuery :: string

definition emptyURL :: URL where
  "emptyURL = \<lparr>u_Scheme = [], u_Opaque = [], u_Host = [], u_Path = [], u_RawPath = [], u_ForceQuery = False, u_RawQuery = []\<rparr>"

text \<open>\<open>getScheme\<close>: scheme and rest; \<open>None\<close> for a URL that starts with a colon.\<close>

fun getSchemeFrom :: "bool \<Rightarrow> string \<Rightarrow> (string \<times> string) option option" where
  "getSchemeFrom start [] = Some None"
| "getSchemeFrom start (c # s) =
     (if (97 \<le> code c \<and> code c \<le> 122) \<or> (65 \<le> code c \<and> code c \<le> 90)
      then map_option (map_option (\<lambda>(a, b). (c # a, b))) (getSchemeFrom False s)
      else if (48 \<le> code c \<and> code c \<le> 57) \<or> c \<in> set ''+-.''
      then (if start then Some None else map_option (map_option (\<lambda>(a, b). (c # a, b))) (getSchemeFrom False s))
      else if c = CHR '':'' then (if start then None else Some (Some ([], s)))
      else Some None)"

definition getScheme :: "string \<Rightarrow> (string \<times> string) option" where
  "getScheme rawURL =
     (case getSchemeFrom True rawURL of
        None \<Rightarrow> None
      | Some None \<Rightarrow> Some ([], rawURL)
      | Some (Some r) \<Rightarrow> Some r)"

definition validOptionalPort :: "string \<Rightarrow> bool" where
  "validOptionalPort p \<longleftrightarrow> (case p of [] \<Rightarrow> True | c # ds \<Rightarrow> c = CHR '':'' \<and> list_all isDigit ds)"

definition validUserinfo :: "string \<Rightarrow> bool" where
  "validUserinfo s \<longleftrightarrow> list_all (\<lambda>c. alphaNum c \<or> c \<in> set ''-._:~!$&()*+,;=%@'' \<or> code c = 39) s"

definition parseHost :: "string \<Rightarrow> string option" where
  "parseHost host =
     (if hasPrefix ''['' host then
        (case lastIndex (CHR '']'') host of
           None \<Rightarrow> None
         | Some i \<Rightarrow>
             if \<not> validOptionalPort (drop (i + 1) host) then None
             else (case subIndex ''%25'' (take i host) of
                     Some z \<Rightarrow>
                       (case (unescape EncodeHost (take z host), unescape EncodeZone (drop z (take i host)), unescape EncodeHost (drop i host)) of
                          (Some h1, Some h2, Some h3) \<Rightarrow> Some (h1 @ h2 @ h3)
                        | _ \<Rightarrow> None)
                   | None \<Rightarrow> unescape EncodeHost host))
      else
        (case lastIndex (CHR '':'') host of
           Some i \<Rightarrow> if validOptionalPort (drop i host) then unescape EncodeHost host else None
         | None \<Rightarrow> unescape EncodeHost host))"

definition parseAuthority :: "string \<Rightarrow> string option" where
  "parseAuthority authority =
     (case lastIndex (CHR ''@'') authority of
        None \<Rightarrow> parseHost authority
      | Some i \<Rightarrow>
          (case parseHost (drop (i + 1) authority) of
             None \<Rightarrow> None
           | Some host \<Rightarrow>
               let userinfo = take i authority; (user, password) = cut (CHR '':'') userinfo
               in if validUserinfo userinfo \<and> unescape EncodeUserPassword user \<noteq> None \<and>
                     unescape EncodeUserPassword password \<noteq> None
                  then Some host else None))"

definition setPath :: "string \<Rightarrow> URL \<Rightarrow> URL option" where
  "setPath p u =
     (case unescape EncodePath p of
        None \<Rightarrow> None
      | Some path \<Rightarrow> Some (u\<lparr>u_Path := path, u_RawPath := (if escape EncodePath path = p then [] else p)\<rparr>))"

definition ctlByte :: "char \<Rightarrow> bool" where
  "ctlByte c \<longleftrightarrow> code c < 32 \<or> code c = 127"

text \<open>The part of \<open>parse\<close> after the query was cut off.\<close>

definition parseHierarchy :: "bool \<Rightarrow> string \<Rightarrow> URL \<Rightarrow> URL option" where
  "parseHierarchy viaRequest rest u =
     (if \<not> hasPrefix ''/'' rest \<and> u_Scheme u \<noteq> [] then Some (u\<lparr>u_Opaque := rest\<rparr>)
      else if \<not> hasPrefix ''/'' rest \<and> viaRequest then None
      else if \<not> hasPrefix ''/'' rest \<and> CHR '':'' \<in> set (fst (cut (CHR ''/'') rest)) then None
      else if (u_Scheme u \<noteq> [] \<or> (\<not> viaRequest \<and> \<not> hasPrefix ''///'' rest)) \<and> hasPrefix ''//'' rest then
        (let authority = takeWhile (\<lambda>c. c \<noteq> CHR ''/'') (drop 2 rest)
         in case parseAuthority authority of
              None \<Rightarrow> None
            | Some host \<Rightarrow> setPath (drop (2 + length authority) rest) (u\<lparr>u_Host := host\<rparr>))
      else setPath rest u)"

definition parse :: "bool \<Rightarrow> string \<Rightarrow> URL option" where
  "parse viaRequest rawURL =
     (if list_ex ctlByte rawURL then None
      else if rawURL = [] \<and> viaRequest then None
      else if rawURL = ''*'' then Some (emptyURL\<lparr>u_Path := ''*''\<rparr>)
      else case getScheme rawURL of
             None \<Rightarrow> None
           | Some (scheme, rest) \<Rightarrow>
               let u = emptyURL\<lparr>u_Scheme := map toLowerChar scheme\<rparr>
               in if hasSuffix ''?'' rest \<and> length (filter (\<lambda>c. c = CHR ''?'') rest) = 1
                  then parseHierarchy viaRequest (butlast rest) (u\<lparr>u_ForceQuery := True\<rparr>)
                  else let (rest', q) = cut (CHR ''?'') rest
                       in parseHierarchy viaRequest rest' (u\<lparr>u_RawQuery := q\<rparr>))"

definition url_ParseRequestURI :: "string \<Rightarrow> URL option" where
  "url_ParseRequestURI rawURL = parse True rawURL"

definition url_Parse :: "string \<Rightarrow> URL option" where
  "url_Parse rawURL =
     (let (u, frag) = cut (CHR ''#'') rawURL
      in case parse False u of
           None \<Rightarrow> None
         | Some url \<Rightarrow> if unescape EncodeFragment frag = None then None else Some url)"

definition validEncodedPath :: "string \<Rightarrow> bool" where
  "validEncodedPath s \<longleftrightarrow> list_all (\<lambda>c. c \<in> set ''!$&()*+,;=:@[]%'' \<or> code c = 39 \<or> \<not> shouldEscape EncodePath c) s"

definition escapedPath :: "URL \<Rightarrow> string" where
  "escapedPath u =
     (if u_RawPath u \<noteq> [] \<and> validEncodedPath (u_RawPath u) \<and> unescape EncodePath (u_RawPath u) = Some (u_Path u) then u_RawPath u
      else if u_Path u = ''*'' then ''*''
      else escape EncodePath (u_Path u))"

definition requestURI :: "URL \<Rightarrow> string" where
  "requestURI u =
     (let result = (if u_Opaque u = [] then (if escapedPath u = [] then ''/'' else escapedPath u)
                    else if hasPrefix ''//'' (u_Opaque u) then u_Scheme u @ '':'' @ u_Opaque u
                    else u_Opaque u)
      in if u_ForceQuery u \<or> u_RawQuery u \<noteq> [] then result @ ''?'' @ u_RawQuery u else result)"

definition splitHostPort :: "string \<Rightarrow> string \<times> string" where
  "splitHostPort hostPort =
     (let (host, port) =
        (case lastIndex (CHR '':'') hostPort of
           Some i \<Rightarrow> if validOptionalPort (drop i hostPort) then (take i hostPort, drop (i + 1) hostPort) else (hostPort, [])
         | None \<Rightarrow> (hostPort, []))
      in (if hasPrefix ''['' host \<and> hasSuffix '']'' host then butlast (tl host) else host, port))"

definition hostname :: "URL \<Rightarrow> string" where
  "hostname u = fst (splitHostPort (u_Host u))"

definition port_of :: "URL \<Rightarrow> string" where
  "port_of u = snd (splitHostPort (u_Host u))"

section \<open>Queries\<close>

text \<open>\<open>url.Values{k: v}.Encode()\<close> for a single value, and \<open>u.Query().Get(k)\<close>: the pairs of the query in
  their order, without those that cannot be parsed.\<close>

definition encodeQuery :: "string \<Rightarrow> string \<Rightarrow> string" where
  "encodeQuery k v = escape EncodeQueryComponent k @ ''='' @ escape EncodeQueryComponent v"

definition queryPair :: "string \<Rightarrow> (string \<times> string) list" where
  "queryPair key =
     (if CHR '';'' \<in> set key \<or> key = [] then []
      else let (k, v) = cut (CHR ''='') key
           in case (unescape EncodeQueryComponent k, unescape EncodeQueryComponent v) of
                (Some k', Some v') \<Rightarrow> [(k', v')]
              | _ \<Rightarrow> [])"

definition queryGet :: "string \<Rightarrow> URL \<Rightarrow> string" where
  "queryGet k u =
     (case map_of (concat (map queryPair (split ''&'' (u_RawQuery u)))) k of Some v \<Rightarrow> v | None \<Rightarrow> [])"

lemma queryChar_not:
  assumes "list_all queryChar s" and "\<not> queryChar c"
  shows "c \<notin> set s"
  using assms by (auto simp: list_all_iff)

lemma queryGet_encodeQuery:
  assumes "u_RawQuery u = encodeQuery [k] v" and "alphaNum k"
  shows "queryGet [k] u = v"
proof -
  let ?v = "escape EncodeQueryComponent v"
  have k: "escape EncodeQueryComponent [k] = [k]"
    using assms(2) by (auto simp: shouldEscape_def alphaNum_def)
  have q: "u_RawQuery u = [k] @ CHR ''='' # ?v"
    using assms(1) k by (simp add: encodeQuery_def)
  have no: "CHR ''&'' \<notin> set ?v" "CHR '';'' \<notin> set ?v"
    by (rule queryChar_not [OF escape_queryChar]; simp add: queryChar_def alphaNum_def)+
  have ks: "CHR ''&'' \<noteq> k" "CHR '';'' \<noteq> k" "CHR ''='' \<noteq> k"
    using assms(2) by (auto simp: alphaNum_def)
  have "split ''&'' (u_RawQuery u) = [u_RawQuery u]"
    by (rule split_last) (use q no ks in auto)
  moreover have "cut (CHR ''='') (u_RawQuery u) = ([k], ?v)"
    unfolding q by (rule cut_first) (use ks in auto)
  moreover have "CHR '';'' \<notin> set (u_RawQuery u)" "u_RawQuery u \<noteq> []"
    using q no ks by auto
  moreover have "unescape EncodeQueryComponent [k] = Some [k]"
    using unescape_escape [of "[k]"] k by simp
  ultimately show ?thesis
    by (simp add: queryGet_def queryPair_def unescape_escape)
qed

section \<open>A request is parsed back\<close>

text \<open>Paths that need no escaping.\<close>

definition plainPath :: "string \<Rightarrow> bool" where
  "plainPath p \<longleftrightarrow> list_all (\<lambda>c. alphaNum c \<or> c \<in> set ''/-_.~'') p"

lemma plainPath_escape: "plainPath p \<Longrightarrow> escape EncodePath p = p \<and> unescape EncodePath p = Some p"
proof (induction p)
  case (Cons c p)
  then have c: "alphaNum c \<or> c \<in> set ''/-_.~''" and IH: "escape EncodePath p = p" "unescape EncodePath p = Some p"
    by (auto simp: plainPath_def)
  from c have "\<not> shouldEscape EncodePath c" "c \<noteq> CHR ''%''"
    by (auto simp: shouldEscape_def alphaNum_def)
  with IH show ?case
    by (simp add: unescape.simps [of _ "c # p"])
qed simp

lemma parseRequestURI_plain:
  assumes "plainPath p" and "list_all queryChar v" and "q = [k, CHR ''=''] @ v" and "alphaNum k"
  shows "url_ParseRequestURI (CHR ''/'' # p @ ''?'' @ q) =
    Some (emptyURL\<lparr>u_Path := CHR ''/'' # p, u_RawQuery := q\<rparr>)"
proof -
  let ?s = "CHR ''/'' # p @ ''?'' @ q"
  have p: "c \<noteq> CHR ''?''" "\<not> ctlByte c" if "c \<in> set p" for c
    using assms(1) that by (auto simp: plainPath_def list_all_iff alphaNum_def ctlByte_def)
  have v: "c \<noteq> CHR ''?''" "\<not> ctlByte c" if "c \<in> set v" for c
    using assms(2) that by (auto simp: queryChar_def list_all_iff alphaNum_def ctlByte_def)
  have k: "k \<noteq> CHR ''?''" "\<not> ctlByte k"
    using assms(4) by (auto simp: alphaNum_def ctlByte_def)
  have "\<not> list_ex ctlByte ?s"
    using p(2) v(2) k(2) by (auto simp: list_ex_iff assms(3)) (auto simp: ctlByte_def)
  moreover have "getScheme ?s = Some ([], ?s)"
    by (simp add: getScheme_def)
  moreover have "\<not> hasSuffix ''?'' ?s"
    using v(1) assms(3) by (cases v rule: rev_cases) (auto simp: hasSuffix_def hasPrefix_def)
  moreover have "cut (CHR ''?'') ?s = (CHR ''/'' # p, q)"
    using cut_first [of "CHR ''?''" "CHR ''/'' # p" q] p(1) by auto
  moreover have "setPath (CHR ''/'' # p) u = Some (u\<lparr>u_Path := CHR ''/'' # p, u_RawPath := []\<rparr>)" for u
    using plainPath_escape [of "CHR ''/'' # p"] assms(1) by (simp add: setPath_def plainPath_def)
  ultimately show ?thesis
    by (simp add: url_ParseRequestURI_def parse_def parseHierarchy_def hasPrefix_def emptyURL_def)
qed

end
