(* ===== verification/Http.thy ===== *)
theory Http
  imports Go_Url
begin

text \<open>
  The package \<open>http\<close>: request headers (\<open>header.go\<close>), the reader that peeks a header off a connection
  (\<open>http.go\<close>) and the reader of responses (\<open>response.go\<close>). Shown here: peeking consumes nothing and
  finds the header for every segmentation of the stream, the reader goes on as an \<open>io.Reader\<close> of the
  whole stream, a header that was written is parsed back, and a response is read to the same result
  for every segmentation.
\<close>

definition crlf :: string where
  "crlf = [CHR 0x0D, CHR 0x0A]"

section \<open>Request headers\<close>

record Header =
  hd_Method :: string
  hd_Proto :: string
  hd_Host :: string
  hd_URL :: "URL option"
  hd_Values :: httpHeader

definition NewHeader :: Header where
  "NewHeader = \<lparr>hd_Method = [], hd_Proto = [], hd_Host = [], hd_URL = None, hd_Values = []\<rparr>"

text \<open>The loops of \<open>WriteTo\<close> over the names and over the values of a name. The list of names is in the order
  in which the \<open>range\<close> loop visits the map.\<close>

fun writeValues :: "'s writer \<Rightarrow> string \<Rightarrow> string list \<Rightarrow> nat \<Rightarrow> (nat, 's) io" where
  "writeValues wr name [] tot = ret tot"
| "writeValues wr name (v # vs) tot =
     bind (wr (bytes_of (name @ '': '' @ v @ crlf))) (\<lambda>sz. writeValues wr name vs (tot + sz))"

fun writeNames :: "'s writer \<Rightarrow> httpHeader \<Rightarrow> nat \<Rightarrow> bool \<Rightarrow> (nat \<times> bool, 's) io" where
  "writeNames wr [] tot hostSet = ret (tot, hostSet)"
| "writeNames wr ((name, vs) # hs) tot hostSet =
     bind (writeValues wr name vs tot) (\<lambda>tot'. writeNames wr hs tot' (hostSet \<or> equalFold name ''host''))"

definition Header_WriteTo :: "(string \<Rightarrow> string) \<Rightarrow> 's writer \<Rightarrow> Header \<Rightarrow> (nat, 's) io" where
  "Header_WriteTo up wr h =
     (case hd_URL h of
        None \<Rightarrow> panic
      | Some u \<Rightarrow>
          bind (wr (bytes_of (strToUpper up (hd_Method h) @ '' '' @ requestURI u @ '' '' @ hd_Proto h @ crlf))) (\<lambda>sz.
          bind (writeNames wr (hd_Values h) sz False) (\<lambda>(tot, hostSet).
          bind (if \<not> hostSet \<and> 0 < length (u_Host u)
                then bind (wr (bytes_of (''Host: '' @ u_Host u @ crlf))) (\<lambda>sz. ret (tot + sz))
                else ret tot) (\<lambda>tot'.
          bind (wr (bytes_of crlf)) (\<lambda>sz. ret (tot' + sz))))))"

definition headerLine :: "string \<Rightarrow> string \<times> httpHeader \<Rightarrow> string \<times> httpHeader" where
  "headerLine line acc =
     (case splitN 2 '' '' line of
        [a, b] \<Rightarrow>
          (let name = trimRight '': '' a
           in (if equalFold name ''host'' then b else fst acc, headerSet (snd acc) name b))
      | _ \<Rightarrow> acc)"

definition parseHeader :: "(string \<Rightarrow> string) \<Rightarrow> bytes \<Rightarrow> Header res" where
  "parseHeader up dat =
     (case split crlf (string_of dat) of
        [] \<Rightarrow> Err (Errorf ''Invalid http header.'')
      | line0 # lines \<Rightarrow>
          (case splitN 3 '' '' line0 of
             [m, urlStr, proto] \<Rightarrow>
               (case url_ParseRequestURI urlStr of
                  None \<Rightarrow> Err (Errorf ''Invalid request uri.'')
                | Some uri \<Rightarrow>
                    (let (host, vals) = fold headerLine lines ([], []);
                         uri' = (if length (u_Host uri) \<le> 0 \<and> 0 < length host then uri\<lparr>u_Host := host\<rparr> else uri)
                     in Ok \<lparr>hd_Method = strToUpper up m, hd_Proto = strToUpper up proto, hd_Host = host,
                            hd_URL = Some uri', hd_Values = vals\<rparr>))
           | _ \<Rightarrow> Err (Errorf ''Invalid http request.'')))"

section \<open>The header reader\<close>

definition DefaultBufferSize :: nat where "DefaultBufferSize = 1024 * 4"
definition ExtendingSize :: nat where "ExtendingSize = 1024 * 2"
definition MaxBufferSize :: nat where "MaxBufferSize = 1024 * 16"

lemmas http_sizes = DefaultBufferSize_def ExtendingSize_def MaxBufferSize_def

record 's HeaderReader =
  hr_r :: 's
  hr_buff :: bytes
  hr_end :: nat

definition NewHeaderReader :: "'s \<Rightarrow> 's HeaderReader" where
  "NewHeaderReader r = \<lparr>hr_r = r, hr_buff = zeros DefaultBufferSize, hr_end = 0\<rparr>"

text \<open>The loop of \<open>readMore\<close> that makes room; the result says whether there is.\<close>

function growBuff :: "nat \<Rightarrow> bytes \<Rightarrow> bool \<times> bytes" where
  "growBuff e b =
     (if length b - e < ExtendingSize then
        (if MaxBufferSize < length b + ExtendingSize then (False, b)
         else growBuff e (copyAt 0 (take e b) (zeros (length b + ExtendingSize))))
      else (True, b))"
  by pat_completeness auto
termination
  by (relation "measure (\<lambda>(e, b). MaxBufferSize - length b)") (auto simp: http_sizes)

declare growBuff.simps [simp del]

definition readMore :: "'s reader \<Rightarrow> (nat, 's HeaderReader) io" where
  "readMore rd r =
     (let (ok, b) = growBuff (hr_end r) (hr_buff r); r1 = r\<lparr>hr_buff := b\<rparr>
      in if \<not> ok then throw ErrShortBuffer r1
         else case rd (length b - hr_end r) (hr_r r) of
                None \<Rightarrow> None
              | Some (Err e, s) \<Rightarrow> Some (Err e, r1\<lparr>hr_r := s\<rparr>)
              | Some (Panic, s) \<Rightarrow> Some (Panic, r1\<lparr>hr_r := s\<rparr>)
              | Some (Ok d, s) \<Rightarrow>
                  Some (Ok (length d), r1\<lparr>hr_r := s, hr_buff := copyAt (hr_end r) d b, hr_end := hr_end r + length d\<rparr>))"

definition headerSep :: bytes where
  "headerSep = bytes_of (crlf @ crlf)"

partial_function (option) PeekHeader :: "(string \<Rightarrow> string) \<Rightarrow> 's reader \<Rightarrow> 's HeaderReader \<Rightarrow> (Header res \<times> 's HeaderReader) option" where
  "PeekHeader up rd r =
     (case subIndex headerSep (hr_buff r) of
        None \<Rightarrow>
          (case readMore rd r of
             None \<Rightarrow> None
           | Some (Err e, r') \<Rightarrow> Some (Err e, r')
           | Some (Panic, r') \<Rightarrow> Some (Panic, r')
           | Some (Ok sz, r') \<Rightarrow> if sz = 0 then Some (Err EOF, r') else PeekHeader up rd r')
      | Some p \<Rightarrow>
          Some (case parseHeader up (take p (hr_buff r)) of
                  Ok h \<Rightarrow> Ok h
                | Err e \<Rightarrow> Err (Errorf (''parseHeader: '' @ (case e of Errorf m \<Rightarrow> m | _ \<Rightarrow> [])))
                | Panic \<Rightarrow> Panic, r))"

declare PeekHeader.simps [code]

definition HeaderReader_Read :: "'s reader \<Rightarrow> 's HeaderReader reader" where
  "HeaderReader_Read rd n r =
     (if hr_end r \<le> 0 then
        (case rd n (hr_r r) of None \<Rightarrow> None | Some (x, s) \<Rightarrow> Some (x, r\<lparr>hr_r := s\<rparr>))
      else
        (let sz = (if n < hr_end r then n else hr_end r);
             newEnd = hr_end r - sz
         in ret (take sz (hr_buff r))
              (r\<lparr>hr_buff := gocopy (take newEnd (hr_buff r)) (drop sz (take (hr_end r) (hr_buff r))) @ drop newEnd (hr_buff r),
                 hr_end := newEnd\<rparr>)))"

section \<open>Responses\<close>

record Response =
  rs_StatusCode :: int
  rs_Header :: httpHeader

definition parseResponseLine :: "bytes \<Rightarrow> (int \<times> string \<times> string) res" where
  "parseResponseLine line =
     (case splitN 3 '' '' (string_of line) of
        [proto, codeStr, statusText] \<Rightarrow>
          (case parseInt64 codeStr of
             None \<Rightarrow> Err (Errorf ''strconv.Atoi'')
           | Some n \<Rightarrow> Ok (n, statusText, proto))
      | _ \<Rightarrow> Err (Errorf ''invalid response line.''))"

definition parseHeaderLine :: "bytes \<Rightarrow> (string \<times> string) res" where
  "parseHeaderLine line =
     (case subIndex '':'' (string_of line) of
        None \<Rightarrow> Err (Errorf ''invalid header line.'')
      | Some p \<Rightarrow> Ok (trimSpace (take p (string_of line)), trimSpace (drop (p + 1) (string_of line))))"

text \<open>The inner loop of \<open>ReadResponse\<close>: the lines that are complete in \<open>bufHeader[:i]\<close>, which is the first
  argument. It leaves the rest of the buffer, or ends the call.\<close>

datatype respState = More bytes nat Response | Done Response | Fail goerr

definition respLine :: "bytes \<Rightarrow> nat \<Rightarrow> Response \<Rightarrow> Response res" where
  "respLine line lineIndex rs =
     (if lineIndex = 0 then
        (case parseResponseLine line of
           Ok (statusCode, t, proto) \<Rightarrow> Ok (rs\<lparr>rs_StatusCode := statusCode\<rparr>)
         | Err e \<Rightarrow> Err e
         | Panic \<Rightarrow> Panic)
      else
        (case parseHeaderLine line of
           Ok (k, v) \<Rightarrow> Ok (rs\<lparr>rs_Header := headerSet (rs_Header rs) k v\<rparr>)
         | Err e \<Rightarrow> Err e
         | Panic \<Rightarrow> Panic))"

function respLines :: "bytes \<Rightarrow> nat \<Rightarrow> Response \<Rightarrow> respState" where
  "respLines buf lineIndex rs =
     (case subIndex (bytes_of crlf) buf of
        None \<Rightarrow> More buf lineIndex rs
      | Some p \<Rightarrow>
          if 0 < length (take p buf) then
            (case respLine (take p buf) lineIndex rs of
               Ok rs' \<Rightarrow> respLines (drop (p + 2) buf) (lineIndex + 1) rs'
             | Err e \<Rightarrow> Fail e
             | Panic \<Rightarrow> Fail EOF)
          else Done rs)"
  by pat_completeness auto
termination
  by (relation "measure (\<lambda>(buf, i, rs). length buf)") auto

declare respLines.simps [simp del]

lemma respLines_None: "subIndex (bytes_of crlf) buf = None \<Longrightarrow> respLines buf i rs = More buf i rs"
  by (subst respLines.simps) simp

lemma respLines_Some:
  "subIndex (bytes_of crlf) buf = Some p \<Longrightarrow>
    respLines buf i rs =
      (if 0 < length (take p buf) then
         (case respLine (take p buf) i rs of
            Ok rs' \<Rightarrow> respLines (drop (p + 2) buf) (i + 1) rs' | Err e \<Rightarrow> Fail e | Panic \<Rightarrow> Fail EOF)
       else Done rs)"
  by (subst respLines.simps) simp

partial_function (option) readResponseLoop :: "'s reader \<Rightarrow> bytes \<Rightarrow> nat \<Rightarrow> Response \<Rightarrow> 's \<Rightarrow> (Response res \<times> 's) option" where
  "readResponseLoop rd buf lineIndex rs s =
     (case rd 1024 s of
        None \<Rightarrow> None
      | Some (Err e, s') \<Rightarrow> Some (Err e, s')
      | Some (Panic, s') \<Rightarrow> Some (Panic, s')
      | Some (Ok d, s') \<Rightarrow>
          if 1024 * 16 < length buf + length d then Some (Err ErrShortBuffer, s')
          else (case respLines (buf @ d) lineIndex rs of
                  Done rs' \<Rightarrow> Some (Ok rs', s')
                | Fail e \<Rightarrow> Some (Err e, s')
                | More buf' lineIndex' rs' \<Rightarrow> readResponseLoop rd buf' lineIndex' rs' s'))"

declare readResponseLoop.simps [code]

definition ReadResponse :: "'s reader \<Rightarrow> (Response, 's) io" where
  "ReadResponse rd s = readResponseLoop rd [] 0 \<lparr>rs_StatusCode = 0, rs_Header = []\<rparr> s"

section \<open>Peeking\<close>

text \<open>The stream a header reader stands for, and its invariant. A fresh reader is clean: behind \<open>end\<close> its
  buffer holds zeros.\<close>

definition hrContent :: "('s \<Rightarrow> bytes) \<Rightarrow> 's HeaderReader \<Rightarrow> bytes" where
  "hrContent content r = take (hr_end r) (hr_buff r) @ content (hr_r r)"

definition hrOk :: "'s HeaderReader \<Rightarrow> bool" where
  "hrOk r \<longleftrightarrow> hr_end r \<le> length (hr_buff r) \<and> length (hr_buff r) \<le> MaxBufferSize"

definition clean :: "nat \<Rightarrow> bytes \<Rightarrow> bool" where
  "clean e b \<longleftrightarrow> drop e b = zeros (length b - e)"

definition grown :: "nat \<Rightarrow> bytes \<Rightarrow> bool \<Rightarrow> bytes \<Rightarrow> bool" where
  "grown e b ok b' \<longleftrightarrow>
     length b \<le> length b' \<and> length b' \<le> MaxBufferSize \<and> take e b' = take e b \<and> (clean e b \<longrightarrow> clean e b') \<and>
     (if ok then e < length b' else MaxBufferSize < e + 2 * ExtendingSize)"

lemma growBuff_spec:
  assumes "e \<le> length b" and "length b \<le> MaxBufferSize"
  shows "grown e b (fst (growBuff e b)) (snd (growBuff e b))"
  using assms
proof (induction e b rule: growBuff.induct)
  case (1 e b)
  let ?b = "copyAt 0 (take e b) (zeros (length b + ExtendingSize))"
  show ?case
  proof (cases "length b - e < ExtendingSize \<and> length b + ExtendingSize \<le> MaxBufferSize")
    case True
    then have step: "growBuff e b = growBuff e ?b"
      by (subst growBuff.simps) simp
    have b: "take e ?b = take e b" "clean e ?b"
      using "1.prems" by (simp_all add: copyAt_def gocopy_def clean_def zeros_def)
    have "grown e ?b (fst (growBuff e ?b)) (snd (growBuff e ?b))"
      by (rule "1.IH") (use True "1.prems" in simp_all)
    with b show ?thesis
      unfolding step by (simp add: grown_def)
  next
    case False
    then have "growBuff e b = (\<not> length b - e < ExtendingSize, b)"
      by (subst growBuff.simps) auto
    with False "1.prems" show ?thesis
      by (auto simp: grown_def http_sizes)
  qed
qed

context byte_source
begin

lemma readMore_spec:
  assumes "hrOk r" and "good (hr_r r)"
  shows "\<exists>x r'. readMore rd r = Some (x, r') \<and> hrOk r' \<and> good (hr_r r') \<and> hrContent content r' = hrContent content r \<and>
    (clean (hr_end r) (hr_buff r) \<longrightarrow> clean (hr_end r') (hr_buff r')) \<and>
    (case x of
       Ok sz \<Rightarrow> hr_end r' = hr_end r + sz \<and> length (content (hr_r r)) = sz + length (content (hr_r r')) \<and>
         (sz = 0 \<longrightarrow> rank (hr_r r') < rank (hr_r r))
     | Err e \<Rightarrow> (e = EOF \<and> content (hr_r r) = []) \<or> (e = ErrShortBuffer \<and> MaxBufferSize < hr_end r + 2 * ExtendingSize)
     | Panic \<Rightarrow> False)"
proof -
  obtain ok b where gb: "growBuff (hr_end r) (hr_buff r) = (ok, b)"
    by fastforce
  then have "grown (hr_end r) (hr_buff r) ok b"
    using growBuff_spec [of "hr_end r" "hr_buff r"] assms(1) by (simp add: hrOk_def)
  then have g: "growBuff (hr_end r) (hr_buff r) = (ok, b)" "length b \<le> MaxBufferSize"
    "take (hr_end r) b = take (hr_end r) (hr_buff r)" "clean (hr_end r) (hr_buff r) \<Longrightarrow> clean (hr_end r) b"
    "ok \<Longrightarrow> hr_end r < length b" "\<not> ok \<Longrightarrow> MaxBufferSize < hr_end r + 2 * ExtendingSize" "length (hr_buff r) \<le> length b"
    using gb by (simp_all add: grown_def)
  show ?thesis
  proof (cases ok)
    case False
    with g assms show ?thesis
      by (auto simp: readMore_def throw_def hrOk_def hrContent_def)
  next
    case True
    then have room: "0 < length b - hr_end r"
      using g(5) by simp
    obtain x s where x: "rd (length b - hr_end r) (hr_r r) = Some (x, s)" "source_step content good rank (length b - hr_end r) (hr_r r) x s"
      using rd_step [OF assms(2) room] by blast
    show ?thesis
    proof (cases x)
      case (Ok d)
      with x have d: "length d \<le> length b - hr_end r" "content (hr_r r) = d @ content s" "good s" "d = [] \<longrightarrow> rank s < rank (hr_r r)"
        by (auto simp: source_step_def)
      let ?r = "r\<lparr>hr_r := s, hr_buff := copyAt (hr_end r) d b, hr_end := hr_end r + length d\<rparr>"
      have "readMore rd r = Some (Ok (length d), ?r)"
        using g(1) True x(1) Ok by (simp add: readMore_def)
      moreover have "take (hr_end r + length d) (copyAt (hr_end r) d b) = take (hr_end r) b @ d"
        by (rule take_copyAt) (use d room in simp)
      then have "hrContent content ?r = hrContent content r"
        using d(2) g(3) by (simp add: hrContent_def)
      moreover have "hrOk ?r"
        using g(2) d(1) room by (simp add: hrOk_def)
      moreover have "clean (hr_end ?r) (hr_buff ?r)" if "clean (hr_end r) (hr_buff r)"
        using g(4) [OF that] d(1) room
        by (auto simp: clean_def copyAt_def gocopy_def zeros_def simp flip: drop_drop)
      ultimately show ?thesis
        using d by auto
    next
      case (Err e)
      with x g True assms show ?thesis
        by (auto simp: readMore_def source_step_def hrOk_def hrContent_def)
    next
      case Panic
      with x show ?thesis
        by (simp add: source_step_def)
    qed
  qed
qed

lemma PeekHeader_total:
  assumes "hrOk r" and "good (hr_r r)"
  shows "\<exists>x r'. PeekHeader up rd r = Some (x, r') \<and> hrOk r' \<and> good (hr_r r') \<and> hrContent content r' = hrContent content r \<and> x \<noteq> Panic"
  using assms
proof (induction "MaxBufferSize - hr_end r" arbitrary: r rule: less_induct)
  case less
  show ?case
  proof (cases "subIndex headerSep (hr_buff r)")
    case None
    obtain x r' where m: "readMore rd r = Some (x, r')" "hrOk r'" "good (hr_r r')" "hrContent content r' = hrContent content r"
      "case x of Ok sz \<Rightarrow> hr_end r' = hr_end r + sz | Err e \<Rightarrow> True | Panic \<Rightarrow> False"
      using readMore_spec [OF less.prems] by (fastforce split: res.splits)
    show ?thesis
    proof (cases "\<exists>sz. x = Ok sz \<and> sz \<noteq> 0")
      case True
      then have "MaxBufferSize - hr_end r' < MaxBufferSize - hr_end r"
        using m(2,5) by (auto simp: hrOk_def)
      from less.hyps [OF this m(2,3)] True None m show ?thesis
        by (subst PeekHeader.simps) auto
    next
      case False
      with None m show ?thesis
        by (subst PeekHeader.simps) (auto split: res.splits)
    qed
  next
    case (Some p)
    have "parseHeader up d \<noteq> Panic" for d
      by (auto simp: parseHeader_def Let_def split: list.splits option.splits prod.splits)
    with Some less.prems show ?thesis
      by (subst PeekHeader.simps) (auto split: res.splits)
  qed
qed

end

lemma length_headerSep [simp]: "length headerSep = 4" "headerSep \<noteq> []"
  by (simp_all add: headerSep_def crlf_def bytes_of_def)

lemma zero_sep: "0 \<notin> set headerSep"
  by (simp add: headerSep_def crlf_def bytes_of_def byte_of_char_def)

lemma subIndex_zeros:
  assumes "0 \<notin> set sep" and "sep \<noteq> []"
  shows "subIndex sep (a @ zeros n) = subIndex sep a"
proof (induction a)
  case Nil
  obtain c sep' where "sep = c # sep'"
    using assms(2) by (cases sep) auto
  then show ?case
    using assms subIndex_absent [of c "zeros n" sep'] by (auto simp: zeros_def)
next
  case (Cons x a)
  have "take (length sep) (x # a @ zeros n) = sep \<longleftrightarrow> take (length sep) (x # a) = sep"
  proof (cases "length sep \<le> length (x # a)")
    case True
    then have "take (length sep) ((x # a) @ zeros n) = take (length sep) (x # a)"
      by (subst take_append) simp
    then show ?thesis by simp
  next
    case False
    then have "length (take (length sep) (x # a)) < length sep"
      by simp
    then have "take (length sep) (x # a) \<noteq> sep"
      by auto
    moreover have "take (length sep) ((x # a) @ zeros n) \<noteq> sep"
    proof
      let ?k = "length (x # a)" and ?s = "(x # a) @ zeros n"
      assume eq: "take (length sep) ?s = sep"
      then have "length (take (length sep) ?s) = length sep"
        by simp
      then have "length sep \<le> length ?s"
        by simp
      then have "?k < length ?s" "?k < length sep"
        using False by simp_all
      then have "sep ! ?k = ?s ! ?k"
        using eq by (metis nth_take)
      also have "\<dots> = 0"
        using \<open>?k < length ?s\<close> by (simp only: nth_append_length_plus [of _ _ 0, simplified]) (simp add: zeros_def)
      finally show False
        using assms(1) nth_mem [OF \<open>?k < length sep\<close>] by simp
    qed
    ultimately show ?thesis by simp
  qed
  with Cons show ?case by simp
qed

text \<open>A source whose calls always deliver something, as a connection does.\<close>

locale live_source = byte_source rd content good "\<lambda>_. 0" for rd :: "'s reader" and content :: "'s \<Rightarrow> bytes" and good :: "'s \<Rightarrow> bool"
begin

lemma PeekHeader_finds:
  assumes "hrOk r" and "good (hr_r r)" and "clean (hr_end r) (hr_buff r)"
    and "subIndex headerSep (hrContent content r) = Some p" and "p + 4 + 2 * ExtendingSize \<le> MaxBufferSize"
  shows "\<exists>r'. PeekHeader up rd r = Some (case parseHeader up (take p (hrContent content r)) of
        Ok h \<Rightarrow> Ok h
      | Err e \<Rightarrow> Err (Errorf (''parseHeader: '' @ (case e of Errorf m \<Rightarrow> m | _ \<Rightarrow> [])))
      | Panic \<Rightarrow> Panic, r') \<and> hrOk r' \<and> good (hr_r r') \<and> hrContent content r' = hrContent content r"
  using assms
proof (induction "length (content (hr_r r))" arbitrary: r rule: less_induct)
  case less
  let ?a = "take (hr_end r) (hr_buff r)"
  have "hr_buff r = ?a @ zeros (length (hr_buff r) - hr_end r)"
    using less.prems(3) append_take_drop_id [of "hr_end r" "hr_buff r"] by (simp add: clean_def)
  then have idx: "subIndex headerSep (hr_buff r) = subIndex headerSep ?a"
    using subIndex_zeros [OF zero_sep, of ?a "length (hr_buff r) - hr_end r"] by simp
  show ?case
  proof (cases "subIndex headerSep ?a")
    case (Some q)
    then have "subIndex headerSep (hrContent content r) = Some q"
      unfolding hrContent_def by (rule subIndex_append)
    then have q: "q = p"
      using less.prems(4) by simp
    then have "p + 4 \<le> hr_end r"
      using subIndex_bound [OF Some] by simp
    then have "take p (hr_buff r) = take p (hrContent content r)"
      using less.prems(1) by (simp add: hrContent_def hrOk_def)
    with less.prems Some idx q show ?thesis
      by (subst PeekHeader.simps) simp
  next
    case None
    have "content (hr_r r) \<noteq> []"
      using None less.prems(4) by (auto simp: hrContent_def)
    moreover have "hr_end r < p + 4"
    proof (rule ccontr)
      assume "\<not> hr_end r < p + 4"
      then have "subIndex headerSep (take (hr_end r) (hrContent content r)) = Some p"
        by (intro subIndex_take [OF less.prems(4)]) simp
      then show False
        using None less.prems(1) by (simp add: hrContent_def hrOk_def)
    qed
    ultimately obtain sz r' where m: "readMore rd r = Some (Ok sz, r')" "hrOk r'" "good (hr_r r')"
      "hrContent content r' = hrContent content r" "clean (hr_end r') (hr_buff r')" "0 < sz"
      "length (content (hr_r r)) = sz + length (content (hr_r r'))"
      using readMore_spec [OF less.prems(1,2)] less.prems(3,5) by (fastforce split: res.splits)
    then have "length (content (hr_r r')) < length (content (hr_r r))"
      by simp
    from less.hyps [OF this m(2,3,5)] less.prems(4,5) m None idx show ?thesis
      by (subst PeekHeader.simps) simp
  qed
qed

end

text \<open>A connection whose peer sends no empty segments.\<close>

interpretation lconn: live_source connRead concat "\<lambda>segs. [] \<notin> set segs"
proof
  fix s :: "bytes list" and k :: nat
  assume "[] \<notin> set s" and "0 < k"
  then show "\<exists>r s'. connRead k s = Some (r, s') \<and> source_step concat (\<lambda>segs. [] \<notin> set segs) (\<lambda>_. 0) k s r s'"
    by (cases s) (auto simp: source_step_def simp flip: append_assoc)
qed

text \<open>After peeking, the reader is an \<open>io.Reader\<close> of the whole stream.\<close>

locale header_source = byte_source

sublocale header_source \<subseteq> hr: byte_source "HeaderReader_Read rd" "hrContent content" "\<lambda>r. hrOk r \<and> good (hr_r r)" "\<lambda>r. rank (hr_r r)"
proof
  fix r :: "'a HeaderReader" and k :: nat
  assume r: "hrOk r \<and> good (hr_r r)" and k: "0 < k"
  show "\<exists>x r'. HeaderReader_Read rd k r = Some (x, r') \<and>
      source_step (hrContent content) (\<lambda>r. hrOk r \<and> good (hr_r r)) (\<lambda>r. rank (hr_r r)) k r x r'"
  proof (cases "hr_end r")
    case 0
    obtain x s where "rd k (hr_r r) = Some (x, s)" "source_step content good rank k (hr_r r) x s"
      using rd_step [of "hr_r r" k] r k by blast
    with 0 r show ?thesis
      by (auto simp: HeaderReader_Read_def source_step_def hrContent_def hrOk_def split: res.splits)
  next
    case (Suc e)
    define sz where "sz = (if k < hr_end r then k else hr_end r)"
    define b where "b = gocopy (take (hr_end r - sz) (hr_buff r)) (drop sz (take (hr_end r) (hr_buff r))) @ drop (hr_end r - sz) (hr_buff r)"
    have len: "hr_end r \<le> length (hr_buff r)"
      using r by (simp add: hrOk_def)
    have step: "HeaderReader_Read rd k r = Some (Ok (take sz (hr_buff r)), r\<lparr>hr_buff := b, hr_end := hr_end r - sz\<rparr>)"
      using Suc by (simp add: HeaderReader_Read_def Let_def ret_def sz_def b_def)
    have sz: "0 < sz" "sz \<le> k" "sz \<le> hr_end r"
      using Suc k by (auto simp: sz_def)
    have b: "length b = length (hr_buff r)" "take (hr_end r - sz) b = drop sz (take (hr_end r) (hr_buff r))"
      using len sz by (simp_all add: b_def gocopy_def)
    have "take (hr_end r) (hr_buff r) = take sz (hr_buff r) @ drop sz (take (hr_end r) (hr_buff r))"
      using sz append_take_drop_id [of sz "take (hr_end r) (hr_buff r)"] by (simp add: min_absorb1)
    with step b sz r len show ?thesis
      by (auto simp: source_step_def hrContent_def hrOk_def)
  qed
qed

interpretation hconn: header_source connRead concat "\<lambda>_. True" length ..

section \<open>Headers as text\<close>

fun joinLines :: "string list \<Rightarrow> string" where
  "joinLines [] = []"
| "joinLines [l] = l"
| "joinLines (l # ls) = l @ crlf @ joinLines ls"

abbreviation noCR :: "string \<Rightarrow> bool" where
  "noCR s \<equiv> CHR 0x0D \<notin> set s"

lemma joinLines_Cons: "ls \<noteq> [] \<Longrightarrow> joinLines (l # ls) = l @ crlf @ joinLines ls"
  by (cases ls) auto

lemma concat_lines: "ls \<noteq> [] \<Longrightarrow> concat (map (\<lambda>l. l @ crlf) ls) = joinLines ls @ crlf"
  by (induction ls rule: joinLines.induct) auto

lemma split_joinLines: "ls \<noteq> [] \<Longrightarrow> list_all noCR ls \<Longrightarrow> split crlf (joinLines ls) = ls"
proof (induction ls rule: joinLines.induct)
  case (3 l l' ls)
  then show ?case
    using split_first [of "CHR 0x0D" l "[CHR 0x0A]" "joinLines (l' # ls)"] by (simp add: crlf_def)
qed (simp_all add: crlf_def split_last)

lemma subIndex_header:
  assumes "ls \<noteq> []" and "list_all (\<lambda>l. l \<noteq> [] \<and> noCR l) ls"
  shows "subIndex (crlf @ crlf) (joinLines ls @ crlf @ crlf @ rest) = Some (length (joinLines ls))"
  using assms
proof (induction ls rule: joinLines.induct)
  case (2 l)
  then show ?case
    using subIndex_first [of "CHR 0x0D" l "[CHR 0x0A, CHR 0x0D, CHR 0x0A]" rest] by (simp add: crlf_def)
next
  case (3 l l' ls)
  let ?t = "joinLines (l' # ls) @ crlf @ crlf @ rest"
  have IH: "subIndex (crlf @ crlf) ?t = Some (length (joinLines (l' # ls)))"
    using 3 by simp
  obtain c t where t: "?t = c # t" "c \<noteq> CHR 0x0D"
    using "3.prems"(2) by (cases l'; cases ls) auto
  have "subIndex (crlf @ crlf) (crlf @ ?t) = Some (2 + length (joinLines (l' # ls)))"
    using IH t by (simp add: crlf_def)
  then show ?case
    using subIndex_skip [of "CHR 0x0D" l "[CHR 0x0A, CHR 0x0D, CHR 0x0A]" "crlf @ ?t"] "3.prems"(2) by (simp add: crlf_def)
qed simp

lemma inj_byte_of_char: "inj byte_of_char"
  by (rule injI) (metis char_of_byte_of_char)

lemma headerSep_index: "subIndex headerSep (bytes_of s) = subIndex (crlf @ crlf) s"
  unfolding headerSep_def bytes_of_def by (rule subIndex_map [OF inj_byte_of_char])

text \<open>The text of a request.\<close>

definition entryLine :: "string \<times> string \<Rightarrow> string" where
  "entryLine kv = fst kv @ '': '' @ snd kv"

definition requestLines :: "string \<Rightarrow> string \<Rightarrow> string \<Rightarrow> (string \<times> string) list \<Rightarrow> string list" where
  "requestLines m uri proto kvs = (m @ '' '' @ uri @ '' '' @ proto) # map entryLine kvs"

definition entryOk :: "string \<times> string \<Rightarrow> bool" where
  "entryOk kv \<longleftrightarrow> fst kv \<noteq> [] \<and> list_all tokenChar (fst kv) \<and> noCR (snd kv)"

lemma tokenChar_not: "tokenChar c \<Longrightarrow> c \<noteq> CHR '' '' \<and> c \<noteq> CHR '':'' \<and> c \<noteq> CHR 0x0D"
  by (auto simp: tokenChar_def)

lemma entryLine_ok: "entryOk kv \<Longrightarrow> entryLine kv \<noteq> [] \<and> noCR (entryLine kv)"
  by (auto simp: entryOk_def entryLine_def list_all_iff dest: tokenChar_not)

lemma headerLine_entry:
  assumes "entryOk (k, v)"
  shows "headerLine (entryLine (k, v)) acc = (if equalFold k ''host'' then v else fst acc, headerSet (snd acc) k v)"
proof -
  have k: "k \<noteq> []" "\<And>c. c \<in> set k \<Longrightarrow> tokenChar c"
    using assms by (auto simp: entryOk_def list_all_iff)
  have "splitN 2 '' '' ((k @ '':'') @ CHR '' '' # v) = [k @ '':'', v]"
    using splitN_first [of "CHR '' ''" "k @ '':''" 0 v] k(2) tokenChar_not by (fastforce simp: numeral_2_eq_2)
  moreover have "trimRight '': '' (k @ '':'') = k"
  proof -
    have "last k \<notin> set '': ''"
      using tokenChar_not [OF k(2) [OF last_in_set [OF k(1)]]] by auto
    then show ?thesis
      using trimRight_snoc [of "CHR '':''" "'': ''" k] trimRight_id [of k "'': ''"] by simp
  qed
  ultimately show ?thesis
    by (simp add: headerLine_def entryLine_def)
qed

definition hostOf :: "(string \<times> string) list \<Rightarrow> string" where
  "hostOf kvs = fold (\<lambda>(k, v) h. if equalFold k ''host'' then v else h) kvs []"

lemma fold_headerLine:
  "list_all entryOk kvs \<Longrightarrow>
    fold headerLine (map entryLine kvs) (h, vals) = (fold (\<lambda>(k, v) h. if equalFold k ''host'' then v else h) kvs h, setAll kvs vals)"
proof (induction kvs arbitrary: h vals)
  case (Cons kv kvs)
  then show ?case
    by (cases kv) (simp add: headerLine_entry setAll_def)
qed (simp add: setAll_def)

text \<open>A word of the request line.\<close>

abbreviation word :: "string \<Rightarrow> bool" where
  "word s \<equiv> CHR '' '' \<notin> set s \<and> noCR s"

lemma parseHeader_text:
  assumes "word m" and "word uri" and "noCR proto" and "list_all entryOk kvs" and "url_ParseRequestURI uri = Some u"
  shows "parseHeader up (bytes_of (joinLines (requestLines m uri proto kvs))) =
    Ok \<lparr>hd_Method = strToUpper up m, hd_Proto = strToUpper up proto, hd_Host = hostOf kvs,
        hd_URL = Some (if u_Host u = [] \<and> hostOf kvs \<noteq> [] then u\<lparr>u_Host := hostOf kvs\<rparr> else u), hd_Values = setAll kvs []\<rparr>"
proof -
  have "list_all noCR (requestLines m uri proto kvs)"
    using assms(1-4) entryLine_ok by (auto simp: requestLines_def list_all_iff)
  then have "split crlf (joinLines (requestLines m uri proto kvs)) = requestLines m uri proto kvs"
    by (intro split_joinLines) (simp add: requestLines_def)
  moreover have "splitN 3 '' '' (m @ '' '' @ uri @ '' '' @ proto) = [m, uri, proto]"
    using splitN_first [of "CHR '' ''" m 1 "uri @ '' '' @ proto"] splitN_first [of "CHR '' ''" uri 0 proto] assms(1,2)
    by (simp add: numeral_3_eq_3)
  ultimately show ?thesis
    using fold_headerLine [OF assms(4), of "[]" "[]"] assms(5) by (simp add: parseHeader_def requestLines_def hostOf_def Let_def)
qed

definition parsedHeader :: "string \<Rightarrow> URL \<Rightarrow> string \<Rightarrow> (string \<times> string) list \<Rightarrow> Header" where
  "parsedHeader m u proto kvs =
     \<lparr>hd_Method = m, hd_Proto = proto, hd_Host = hostOf kvs,
      hd_URL = Some (if u_Host u = [] \<and> hostOf kvs \<noteq> [] then u\<lparr>u_Host := hostOf kvs\<rparr> else u), hd_Values = setAll kvs []\<rparr>"

text \<open>What is asked of a request to be parsed back.\<close>

definition requestOk :: "string \<Rightarrow> string \<Rightarrow> string \<Rightarrow> (string \<times> string) list \<Rightarrow> bool" where
  "requestOk m uri proto kvs \<longleftrightarrow>
     word m \<and> ascii m \<and> map toUpperChar m = m \<and> word uri \<and> noCR proto \<and> ascii proto \<and> map toUpperChar proto = proto \<and>
     list_all entryOk kvs"

definition requestText :: "string \<Rightarrow> string \<Rightarrow> string \<Rightarrow> (string \<times> string) list \<Rightarrow> bytes" where
  "requestText m uri proto kvs = bytes_of (joinLines (requestLines m uri proto kvs) @ crlf @ crlf)"

lemma length_joinLines: "ls \<noteq> [] \<Longrightarrow> length (joinLines ls) + 2 = sum_list (map (\<lambda>l. length l + 2) ls)"
proof (induction ls rule: joinLines.induct)
  case (3 l l' ls)
  then have "length (joinLines (l' # ls)) + 2 = sum_list (map (\<lambda>l. length l + 2) (l' # ls))"
    by simp
  then show ?case
    by (simp add: crlf_def)
qed simp_all

lemma length_requestText:
  "length (requestText m uri proto kvs) = length m + length uri + length proto + 6 + sum_list (map (\<lambda>(k, v). length k + length v + 4) kvs)"
proof -
  have "sum_list (map ((\<lambda>l. Suc (Suc (length l))) \<circ> entryLine) kvs) = sum_list (map (\<lambda>(k, v). length k + length v + 4) kvs)"
    by (induction kvs) (auto simp: entryLine_def)
  then show ?thesis
    using length_joinLines [of "requestLines m uri proto kvs"] by (simp add: requestText_def requestLines_def crlf_def)
qed

context live_source
begin

lemma PeekHeader_text:
  assumes "good s" and "requestOk m uri proto kvs" and "url_ParseRequestURI uri = Some u"
    and "content s = requestText m uri proto kvs @ rest"
    and "length (requestText m uri proto kvs) + 2 * ExtendingSize \<le> MaxBufferSize"
  shows "\<exists>r'. PeekHeader up rd (NewHeaderReader s) = Some (Ok (parsedHeader m u proto kvs), r') \<and> good (hr_r r') \<and>
    hrContent content r' = content s"
proof -
  let ?r = "NewHeaderReader s" and ?ls = "requestLines m uri proto kvs"
  have ok: "word m" "word uri" "noCR proto" "list_all entryOk kvs" "strToUpper up m = m" "strToUpper up proto = proto"
    using assms(2) by (auto simp: requestOk_def strToUpper_ascii)
  have ls: "?ls \<noteq> []" "list_all (\<lambda>l. l \<noteq> [] \<and> noCR l) ?ls"
    using ok entryLine_ok by (auto simp: requestLines_def list_all_iff)
  have new: "hrOk ?r" "hrContent content ?r = content s" "clean (hr_end ?r) (hr_buff ?r)" "hr_r ?r = s"
    by (simp_all add: hrOk_def NewHeaderReader_def hrContent_def http_sizes clean_def zeros_def)
  have "content s = bytes_of (joinLines ?ls @ crlf @ crlf @ string_of rest)"
    by (simp add: assms(4) requestText_def)
  then have idx: "subIndex headerSep (hrContent content ?r) = Some (length (joinLines ?ls))"
    using subIndex_header [OF ls, of "string_of rest"] by (simp only: new(2) headerSep_index)
  have take: "take (length (joinLines ?ls)) (hrContent content ?r) = bytes_of (joinLines ?ls)"
    by (simp add: new(2) assms(4) requestText_def)
  have parsed: "parseHeader up (bytes_of (joinLines ?ls)) = Ok (parsedHeader m u proto kvs)"
    using parseHeader_text [OF ok(1-4) assms(3), of up] ok(5,6) by (simp add: parsedHeader_def)
  have len: "length (joinLines ?ls) + 4 + 2 * ExtendingSize \<le> MaxBufferSize"
    using assms(5) by (simp add: requestText_def crlf_def)
  show ?thesis
    using PeekHeader_finds [OF new(1) _ new(3) idx len, of up] assms(1) by (auto simp: new(2,4) take [unfolded new(2)] parsed)
qed

end

text \<open>What \<open>WriteTo\<close> writes.\<close>

definition writtenEntries :: "Header \<Rightarrow> URL \<Rightarrow> (string \<times> string) list" where
  "writtenEntries h u =
     concat (map (\<lambda>(k, vs). map (Pair k) vs) (hd_Values h)) @
     (if \<not> list_ex (\<lambda>(k, vs). equalFold k ''host'') (hd_Values h) \<and> 0 < length (u_Host u) then [(''Host'', u_Host u)] else [])"

lemma writeValues_buffer:
  "writeValues bufferWrite k vs tot b =
    Some (Ok (tot + length (concat (map (\<lambda>v. entryLine (k, v) @ crlf) vs))), b @ bytes_of (concat (map (\<lambda>v. entryLine (k, v) @ crlf) vs)))"
  by (induction vs arbitrary: tot b) (simp_all add: io_simps bufferWrite_def entryLine_def bytes_of_def bind_def)

lemma writeNames_buffer:
  "writeNames bufferWrite hs tot hostSet b =
    (let t = concat (map (\<lambda>(k, vs). concat (map (\<lambda>v. entryLine (k, v) @ crlf) vs)) hs)
     in Some (Ok (tot + length t, hostSet \<or> list_ex (\<lambda>(k, vs). equalFold k ''host'') hs), b @ bytes_of t))"
proof (induction hs arbitrary: tot hostSet b)
  case Nil
  then show ?case by (simp add: io_simps bytes_of_def)
next
  case (Cons e hs)
  then show ?case
    by (cases e) (simp add: io_simps writeValues_buffer bind_def Let_def add.assoc)
qed

lemma WriteTo_text:
  assumes "hd_URL h = Some u"
  shows "Header_WriteTo up bufferWrite h b =
    (let t = concat (map (\<lambda>l. l @ crlf) (requestLines (strToUpper up (hd_Method h)) (requestURI u) (hd_Proto h) (writtenEntries h u))) @ crlf
     in Some (Ok (length t), b @ bytes_of t))"
proof -
  have vals: "concat (map (\<lambda>(k, vs). concat (map (\<lambda>v. entryLine (k, v) @ crlf) vs)) hs) =
      concat (map (\<lambda>l. l @ crlf) (map entryLine (concat (map (\<lambda>(k, vs). map (Pair k) vs) hs))))" for hs :: httpHeader
    by (induction hs) (auto simp: comp_def)
  define t where "t = concat (map ((\<lambda>l. l @ crlf) \<circ> entryLine) (concat (map (\<lambda>(k, vs). map (Pair k) vs) (hd_Values h))))"
  have names: "writeNames bufferWrite (hd_Values h) tot False b =
      Some (Ok (tot + length t, list_ex (\<lambda>(k, vs). equalFold k ''host'') (hd_Values h)), b @ bytes_of t)" for tot b
    by (simp add: writeNames_buffer Let_def vals t_def)
  show ?thesis
    using assms
    by (simp add: Header_WriteTo_def bind_def bufferWrite_def names ret_def Let_def requestLines_def
        writtenEntries_def t_def [symmetric] entryLine_def bytes_of_def)
qed

lemma WriteTo_request:
  assumes "hd_URL h = Some u" and "requestOk (hd_Method h) (requestURI u) (hd_Proto h) (writtenEntries h u)"
  shows "Header_WriteTo up bufferWrite h b =
    (let t = requestText (hd_Method h) (requestURI u) (hd_Proto h) (writtenEntries h u) in Some (Ok (length t), b @ t))"
proof -
  let ?ls = "requestLines (hd_Method h) (requestURI u) (hd_Proto h) (writtenEntries h u)"
  have "concat (map (\<lambda>l. l @ crlf) ?ls) @ crlf = joinLines ?ls @ crlf @ crlf"
    by (subst concat_lines) (simp_all add: requestLines_def)
  moreover have "strToUpper up (hd_Method h) = hd_Method h"
    using assms(2) by (simp add: requestOk_def strToUpper_ascii)
  ultimately show ?thesis
    using WriteTo_text [OF assms(1), of up b] by (simp add: requestText_def Let_def)
qed

section \<open>Reading a response\<close>

lemma respLines_append:
  "respLines (a @ d) i rs =
     (case respLines a i rs of More a' i' rs' \<Rightarrow> respLines (a' @ d) i' rs' | Done r \<Rightarrow> Done r | Fail e \<Rightarrow> Fail e)"
proof (induction a i rs rule: respLines.induct)
  case (1 a i rs)
  show ?case
  proof (cases "subIndex (bytes_of crlf) a")
    case None
    then show ?thesis
      by (simp add: respLines_None)
  next
    case (Some p)
    have p: "p + 2 \<le> length a"
      using subIndex_bound [OF Some] by (simp add: crlf_def)
    have step: "respLines (a @ d) i rs =
        (if 0 < length (take p a) then
           (case respLine (take p a) i rs of
              Ok rs' \<Rightarrow> respLines (drop (p + 2) a @ d) (i + 1) rs' | Err e \<Rightarrow> Fail e | Panic \<Rightarrow> Fail EOF)
         else Done rs)"
    proof -
      have "drop (p + 2) (a @ d) = drop (p + 2) a @ d" "take p (a @ d) = take p a"
        using p by simp_all
      with respLines_Some [OF subIndex_append [OF Some], of d i rs] show ?thesis
        by (simp only:)
    qed
    show ?thesis
      using "1.IH" [OF Some] unfolding step respLines_Some [OF Some] by (auto split: res.split)
  qed
qed

lemma respLines_rest:
  "respLines a i rs = More a' i' rs' \<Longrightarrow> length a' \<le> length a \<and> subIndex (bytes_of crlf) a' = None"
proof (induction a i rs rule: respLines.induct)
  case (1 a i rs)
  show ?case
  proof (cases "subIndex (bytes_of crlf) a")
    case None
    with "1.prems" show ?thesis
      by (simp add: respLines_None)
  next
    case (Some p)
    from "1.prems" obtain rs'' where r: "0 < length (take p a)" "respLine (take p a) i rs = Ok rs''"
      "respLines (drop (p + 2) a) (i + 1) rs'' = More a' i' rs'"
      unfolding respLines_Some [OF Some] by (auto split: if_splits res.splits)
    from "1.IH" [OF Some r] show ?thesis
      by auto
  qed
qed

text \<open>What \<open>ReadResponse\<close> returns on a stream.\<close>

definition respSpec :: "respState \<Rightarrow> Response res" where
  "respSpec st = (case st of Done r \<Rightarrow> Ok r | Fail e \<Rightarrow> Err e | More b i rs \<Rightarrow> Err EOF)"

context byte_source
begin

lemma readResponseLoop_spec:
  assumes "good s"
  shows "\<exists>x s'. readResponseLoop rd buf i rs s = Some (x, s') \<and> good s' \<and> x \<noteq> Panic \<and>
    (length buf + length (content s) \<le> 1024 * 16 \<and> subIndex (bytes_of crlf) buf = None \<longrightarrow> x = respSpec (respLines (buf @ content s) i rs))"
  using assms
proof (induction "(length (content s), rank s)" arbitrary: buf i rs s rule: wf_induct_rule [OF wf_lex_prod [OF wf_less wf_less]])
  case less: 1
  obtain r s1 where step: "rd 1024 s = Some (r, s1)" and ok: "source_step content good rank 1024 s r s1"
    using rd_step [OF less.prems, of 1024] by auto
  show ?case
  proof (cases r)
    case (Ok d)
    with ok have d: "content s = d @ content s1" "d = [] \<longrightarrow> rank s1 < rank s" "good s1"
      by (auto simp: source_step_def)
    have smaller: "((length (content s1), rank s1), (length (content s), rank s)) \<in> {(x, y). x < y} <*lex*> {(x, y). x < y}"
      using d by (cases d) auto
    show ?thesis
    proof (cases "1024 * 16 < length buf + length d")
      case True
      with step Ok d show ?thesis
        by (subst readResponseLoop.simps) auto
    next
      case False
      show ?thesis
      proof (cases "respLines (buf @ d) i rs")
        case (More buf' i' rs')
        have len: "length buf' \<le> length buf + length d" and none: "subIndex (bytes_of crlf) buf' = None"
          using respLines_rest [OF More] by simp_all
        from less.hyps [OF smaller d(3), of buf' i' rs'] len none More step Ok False d(1) show ?thesis
          by (subst readResponseLoop.simps) (auto simp: respLines_append [of "buf @ d" "content s1", simplified])
      next
        case (Done r')
        with step Ok False d show ?thesis
          by (subst readResponseLoop.simps) (auto simp: respSpec_def respLines_append [of "buf @ d" "content s1", simplified])
      next
        case (Fail e)
        with step Ok False d show ?thesis
          by (subst readResponseLoop.simps) (auto simp: respSpec_def respLines_append [of "buf @ d" "content s1", simplified])
      qed
    qed
  next
    case (Err e)
    with Err step ok show ?thesis
      by (subst readResponseLoop.simps) (auto simp: source_step_def respSpec_def respLines_None)
  next
    case Panic
    with ok show ?thesis
      by (simp add: source_step_def)
  qed
qed

end

text \<open>Responses as text.\<close>

definition trimmed :: "string \<Rightarrow> bool" where
  "trimmed v \<longleftrightarrow> v = [] \<or> (printable (hd v) \<and> printable (last v))"

lemma tokenChar_printable: "tokenChar c \<Longrightarrow> printable c"
  by (auto simp: tokenChar_def printable_def)

lemma parseHeaderLine_entry:
  assumes "entryOk (k, v)" and "trimmed v"
  shows "parseHeaderLine (bytes_of (entryLine (k, v))) = Ok (k, v)"
proof -
  have k: "k \<noteq> []" "\<And>c. c \<in> set k \<Longrightarrow> tokenChar c"
    using assms(1) by (auto simp: entryOk_def list_all_iff)
  have "subIndex '':'' (k @ '':'' @ CHR '' '' # v) = Some (length k)"
    by (rule subIndex_first) (use k(2) tokenChar_not in blast)
  moreover have "trimSpace k = k"
    by (rule trimSpace_printable) (use k tokenChar_printable in \<open>auto\<close>)
  moreover have "trimSpace (CHR '' '' # v) = v"
    by (rule trimSpace_space) (use assms(2) in \<open>simp add: trimmed_def\<close>)
  ultimately show ?thesis
    by (simp add: parseHeaderLine_def entryLine_def del: bytes_of_append)
qed

lemma respLines_line:
  assumes "noCR l" and "l \<noteq> []"
  shows "respLines (bytes_of (l @ crlf @ t)) i rs =
    (case respLine (bytes_of l) i rs of Ok rs' \<Rightarrow> respLines (bytes_of t) (i + 1) rs' | Err e \<Rightarrow> Fail e | Panic \<Rightarrow> Fail EOF)"
proof -
  have "subIndex (bytes_of crlf) (bytes_of (l @ crlf @ t)) = subIndex crlf (l @ crlf @ t)"
    unfolding bytes_of_def by (rule subIndex_map [OF inj_byte_of_char])
  also have "\<dots> = Some (length l)"
    using subIndex_first [of "CHR 0x0D" l "[CHR 0x0A]" t] assms(1) by (simp add: crlf_def)
  finally have "respLines (bytes_of (l @ crlf @ t)) i rs =
      (if 0 < length (take (length l) (bytes_of (l @ crlf @ t))) then
         (case respLine (take (length l) (bytes_of (l @ crlf @ t))) i rs of
            Ok rs' \<Rightarrow> respLines (drop (length l + 2) (bytes_of (l @ crlf @ t))) (i + 1) rs' | Err e \<Rightarrow> Fail e | Panic \<Rightarrow> Fail EOF)
       else Done rs)"
    by (rule respLines_Some)
  moreover have "take (length l) (bytes_of (l @ crlf @ t)) = bytes_of l" "drop (length l + 2) (bytes_of (l @ crlf @ t)) = bytes_of t"
    by (simp_all add: bytes_of_def crlf_def)
  ultimately show ?thesis
    using assms(2) by (simp only: length_bytes_of) simp
qed

lemma respLines_entries:
  assumes "list_all (\<lambda>(k, v). entryOk (k, v) \<and> trimmed v) kvs" and "0 < i"
  shows "respLines (bytes_of (concat (map (\<lambda>l. l @ crlf) (map entryLine kvs)) @ crlf @ t)) i rs =
    Done (rs\<lparr>rs_Header := setAll kvs (rs_Header rs)\<rparr>)"
  using assms
proof (induction kvs arbitrary: i rs)
  case Nil
  have "subIndex (bytes_of crlf) (bytes_of (crlf @ t)) = subIndex crlf (crlf @ t)"
    unfolding bytes_of_def by (rule subIndex_map [OF inj_byte_of_char])
  also have "\<dots> = Some 0"
    by (simp add: crlf_def)
  finally show ?case
    by (simp add: respLines_Some setAll_def)
next
  case (Cons kv kvs)
  obtain k v where kv: "kv = (k, v)" by fastforce
  have ok: "entryOk (k, v)" "trimmed v"
    using Cons.prems kv by auto
  have "respLine (bytes_of (entryLine (k, v))) i rs = Ok (rs\<lparr>rs_Header := headerSet (rs_Header rs) k v\<rparr>)"
    using parseHeaderLine_entry [OF ok] Cons.prems(2) by (simp add: respLine_def)
  with respLines_line [of "entryLine (k, v)"] entryLine_ok [OF ok(1)] Cons show ?case
    by (simp add: kv setAll_def del: bytes_of_append)
qed

section \<open>Properties\<close>

text \<open>Peeking a header is safe on every input: for every connection \<open>PeekHeader\<close> returns (it neither panics nor
  loops), keeps at most 16 KiB, and takes nothing away: \<open>io.ReadFull\<close> on the header reader afterwards
  returns what it returns on the connection itself.\<close>

theorem peek_keeps_stream:
  "\<exists>x r'. PeekHeader up connRead (NewHeaderReader segs) = Some (x, r') \<and> x \<noteq> Panic \<and> length (hr_buff r') \<le> MaxBufferSize \<and>
    (\<exists>r''. readFull (HeaderReader_Read connRead) n r' = Some (fullSpec n (concat segs), r''))"
proof -
  have new: "hrOk (NewHeaderReader segs)" "hrContent concat (NewHeaderReader segs) = concat segs"
    by (simp_all add: hrOk_def NewHeaderReader_def hrContent_def http_sizes)
  obtain x r' where r': "PeekHeader up connRead (NewHeaderReader segs) = Some (x, r')" "hrOk r'" "hrContent concat r' = concat segs" "x \<noteq> Panic"
    using byte_source.PeekHeader_total [OF conn.byte_source_axioms new(1), of up] new(2) by auto
  moreover obtain r'' where "readFull (HeaderReader_Read connRead) n r' = Some (fullSpec n (concat segs), r'')"
    using hconn.hr.full.rf_spec [of r' n] r'(2,3) by auto
  ultimately show ?thesis
    by (auto simp: hrOk_def)
qed

text \<open>C30. A request header that \<open>WriteTo\<close> wrote, followed by anything and cut into segments in any way, is
  parsed back by \<open>PeekHeader\<close>: the same method and protocol, the URL of the request line, and under
  every name the value that was written, for headers of at most 12 KiB whose names are distinct
  tokens and whose values are free of carriage returns.\<close>

theorem header_roundtrip:
  assumes "hd_URL h = Some u" and "url_ParseRequestURI (requestURI u) = Some u'"
    and "requestOk (hd_Method h) (requestURI u) (hd_Proto h) (writtenEntries h u)"
    and "distinct (map (canonicalKey \<circ> fst) (writtenEntries h u))"
  shows "\<exists>b. Header_WriteTo up bufferWrite h [] = Some (Ok (length b), b) \<and>
    (length b + 2 * ExtendingSize \<le> MaxBufferSize \<longrightarrow> (\<forall>segs rest. concat segs = b @ rest \<and> [] \<notin> set segs \<longrightarrow>
      (\<exists>h' r'. PeekHeader up connRead (NewHeaderReader segs) = Some (Ok h', r') \<and>
        hd_Method h' = hd_Method h \<and> hd_Proto h' = hd_Proto h \<and>
        hd_URL h' = Some (if u_Host u' = [] \<and> hd_Host h' \<noteq> [] then u'\<lparr>u_Host := hd_Host h'\<rparr> else u') \<and>
        list_all (\<lambda>(k, v). headerGet (hd_Values h') k = v) (writtenEntries h u))))"
proof -
  let ?kvs = "writtenEntries h u"
  define b where "b = requestText (hd_Method h) (requestURI u) (hd_Proto h) ?kvs"
  have w: "Header_WriteTo up bufferWrite h [] = Some (Ok (length b), b)"
    using WriteTo_request [OF assms(1,3), of up "[]"] by (simp add: b_def Let_def)
  have get: "list_all (\<lambda>(k, v). headerGet (setAll ?kvs []) k = v) ?kvs"
    using setAll_get [OF assms(4)] by (auto simp: list_all_iff)
  have "\<exists>h' r'. PeekHeader up connRead (NewHeaderReader segs) = Some (Ok h', r') \<and>
      hd_Method h' = hd_Method h \<and> hd_Proto h' = hd_Proto h \<and>
      hd_URL h' = Some (if u_Host u' = [] \<and> hd_Host h' \<noteq> [] then u'\<lparr>u_Host := hd_Host h'\<rparr> else u') \<and>
      list_all (\<lambda>(k, v). headerGet (hd_Values h') k = v) ?kvs"
    if "length b + 2 * ExtendingSize \<le> MaxBufferSize" "concat segs = b @ rest" "[] \<notin> set segs" for segs rest
  proof -
    note that' = that
    obtain r' where "PeekHeader up connRead (NewHeaderReader segs) = Some (Ok (parsedHeader (hd_Method h) u' (hd_Proto h) ?kvs), r')"
      using lconn.PeekHeader_text [OF that'(3) assms(3,2) that'(2) [unfolded b_def], of up] that'(1) [unfolded b_def] by blast
    with get show ?thesis
      by (auto simp: parsedHeader_def)
  qed
  with w show ?thesis
    by blast
qed

theorem header_roundtrip_witness:
  "\<exists>b h' r'. Header_WriteTo (\<lambda>s. s) bufferWrite
      \<lparr>hd_Method = ''GET'', hd_Proto = ''HTTP/1.1'', hd_Host = [], hd_URL = Some (emptyURL\<lparr>u_Path := ''/a'', u_RawQuery := ''c=x''\<rparr>),
        hd_Values = [(''Upgrade'', [''websocket''])]\<rparr> [] = Some (Ok (length b), b) \<and>
    PeekHeader (\<lambda>s. s) connRead (NewHeaderReader (map (\<lambda>x. [x]) b)) = Some (Ok h', r') \<and>
    hd_Method h' = ''GET'' \<and> headerGet (hd_Values h') ''Upgrade'' = ''websocket''"
proof -
  let ?u = "emptyURL\<lparr>u_Path := ''/a'', u_RawQuery := ''c=x''\<rparr>"
  let ?h = "\<lparr>hd_Method = ''GET'', hd_Proto = ''HTTP/1.1'', hd_Host = [], hd_URL = Some ?u,
        hd_Values = [(''Upgrade'', [''websocket''])]\<rparr>"
  have es: "writtenEntries ?h ?u = [(''Upgrade'', ''websocket'')]"
    by (simp add: writtenEntries_def emptyURL_def)
  have uri: "requestURI ?u = ''/a?c=x''"
    by (simp add: requestURI_def escapedPath_def emptyURL_def shouldEscape_def alphaNum_def validEncodedPath_def)
  have u: "url_ParseRequestURI (requestURI ?u) = Some ?u"
    unfolding uri using parseRequestURI_plain [of "''a''" "''x''" "''c=x''" "CHR ''c''"]
    by (simp add: plainPath_def queryChar_def alphaNum_def)
  have ok: "requestOk (hd_Method ?h) (requestURI ?u) (hd_Proto ?h) (writtenEntries ?h ?u)"
    by (simp add: uri es requestOk_def ascii_def toUpperChar_def entryOk_def tokenChar_def)
  have dist: "distinct (map (canonicalKey \<circ> fst) (writtenEntries ?h ?u))"
    by (simp add: es)
  obtain b where w: "Header_WriteTo (\<lambda>s. s) bufferWrite ?h [] = Some (Ok (length b), b)"
    and r: "length b + 2 * ExtendingSize \<le> MaxBufferSize \<longrightarrow> (\<forall>segs rest. concat segs = b @ rest \<and> [] \<notin> set segs \<longrightarrow>
      (\<exists>h' r'. PeekHeader (\<lambda>s. s) connRead (NewHeaderReader segs) = Some (Ok h', r') \<and>
        hd_Method h' = hd_Method ?h \<and> hd_Proto h' = hd_Proto ?h \<and>
        hd_URL h' = Some (if u_Host ?u = [] \<and> hd_Host h' \<noteq> [] then ?u\<lparr>u_Host := hd_Host h'\<rparr> else ?u) \<and>
        list_all (\<lambda>(k, v). headerGet (hd_Values h') k = v) (writtenEntries ?h ?u)))"
    using header_roundtrip [OF _ u ok dist, of "\<lambda>s. s"] by auto
  have "b = requestText ''GET'' ''/a?c=x'' ''HTTP/1.1'' [(''Upgrade'', ''websocket'')]"
    using WriteTo_request [OF _ ok, of "\<lambda>s. s" "[]"] w by (simp add: uri es Let_def)
  then have len: "length b + 2 * ExtendingSize \<le> MaxBufferSize"
    by (simp add: length_requestText http_sizes)
  have "concat (map (\<lambda>x. [x]) b) = b @ [] \<and> [] \<notin> set (map (\<lambda>x. [x]) b)"
    by (induction b) auto
  from r [rule_format, OF len this]
  have "\<exists>h' r'. PeekHeader (\<lambda>s. s) connRead (NewHeaderReader (map (\<lambda>x. [x]) b)) = Some (Ok h', r') \<and>
      hd_Method h' = ''GET'' \<and> headerGet (hd_Values h') ''Upgrade'' = ''websocket''"
    by (auto simp: es)
  with w show ?thesis
    by blast
qed

text \<open>C31. \<open>ReadResponse\<close> depends on the bytes only, not on the segments in which they arrive: it always returns,
  and on a stream of at most 16 KiB the result is the one of scanning the lines of the whole stream
  (\<open>io.EOF\<close> when the empty line is missing).\<close>

theorem read_response:
  "\<exists>x segs'. ReadResponse connRead segs = Some (x, segs') \<and> x \<noteq> Panic \<and>
    (1024 * 16 < length (concat segs) \<or> x = respSpec (respLines (concat segs) 0 \<lparr>rs_StatusCode = 0, rs_Header = []\<rparr>))"
proof -
  have "subIndex (bytes_of crlf) [] = None"
    by (simp add: bytes_of_def crlf_def)
  with byte_source.readResponseLoop_spec [OF conn.byte_source_axioms TrueI, where s = segs and buf = "[]" and i = 0 and rs = "\<lparr>rs_StatusCode = 0, rs_Header = []\<rparr>"]
  show ?thesis
    by (fastforce simp: ReadResponse_def)
qed

text \<open>\<open>ReadResponse\<close> throws away what follows the header: bytes that arrive together with the end of the
  header are taken from the connection and returned to nobody.\<close>

theorem read_response_drops:
  "\<exists>rs. ReadResponse connRead [bytes_of (''HTTP/1.1 200 OK'' @ crlf @ crlf @ ''data'')] = Some (Ok rs, []) \<and> rs_StatusCode rs = 200"
proof -
  let ?rs = "\<lparr>rs_StatusCode = 200, rs_Header = []\<rparr>"
  have l: "respLine (bytes_of ''HTTP/1.1 200 OK'') 0 \<lparr>rs_StatusCode = 0, rs_Header = []\<rparr> = Ok ?rs"
    by (simp add: respLine_def parseResponseLine_def parseInt64_def parseDigits_def isDigit_def numeral_3_eq_3)
  have "respLines (bytes_of (''HTTP/1.1 200 OK'' @ crlf @ crlf @ ''data'')) 0 \<lparr>rs_StatusCode = 0, rs_Header = []\<rparr> = Done ?rs"
    using respLines_line [of "''HTTP/1.1 200 OK''" "crlf @ ''data''" 0 "\<lparr>rs_StatusCode = 0, rs_Header = []\<rparr>"]
      respLines_entries [of "[]" 1 "''data''" ?rs]
    by (simp add: l setAll_def del: bytes_of_append)
  moreover have "connRead 1024 [bytes_of (''HTTP/1.1 200 OK'' @ crlf @ crlf @ ''data'')] =
      Some (Ok (bytes_of (''HTTP/1.1 200 OK'' @ crlf @ crlf @ ''data'')), [])"
    by (simp add: crlf_def del: bytes_of_append)
  ultimately show ?thesis
    by (subst ReadResponse_def) (subst readResponseLoop.simps, simp add: crlf_def del: bytes_of_append)
qed

end
