(* ===== verification/Duplex.thy ===== *)
theory Duplex
  imports Http
begin

text \<open>
  A network connection as both ends of the handshakes use it: the segments that the peer sends and the
  bytes that were written. It provides the two interfaces for what reads.
\<close>

section \<open>A connection in both directions\<close>

text \<open>What the peer sends, in segments, and what was written.\<close>

type_synonym duplex = "bytes list \<times> bytes"

definition duplexRead :: "duplex reader" where
  "duplexRead n s = (case connRead n (fst s) of None \<Rightarrow> None | Some (r, segs) \<Rightarrow> Some (r, (segs, snd s)))"

definition duplexWrite :: "duplex writer" where
  "duplexWrite d s = Some (Ok (length d), (fst s, snd s @ d))"

lemma duplex_step:
  assumes "0 < k"
  shows "\<exists>r s'. duplexRead k s = Some (r, s') \<and> snd s' = snd s \<and>
    source_step (\<lambda>s. concat (fst s)) (\<lambda>_. True) (\<lambda>s. length (fst s)) k s r s' \<and>
    ([] \<notin> set (fst s) \<longrightarrow> source_step (\<lambda>s. concat (fst s)) (\<lambda>s. [] \<notin> set (fst s)) (\<lambda>_. 0) k s r s')"
  using assms by (cases "fst s") (auto simp: duplexRead_def source_step_def simp flip: append_assoc)

interpretation ldup: live_source duplexRead "\<lambda>s. concat (fst s)" "\<lambda>s. [] \<notin> set (fst s) \<and> snd s = out" for out
proof
  fix s :: duplex and k :: nat
  assume "[] \<notin> set (fst s) \<and> snd s = out" "0 < k"
  with duplex_step [of k s]
  show "\<exists>r s'. duplexRead k s = Some (r, s') \<and>
      source_step (\<lambda>s. concat (fst s)) (\<lambda>s. [] \<notin> set (fst s) \<and> snd s = out) (\<lambda>_. 0) k s r s'"
    by (auto simp: source_step_def)
qed

interpretation dup: byte_source duplexRead "\<lambda>s. concat (fst s)" "\<lambda>s. snd s = out" "\<lambda>s. length (fst s)" for out
proof
  fix s :: duplex and k :: nat
  assume "snd s = out" "0 < k"
  with duplex_step [of k s]
  show "\<exists>r s'. duplexRead k s = Some (r, s') \<and>
      source_step (\<lambda>s. concat (fst s)) (\<lambda>s. snd s = out) (\<lambda>s. length (fst s)) k s r s'"
    by (auto simp: source_step_def)
qed

end
