(* ===== verification/RW_Buffer.thy ===== *)
theory RW_Buffer
  imports Prelude
begin

text \<open>
  The blocking buffer \<open>utils/buffer.go\<close> between the goroutine that reads a trunk and the one that
  reads a connection. The sequential part is shown to be a FIFO queue of bytes (interface
  \<open>byte_fifo\<close>). The blocking part is a step relation for one reader and any writers; it shows which
  waiting readers are never woken.
\<close>

section \<open>State and operations\<close>

definition BUF_SIZE :: nat where "BUF_SIZE = 1024 * 4"
definition BUF_SIZE_MAX :: nat where "BUF_SIZE_MAX = 1024 * 1024 * 8"

record ReadWriteBuffer =
  rw_buf :: bytes
  rw_bufLen :: nat
  rw_eof :: bool

definition NewReadWriteBuffer :: ReadWriteBuffer where
  "NewReadWriteBuffer = \<lparr>rw_buf = zeros BUF_SIZE, rw_bufLen = 0, rw_eof = False\<rparr>"

definition RW_Close :: "(unit, ReadWriteBuffer) io" where
  "RW_Close f =
     (if rw_eof f then Some (Err (Errorf ''buffer was closed already.''), f\<lparr>rw_eof := True\<rparr>)
      else Some (Ok (), f\<lparr>rw_eof := True\<rparr>))"

definition readFromBuf :: "nat \<Rightarrow> ReadWriteBuffer \<Rightarrow> bytes \<times> ReadWriteBuffer" where
  "readFromBuf n f =
     (if 0 < rw_bufLen f then
        (let sz = (if rw_bufLen f < n then rw_bufLen f else n);
             sizeRest = rw_bufLen f - sz
         in (take sz (rw_buf f),
             f\<lparr>rw_buf := gocopy (rw_buf f) (drop sz (take (rw_bufLen f) (rw_buf f))), rw_bufLen := sizeRest\<rparr>))
      else ([], f))"

text \<open>The loop that computes the new capacity; \<open>None\<close> is \<open>io.ErrShortBuffer\<close>.\<close>

function growCap :: "nat \<Rightarrow> nat \<Rightarrow> nat option" where
  "growCap capNew sizeAfter =
     (if capNew < sizeAfter then
        (if BUF_SIZE_MAX < capNew + BUF_SIZE then None else growCap (capNew + BUF_SIZE) sizeAfter)
      else Some capNew)"
  by pat_completeness auto
termination
  by (relation "measure (\<lambda>(c, s). s - c)") (auto simp: BUF_SIZE_def)

declare growCap.simps [simp del]

definition RW_Write :: "bytes \<Rightarrow> (nat, ReadWriteBuffer) io" where
  "RW_Write dat f =
     (if rw_eof f then Some (Err EOF, f)
      else
        (let sizeAfter = rw_bufLen f + length dat;
             put = (\<lambda>b. Some (Ok (length dat), f\<lparr>rw_buf := copyAt (rw_bufLen f) dat b, rw_bufLen := sizeAfter\<rparr>))
         in if length (rw_buf f) < sizeAfter then
              (case growCap (length (rw_buf f) + BUF_SIZE) sizeAfter of
                 None \<Rightarrow> Some (Err ErrShortBuffer, f)
               | Some capNew \<Rightarrow> put (gocopy (zeros capNew) (take (rw_bufLen f) (rw_buf f))))
            else put (rw_buf f)))"

text \<open>\<open>Read\<close> up to the point where it would wait on the condition variable (\<open>None\<close>).\<close>

definition RW_tryRead :: "nat \<Rightarrow> (bytes, ReadWriteBuffer) io" where
  "RW_tryRead n f =
     (if n = 0 then Some (Ok [], f)
      else
        (let (d, f') = readFromBuf n f
         in if 0 < length d then Some (Ok d, f')
            else if rw_eof f' then Some (Err EOF, f')
            else None))"

section \<open>The buffer is a FIFO queue\<close>

definition rwContent :: "ReadWriteBuffer \<Rightarrow> bytes" where
  "rwContent f = take (rw_bufLen f) (rw_buf f)"

definition rwOk :: "ReadWriteBuffer \<Rightarrow> bool" where
  "rwOk f \<longleftrightarrow> rw_bufLen f \<le> length (rw_buf f)"

lemma rwContent_New [simp]: "rwContent NewReadWriteBuffer = []" "rwOk NewReadWriteBuffer" "\<not> rw_eof NewReadWriteBuffer"
  by (simp_all add: rwContent_def rwOk_def NewReadWriteBuffer_def)

lemma readFromBuf_spec:
  assumes "rwOk f"
  shows "fst (readFromBuf n f) = take n (rwContent f)" and "rwContent (snd (readFromBuf n f)) = drop n (rwContent f)"
    and "rwOk (snd (readFromBuf n f))" and "rw_eof (snd (readFromBuf n f)) = rw_eof f"
proof -
  let ?l = "rw_bufLen f" and ?b = "rw_buf f"
  define sz where "sz = min ?l n"
  have sz: "(if ?l < n then ?l else n) = sz" by (simp add: sz_def)
  have "take (?l - sz) (gocopy ?b (drop sz (take ?l ?b))) = drop sz (take ?l ?b)"
    using assms by (simp add: gocopy_def rwOk_def)
  moreover have "take sz ?b = take n (take ?l ?b)" "drop sz (take ?l ?b) = drop n (take ?l ?b)"
    using assms by (auto simp: sz_def rwOk_def min_def)
  ultimately show "fst (readFromBuf n f) = take n (rwContent f)" "rwContent (snd (readFromBuf n f)) = drop n (rwContent f)"
    by (simp_all add: readFromBuf_def rwContent_def sz Let_def)
  show "rwOk (snd (readFromBuf n f))" "rw_eof (snd (readFromBuf n f)) = rw_eof f"
    using assms by (auto simp: readFromBuf_def rwOk_def Let_def)
qed

lemma growCap_Some: "growCap c s = Some c' \<Longrightarrow> s \<le> c' \<and> c \<le> c' \<and> (c' = c \<or> c' \<le> BUF_SIZE_MAX)"
proof (induction c s rule: growCap.induct)
  case (1 c s)
  from trans [OF growCap.simps [of c s, symmetric] "1.prems"] "1.IH" show ?case
    by (auto split: if_splits)
qed

lemma growCap_None: "growCap c s = None \<Longrightarrow> BUF_SIZE_MAX < s + BUF_SIZE \<and> c < s"
proof (induction c s rule: growCap.induct)
  case (1 c s)
  from trans [OF growCap.simps [of c s, symmetric] "1.prems"] "1.IH" show ?case
    by (auto split: if_splits)
qed

text \<open>All branches of \<open>Write\<close>: it appends everything, or changes nothing.\<close>

lemma RW_Write_cases:
  assumes "rwOk f"
  obtains (eof) "rw_eof f" and "RW_Write dat f = Some (Err EOF, f)"
  | (short) "\<not> rw_eof f" and "RW_Write dat f = Some (Err ErrShortBuffer, f)" and "BUF_SIZE_MAX < length (rwContent f) + length dat + BUF_SIZE"
      and "BUF_SIZE < length dat"
  | (put) f' where "\<not> rw_eof f" and "RW_Write dat f = Some (Ok (length dat), f')" and "rwOk f'"
      and "rwContent f' = rwContent f @ dat" and "\<not> rw_eof f'"
      and "length (rw_buf f') \<le> max (length (rw_buf f) + BUF_SIZE) BUF_SIZE_MAX"
proof (cases "rw_eof f")
  case True
  then show ?thesis
    by (intro eof) (simp_all add: RW_Write_def)
next
  case False
  let ?l = "rw_bufLen f" and ?s = "rw_bufLen f + length dat"
  let ?put = "\<lambda>b. f\<lparr>rw_buf := copyAt ?l dat b, rw_bufLen := ?s\<rparr>"
  have put: "rwOk (?put b) \<and> rwContent (?put b) = rwContent f @ dat \<and> rw_eof (?put b) = rw_eof f"
    if "take ?l b = take ?l (rw_buf f)" "?s \<le> length b" for b
    using that take_copyAt [of ?l dat b] by (simp add: rwOk_def rwContent_def)
  show ?thesis
  proof (cases "length (rw_buf f) < ?s")
    case grow: True
    show ?thesis
    proof (cases "growCap (length (rw_buf f) + BUF_SIZE) ?s")
      case None
      with False grow have "RW_Write dat f = Some (Err ErrShortBuffer, f)"
        by (simp add: RW_Write_def Let_def)
      then show ?thesis
        using growCap_None [OF None] False assms by (intro short) (auto simp: rwContent_def rwOk_def)
    next
      case (Some c)
      let ?b = "gocopy (zeros c) (take ?l (rw_buf f))"
      from False grow Some have w: "RW_Write dat f = Some (Ok (length dat), ?put ?b)"
        by (simp add: RW_Write_def Let_def)
      have "take ?l ?b = take ?l (rw_buf f)" "?s \<le> length ?b"
        using growCap_Some [OF Some] assms by (simp_all add: gocopy_def rwOk_def)
      from put [OF this] w False growCap_Some [OF Some] show ?thesis
        by (intro that(3) [of "?put ?b"]) auto
    qed
  next
    case fits: False
    with False have "RW_Write dat f = Some (Ok (length dat), ?put (rw_buf f))"
      by (simp add: RW_Write_def Let_def)
    with put [of "rw_buf f"] fits False show ?thesis
      by (intro that(3) [of "?put (rw_buf f)"]) auto
  qed
qed

text \<open>The contract the users of the buffer rely on: a queue of bytes that is open or closed.\<close>

locale byte_fifo =
  fixes put :: "bytes \<Rightarrow> (nat, 'f) io" and get :: "nat \<Rightarrow> (bytes, 'f) io"
    and queue :: "'f \<Rightarrow> bytes" and valid :: "'f \<Rightarrow> bool" and closed :: "'f \<Rightarrow> bool" and limit :: nat
  assumes put_ok: "valid f \<Longrightarrow> \<not> closed f \<Longrightarrow> length d \<le> limit \<Longrightarrow>
      \<exists>f'. put d f = Some (Ok (length d), f') \<and> valid f' \<and> queue f' = queue f @ d \<and> \<not> closed f'"
    and get_ok: "valid f \<Longrightarrow> queue f \<noteq> [] \<Longrightarrow> 0 < n \<Longrightarrow>
      \<exists>f'. get n f = Some (Ok (take n (queue f)), f') \<and> valid f' \<and> queue f' = drop n (queue f) \<and> closed f' = closed f"
begin

text \<open>What was put in small pieces comes out in order.\<close>

lemma put_each:
  assumes "valid f" and "\<not> closed f" and "list_all (\<lambda>d. length d \<le> limit) ds"
  shows "\<exists>f'. writeEach put ds f = Some (Ok (), f') \<and> valid f' \<and> queue f' = queue f @ concat ds \<and> \<not> closed f'"
  using assms
proof (induction ds arbitrary: f)
  case Nil
  then show ?case by (simp add: io_simps)
next
  case (Cons d ds)
  then obtain f1 where f1: "put d f = Some (Ok (length d), f1)" "valid f1" "queue f1 = queue f @ d" "\<not> closed f1"
    using put_ok [of f d] by auto
  with Cons.prems Cons.IH [of f1] obtain f2 where "writeEach put ds f1 = Some (Ok (), f2)" "valid f2"
    "queue f2 = queue f1 @ concat ds" "\<not> closed f2"
    by auto
  with f1 show ?case
    by (simp add: io_simps)
qed

end

interpretation rw: byte_fifo RW_Write RW_tryRead rwContent rwOk rw_eof BUF_SIZE
proof
  fix f and d :: bytes
  assume a: "rwOk f" "\<not> rw_eof f" "length d \<le> BUF_SIZE"
  show "\<exists>f'. RW_Write d f = Some (Ok (length d), f') \<and> rwOk f' \<and> rwContent f' = rwContent f @ d \<and> \<not> rw_eof f'"
    by (rule RW_Write_cases [OF a(1), of d]) (use a in auto)
next
  fix f :: ReadWriteBuffer and n :: nat
  assume a: "rwOk f" "rwContent f \<noteq> []" "0 < n"
  show "\<exists>f'. RW_tryRead n f = Some (Ok (take n (rwContent f)), f') \<and> rwOk f' \<and> rwContent f' = drop n (rwContent f) \<and>
      rw_eof f' = rw_eof f"
    using readFromBuf_spec [OF a(1), of n] a by (auto simp: RW_tryRead_def split: prod.split)
qed

section \<open>Waiting readers\<close>

text \<open>One call of \<open>Read\<close> as a program counter: before the first \<open>readFromBuf\<close>, before the test of \<open>eof\<close>,
  before \<open>cond.L.Lock(); cond.Wait()\<close>, asleep, awake (holding \<open>cond.L\<close>), at the \<open>cond.L.Lock()\<close> of the
  next round of the loop, which the deferred \<open>Unlock\<close> of the round before has not released, and
  returned.\<close>

datatype pc =
    AtStart nat
  | AtEofCheck nat
  | AtLock nat
  | Waiting nat
  | Woken nat
  | AtRelock nat
  | Returned "bytes res"

fun wake :: "pc \<Rightarrow> pc" where
  "wake (Waiting n) = Woken n"
| "wake p = p"

text \<open>A state: the buffer, the reader, and the bytes that all writers together have written. The steps of
  the reader are the critical sections of the code; a \<open>Write\<close> or \<open>Close\<close> of any other goroutine can
  come between them. There is no step from \<open>AtRelock\<close>: the lock is held by the reader itself.\<close>

type_synonym rw_state = "ReadWriteBuffer \<times> pc \<times> bytes"

inductive rw_step :: "rw_state \<Rightarrow> rw_state \<Rightarrow> bool" where
  zero: "rw_step (f, AtStart 0, w) (f, Returned (Ok []), w)"
| first_hit: "0 < n \<Longrightarrow> readFromBuf n f = (d, f') \<Longrightarrow> d \<noteq> [] \<Longrightarrow> rw_step (f, AtStart n, w) (f', Returned (Ok d), w)"
| first_miss: "0 < n \<Longrightarrow> readFromBuf n f = ([], f') \<Longrightarrow> rw_step (f, AtStart n, w) (f', AtEofCheck n, w)"
| eof_yes: "rw_eof f \<Longrightarrow> rw_step (f, AtEofCheck n, w) (f, Returned (Err EOF), w)"
| eof_no: "\<not> rw_eof f \<Longrightarrow> rw_step (f, AtEofCheck n, w) (f, AtLock n, w)"
| sleep: "rw_step (f, AtLock n, w) (f, Waiting n, w)"
| woken_hit: "readFromBuf n f = (d, f') \<Longrightarrow> d \<noteq> [] \<Longrightarrow> rw_step (f, Woken n, w) (f', Returned (Ok d), w)"
| woken_miss: "readFromBuf n f = ([], f') \<Longrightarrow> rw_step (f, Woken n, w) (f', AtRelock n, w)"
| write_ok: "RW_Write d f = Some (Ok m, f') \<Longrightarrow> rw_step (f, p, w) (f', wake p, w @ d)"
| write_err: "RW_Write d f = Some (Err e, f') \<Longrightarrow> rw_step (f, p, w) (f', p, w)"
| close: "RW_Close f = Some (r, f') \<Longrightarrow> rw_step (f, p, w) (f', p, w)"

inductive_cases rw_step_cases: "rw_step (f, p, w) s'"

definition delivered :: "pc \<Rightarrow> bytes" where
  "delivered p = (case p of Returned (Ok d) \<Rightarrow> d | _ \<Rightarrow> [])"

lemma delivered_simps [simp]:
  "delivered (Returned (Ok d)) = d" "delivered (Returned (Err e)) = []" "delivered (AtStart n) = []"
  "delivered (AtEofCheck n) = []" "delivered (AtLock n) = []" "delivered (Waiting n) = []" "delivered (Woken n) = []"
  "delivered (AtRelock n) = []"
  by (simp_all add: delivered_def)

lemma delivered_wake [simp]: "delivered (wake p) = delivered p"
  by (cases p) simp_all



lemma RW_Write_content:
  assumes "rwOk f" and "RW_Write d f = Some (r, f')"
  shows "rwOk f'" and "rwContent f' = (case r of Ok m \<Rightarrow> rwContent f @ d | _ \<Rightarrow> rwContent f)" and "rw_eof f' = rw_eof f"
  by (rule RW_Write_cases [OF assms(1), of d]; use assms in simp)+

lemma RW_Close_content:
  assumes "RW_Close f = Some (r, f')"
  shows "rwOk f' = rwOk f" and "rwContent f' = rwContent f" and "rw_eof f'"
  using assms by (auto simp: RW_Close_def rwOk_def rwContent_def split: if_splits)



text \<open>States a reader never leaves: asleep on a closed buffer, and blocked on its own lock.\<close>

lemma closed_step:
  assumes "rw_step s s'" and "s = (f, Waiting n, w)" and "rwOk f \<and> rw_eof f"
  shows "\<exists>f' w'. s' = (f', Waiting n, w') \<and> rwOk f' \<and> rw_eof f'"
  using assms
  by (induction rule: rw_step.induct) (auto dest: RW_Write_content RW_Close_content simp: RW_Write_def)

lemma relock_step:
  assumes "rw_step s s'" and "s = (f, AtRelock n, w)"
  shows "\<exists>f' w'. s' = (f', AtRelock n, w')"
  using assms by (induction rule: rw_step.induct) auto

lemma RW_Write_New:
  assumes "length d \<le> BUF_SIZE"
  obtains f where "RW_Write d NewReadWriteBuffer = Some (Ok (length d), f)" and "rwOk f" and "rwContent f = d" and "\<not> rw_eof f"
  using rw.put_ok [OF rwContent_New(2,3) assms] by auto

lemma reader_asleep: "0 < n \<Longrightarrow> rw_step\<^sup>*\<^sup>* (NewReadWriteBuffer, AtStart n, []) (NewReadWriteBuffer, AtLock n, [])"
proof -
  assume "0 < n"
  have miss: "readFromBuf n NewReadWriteBuffer = ([], NewReadWriteBuffer)"
    by (simp add: readFromBuf_def NewReadWriteBuffer_def)
  have "rw_step (NewReadWriteBuffer, AtStart n, []) (NewReadWriteBuffer, AtEofCheck n, [])"
    using \<open>0 < n\<close> miss by (rule rw_step.first_miss)
  moreover have "rw_step (NewReadWriteBuffer, AtEofCheck n, []) (NewReadWriteBuffer, AtLock n, [])"
    by (rule rw_step.eof_no) simp
  ultimately show ?thesis
    by auto
qed

section \<open>Properties\<close>



text \<open>Writes of at most \<open>BUF_SIZE\<close> bytes never fail on an open buffer, however much it holds: everything
  is kept, in order, and the array grows to hold it. The maximum \<open>BUF_SIZE_MAX\<close> is compared only
  when a second increment is needed.\<close>

theorem rw_small_writes_accepted:
  assumes "list_all (\<lambda>d. length d \<le> BUF_SIZE) ds"
  shows "\<exists>f. writeEach RW_Write ds NewReadWriteBuffer = Some (Ok (), f) \<and> rwContent f = concat ds \<and>
    length (concat ds) \<le> length (rw_buf f)"
proof -
  obtain f where f: "writeEach RW_Write ds NewReadWriteBuffer = Some (Ok (), f)" "rwOk f" "rwContent f = concat ds"
    using rw.put_each [OF rwContent_New(2,3) assms] by auto
  moreover have "length (rwContent f) \<le> length (rw_buf f)"
    by (simp add: rwContent_def)
  ultimately show ?thesis
    by auto
qed

text \<open>More than 12 million bytes, past the maximum of 8 MiB.\<close>

theorem rw_small_writes_accepted_witness:
  "\<exists>f. writeEach RW_Write (replicate 3000 (zeros 4096)) NewReadWriteBuffer = Some (Ok (), f) \<and>
    rwContent f = concat (replicate 3000 (zeros 4096)) \<and> BUF_SIZE_MAX < length (rw_buf f)"
proof -
  have len: "length (concat (replicate 3000 (zeros 4096))) = 3000 * 4096"
    by (simp add: length_concat sum_list_replicate)
  show ?thesis
    using rw_small_writes_accepted [of "replicate 3000 (zeros 4096)"] len
    by (auto simp: BUF_SIZE_def BUF_SIZE_MAX_def list_all_length)
qed

text \<open>A write either takes everything or fails and changes nothing: \<open>io.EOF\<close> on a closed buffer,
  \<open>io.ErrShortBuffer\<close> only when more than \<open>BUF_SIZE\<close> bytes are written to an open buffer that would
  then hold more than \<open>BUF_SIZE_MAX - BUF_SIZE\<close>; and the array never grows past the larger of the
  maximum and one increment.\<close>

theorem rw_write_all_or_nothing:
  assumes "rwOk f"
  shows "case RW_Write d f of
      Some (Ok n, f') \<Rightarrow> \<not> rw_eof f \<and> n = length d \<and> rwContent f' = rwContent f @ d \<and> rwOk f' \<and>
        length (rw_buf f') \<le> max (length (rw_buf f) + BUF_SIZE) BUF_SIZE_MAX
    | Some (Err e, f') \<Rightarrow> f' = f \<and> (if rw_eof f then e = EOF
        else e = ErrShortBuffer \<and> BUF_SIZE < length d \<and> BUF_SIZE_MAX - BUF_SIZE < length (rwContent f) + length d)
    | _ \<Rightarrow> False"
  by (rule RW_Write_cases [OF assms, of d]) simp_all

theorem rw_write_all_or_nothing_witness:
  "case RW_Write (zeros 9000) NewReadWriteBuffer of
      Some (Ok n, f') \<Rightarrow> n = 9000 \<and> rwContent f' = zeros 9000
    | _ \<Rightarrow> False"
  using rw_write_all_or_nothing [of NewReadWriteBuffer "zeros 9000"]
  by (auto simp: BUF_SIZE_MAX_def BUF_SIZE_def split: option.splits res.splits)

text \<open>C38. A reader that is asleep when data arrives is woken and returns it: after a write of at least one
  and at most \<open>BUF_SIZE\<close> bytes to an open buffer, the next step of the reader returns the first bytes
  of what the buffer holds.\<close>

theorem rw_wakeup:
  assumes "rwOk f" and "\<not> rw_eof f" and "d \<noteq> []" and "length d \<le> BUF_SIZE" and "0 < n"
  shows "\<exists>f' f''. rw_step (f, Waiting n, w) (f', Woken n, w @ d) \<and>
    rw_step (f', Woken n, w @ d) (f'', Returned (Ok (take n (rwContent f @ d))), w @ d)"
proof -
  obtain f' where f': "RW_Write d f = Some (Ok (length d), f')" "rwOk f'" "rwContent f' = rwContent f @ d"
    using rw.put_ok [OF assms(1,2,4)] by blast
  obtain x f'' where x: "readFromBuf n f' = (x, f'')"
    by fastforce
  then have "x = take n (rwContent f @ d)"
    using readFromBuf_spec(1) [OF f'(2), of n] f'(3) by simp
  moreover from this have "x \<noteq> []"
    using assms(3,5) by simp
  ultimately show ?thesis
    using rw_step.write_ok [OF f'(1), of "Waiting n" w] rw_step.woken_hit [OF x] by auto
qed

theorem rw_wakeup_witness:
  "\<exists>f' f''. rw_step (NewReadWriteBuffer, Waiting 2, []) (f', Woken 2, [] @ [5, 6, 7]) \<and>
    rw_step (f', Woken 2, [] @ [5, 6, 7]) (f'', Returned (Ok (take 2 (rwContent NewReadWriteBuffer @ [5, 6, 7]))), [] @ [5, 6, 7])"
  by (rule rw_wakeup) (simp_all add: BUF_SIZE_def)

text \<open>\<open>Close\<close> does not wake a reader: one that is asleep when the buffer is closed sleeps forever, whatever
  any other goroutine does.\<close>

theorem rw_close_leaves_reader_asleep:
  assumes "rwOk f" and "rw_eof f" and "rw_step\<^sup>*\<^sup>* (f, Waiting n, w) (f', p, w')"
  shows "p = Waiting n"
proof -
  have "\<exists>f' w'. s' = (f', Waiting n, w') \<and> rwOk f' \<and> rw_eof f'" if "rw_step\<^sup>*\<^sup>* (f, Waiting n, w) s'" for s'
    using that
  proof (induction rule: rtranclp_induct)
    case (step s s')
    then show ?case
      using closed_step by blast
  qed (use assms in auto)
  from this [OF assms(3)] show ?thesis
    by auto
qed

theorem rw_close_leaves_reader_asleep_witness:
  "{p. \<exists>f' w'. rw_step\<^sup>*\<^sup>* (NewReadWriteBuffer\<lparr>rw_eof := True\<rparr>, Waiting 1, []) (f', p, w')} = {Waiting 1}"
  using rw_close_leaves_reader_asleep [of "NewReadWriteBuffer\<lparr>rw_eof := True\<rparr>" 1 "[]"]
  by (auto simp: rwOk_def NewReadWriteBuffer_def)

text \<open>A wake-up can be lost: the emptiness test and the wait are not one critical section, so a write
  between them leaves the reader asleep next to its data.\<close>

theorem rw_lost_wakeup:
  "\<exists>f. rw_step\<^sup>*\<^sup>* (NewReadWriteBuffer, AtStart 10, []) (f, Waiting 10, [1, 2, 3]) \<and> rwContent f = [1, 2, 3] \<and> \<not> rw_eof f"
proof -
  obtain f where f: "RW_Write [1, 2, 3] NewReadWriteBuffer = Some (Ok (length [1 :: byte, 2, 3]), f)"
    "rwContent f = [1, 2, 3]" "\<not> rw_eof f"
    using RW_Write_New [of "[1, 2, 3]"] by (auto simp: BUF_SIZE_def)
  have "rw_step (NewReadWriteBuffer, AtLock 10, []) (f, AtLock 10, [1, 2, 3])"
    using rw_step.write_ok [OF f(1), of "AtLock 10" "[]"] by simp
  then have "rw_step\<^sup>*\<^sup>* (NewReadWriteBuffer, AtStart 10, []) (f, AtLock 10, [1, 2, 3])"
    using reader_asleep [of 10] by (simp add: rtranclp.rtrancl_into_rtrancl)
  with f rw_step.sleep [of f 10 "[1, 2, 3]"] show ?thesis
    by (meson rtranclp.rtrancl_into_rtrancl)
qed

text \<open>A reader that is woken and finds nothing, as after a write of no bytes, blocks on the mutex it
  holds itself: the state is reachable, and once there the reader stays there.\<close>

theorem rw_empty_write_deadlock:
  "\<exists>f. rw_step\<^sup>*\<^sup>* (NewReadWriteBuffer, AtStart 10, []) (f, AtRelock 10, []) \<and>
    {p. \<exists>f' w'. rw_step\<^sup>*\<^sup>* (f, AtRelock 10, []) (f', p, w')} = {AtRelock 10}"
proof -
  have stuck: "\<exists>f' w'. s' = (f', AtRelock 10, w')" if "rw_step\<^sup>*\<^sup>* (f, AtRelock 10, []) s'" for f s'
    using that by (induction rule: rtranclp_induct) (auto dest: relock_step)
  obtain f where f: "RW_Write [] NewReadWriteBuffer = Some (Ok (length ([] :: bytes)), f)" "rwOk f" "rwContent f = []"
    using RW_Write_New [of "[]"] by auto
  have "rw_step (NewReadWriteBuffer, Waiting 10, []) (f, Woken 10, [])"
    using rw_step.write_ok [OF f(1), of "Waiting 10" "[]"] by simp
  moreover obtain f' where "rw_step (f, Woken 10, []) (f', AtRelock 10, [])"
  proof -
    have "fst (readFromBuf 10 f) = []"
      using readFromBuf_spec(1) [OF f(2)] f(3) by simp
    then show thesis
      using that rw_step.woken_miss [of 10 f "snd (readFromBuf 10 f)" "[]"] by (metis prod.collapse)
  qed
  moreover have "rw_step (NewReadWriteBuffer, AtLock 10, []) (NewReadWriteBuffer, Waiting 10, [])"
    by (rule rw_step.sleep)
  ultimately have "rw_step\<^sup>*\<^sup>* (NewReadWriteBuffer, AtStart 10, []) (f', AtRelock 10, [])"
    using reader_asleep [of 10] by (meson rtranclp.rtrancl_into_rtrancl zero_less_numeral)
  with stuck show ?thesis
    by (intro exI [of _ f']) fastforce
qed

end
