(* ===== verification/Utils.thy ===== *)
theory Utils
  imports Go_Std
begin

text \<open>
  Small helpers of \<open>utils\<close>: the error test (\<open>io.go\<close>), the test for addresses that may be dialled
  (\<open>ip.go\<close>, with the predicates of \<open>net.IP\<close> it calls) and the random identifiers (\<open>rand.go\<close>). Shown
  here: the address test is membership in a list of address blocks, and identifiers are
  alphanumeric strings of the length asked for.
\<close>

section \<open>io.go\<close>

text \<open>An \<open>error\<close> value is \<open>None\<close> (nil) or an error.\<close>

definition IsIOError :: "goerr option \<Rightarrow> bool" where
  "IsIOError err =
     (case err of
        None \<Rightarrow> False
      | Some e \<Rightarrow> if e = EOF then True else (case e of OpError m \<Rightarrow> True | _ \<Rightarrow> False))"

section \<open>net.IP\<close>

text \<open>An address is a slice of bytes; \<open>To4\<close> gives the 4 byte form of an IPv4 address, also of one in its
  16 byte form.\<close>

definition v4InV6Prefix :: bytes where
  "v4InV6Prefix = replicate 10 0 @ [0xFF, 0xFF]"

definition To4 :: "bytes \<Rightarrow> bytes option" where
  "To4 ip =
     (if length ip = 4 then Some ip
      else if length ip = 16 \<and> take 12 ip = v4InV6Prefix then Some (drop 12 ip)
      else None)"

definition To16 :: "bytes \<Rightarrow> bytes option" where
  "To16 ip = (if length ip = 4 then Some (v4InV6Prefix @ ip) else if length ip = 16 then Some ip else None)"

definition ipEqual :: "bytes \<Rightarrow> bytes \<Rightarrow> bool" where
  "ipEqual ip x \<longleftrightarrow>
     (if length ip = length x then ip = x
      else if length ip = 4 \<and> length x = 16 then take 12 x = v4InV6Prefix \<and> ip = drop 12 x
      else if length ip = 16 \<and> length x = 4 then take 12 ip = v4InV6Prefix \<and> drop 12 ip = x
      else False)"

definition IsUnspecified :: "bytes \<Rightarrow> bool" where
  "IsUnspecified ip \<longleftrightarrow> ipEqual ip (v4InV6Prefix @ [0, 0, 0, 0]) \<or> ipEqual ip (replicate 16 0)"

definition IsLoopback :: "bytes \<Rightarrow> bool" where
  "IsLoopback ip = (case To4 ip of Some ip4 \<Rightarrow> ip4 ! 0 = 127 | None \<Rightarrow> ipEqual ip (replicate 15 0 @ [1]))"

definition IsPrivate :: "bytes \<Rightarrow> bool" where
  "IsPrivate ip =
     (case To4 ip of
        Some ip4 \<Rightarrow> ip4 ! 0 = 10 \<or> (ip4 ! 0 = 172 \<and> ip4 ! 1 AND 0xF0 = 16) \<or> (ip4 ! 0 = 192 \<and> ip4 ! 1 = 168)
      | None \<Rightarrow> length ip = 16 \<and> ip ! 0 AND 0xFE = 0xFC)"

definition IsMulticast :: "bytes \<Rightarrow> bool" where
  "IsMulticast ip =
     (case To4 ip of
        Some ip4 \<Rightarrow> ip4 ! 0 AND 0xF0 = 0xE0
      | None \<Rightarrow> length ip = 16 \<and> ip ! 0 = 0xFF)"

definition IsLinkLocalMulticast :: "bytes \<Rightarrow> bool" where
  "IsLinkLocalMulticast ip =
     (case To4 ip of
        Some ip4 \<Rightarrow> ip4 ! 0 = 224 \<and> ip4 ! 1 = 0 \<and> ip4 ! 2 = 0
      | None \<Rightarrow> length ip = 16 \<and> ip ! 0 = 0xFF \<and> ip ! 1 AND 0x0F = 0x02)"

definition IsLinkLocalUnicast :: "bytes \<Rightarrow> bool" where
  "IsLinkLocalUnicast ip =
     (case To4 ip of
        Some ip4 \<Rightarrow> ip4 ! 0 = 169 \<and> ip4 ! 1 = 254
      | None \<Rightarrow> length ip = 16 \<and> ip ! 0 = 0xFE \<and> ip ! 1 AND 0xC0 = 0x80)"

section \<open>ip.go\<close>

definition IsLegitProxiableIP :: "bytes option \<Rightarrow> bool" where
  "IsLegitProxiableIP ip =
     (case ip of
        None \<Rightarrow> False
      | Some ip \<Rightarrow>
          if IsLinkLocalUnicast ip then False
          else if IsLinkLocalMulticast ip then False
          else if IsLoopback ip then False
          else if IsPrivate ip then False
          else if IsMulticast ip then False
          else if IsUnspecified ip then False
          else True)"

text \<open>The reference: an IPv4 address as a number, and the blocks that are refused.\<close>

definition inBlock :: "nat \<Rightarrow> bytes \<times> nat \<Rightarrow> bool" where
  "inBlock n block = (case block of (net, len) \<Rightarrow> n div 2 ^ (32 - len) = ube net div 2 ^ (32 - len))"

definition refusedBlocks :: "(bytes \<times> nat) list" where
  "refusedBlocks =
     [([10, 0, 0, 0], 8), ([172, 16, 0, 0], 12), ([192, 168, 0, 0], 16), ([127, 0, 0, 0], 8), ([169, 254, 0, 0], 16),
      ([224, 0, 0, 0], 4), ([0, 0, 0, 0], 32)]"

lemma high_nibble: "(unat (b AND 0xF0 :: byte)) = unat b div 16 * 16"
proof -
  have "list_all (\<lambda>n. unat (of_nat n AND 0xF0 :: byte) = n div 16 * 16) [0..<256]"
    by code_simp
  then have "\<forall>n\<in>{0..<256}. unat (of_nat n AND 0xF0 :: byte) = n div 16 * 16"
    by (simp only: list_all_iff set_upt)
  from bspec [OF this, of "unat b"] show ?thesis
    by simp
qed

lemma byte_eq_unat: "(b :: byte) = c \<longleftrightarrow> unat b = unat c"
  by (simp add: word_unat_eq_iff)

lemma ube4: "ube [a, b, c, d] = ((unat a * 256 + unat b) * 256 + unat c) * 256 + unat d"
  by simp

lemma div_blocks:
  fixes a b c d :: nat
  assumes "b < 256" "c < 256" "d < 256"
  shows "(((a * 256 + b) * 256 + c) * 256 + d) div 16777216 = a"
    and "(((a * 256 + b) * 256 + c) * 256 + d) div 65536 = a * 256 + b"
    and "(((a * 256 + b) * 256 + c) * 256 + d) div 1048576 = a * 16 + b div 16"
    and "(((a * 256 + b) * 256 + c) * 256 + d) div 268435456 = a div 16"
proof -
  define x where "x = a * 256 + b"
  define y where "y = x * 256 + c"
  define n where "n = y * 256 + d"
  have cut: "(u * 256 + v) div 256 = u" if "v < 256" for u v :: nat
    using that by simp
  have "n div 65536 = n div 256 div 256"
    using div_mult2_eq [of n 256 256] by simp
  also have "\<dots> = x"
    unfolding n_def y_def cut [OF assms(3)] cut [OF assms(2)] ..
  finally have two: "n div 65536 = x" .
  have "n div 16777216 = n div 65536 div 256"
    using div_mult2_eq [of n 65536 256] by simp
  then have three: "n div 16777216 = a"
    unfolding two unfolding x_def cut [OF assms(1)] .
  have four: "n div 1048576 = x div 16" "n div 268435456 = a div 16"
    using div_mult2_eq [of n 65536 16] div_mult2_eq [of n 16777216 16] two three by simp_all
  have "x div 16 = a * 16 + b div 16"
    using div_mult_self3 [of 16 "a * 16" b] by (simp add: x_def algebra_simps)
  with two three four show "(((a * 256 + b) * 256 + c) * 256 + d) div 16777216 = a"
    "(((a * 256 + b) * 256 + c) * 256 + d) div 65536 = a * 256 + b"
    "(((a * 256 + b) * 256 + c) * 256 + d) div 1048576 = a * 16 + b div 16"
    "(((a * 256 + b) * 256 + c) * 256 + d) div 268435456 = a div 16"
    by (simp_all only: x_def y_def n_def)
qed

lemma block_pairs:
  assumes "y < (256 :: nat)"
  shows "x * 256 + y = 49320 \<longleftrightarrow> x = 192 \<and> y = 168" and "x * 256 + y = 43518 \<longleftrightarrow> x = 169 \<and> y = 254"
    and "x * 16 + y div 16 = 2753 \<longleftrightarrow> x = 172 \<and> y div 16 = 1"
proof -
  show "x * 256 + y = 49320 \<longleftrightarrow> x = 192 \<and> y = 168" "x * 256 + y = 43518 \<longleftrightarrow> x = 169 \<and> y = 254"
    using assms by presburger+
  have "x * 16 + z = 2753 \<longleftrightarrow> x = 172 \<and> z = 1" if "z < 16" for z
    using that by presburger
  moreover have "y div 16 < 16"
    using assms by simp
  ultimately show "x * 16 + y div 16 = 2753 \<longleftrightarrow> x = 172 \<and> y div 16 = 1"
    by blast
qed

lemma legit_ipv4:
  "IsLegitProxiableIP (Some [a, b, c, d]) \<longleftrightarrow> \<not> list_ex (inBlock (ube [a, b, c, d])) refusedBlocks"
proof -
  note bounds = unat_byte_less [of a] unat_byte_less [of b] unat_byte_less [of c] unat_byte_less [of d]
  have nib: "b AND 0xF0 = 16 \<longleftrightarrow> unat b div 16 = 1" "a AND 0xF0 = 0xE0 \<longleftrightarrow> unat a div 16 = 14"
    by (auto simp: byte_eq_unat high_nibble)
  have blocks: "list_ex (inBlock (ube [a, b, c, d])) refusedBlocks \<longleftrightarrow>
      unat a = 10 \<or> unat a * 16 + unat b div 16 = 2753 \<or> unat a * 256 + unat b = 49320 \<or> unat a = 127 \<or>
      unat a * 256 + unat b = 43518 \<or> unat a div 16 = 14 \<or> ube [a, b, c, d] = 0"
    unfolding refusedBlocks_def inBlock_def ube4 using div_blocks [OF bounds(2-4)] by simp
  have mul: "unat a * 16 + unat b div 16 = 2753 \<longleftrightarrow> unat a = 172 \<and> unat b div 16 = 1"
    "unat a * 256 + unat b = 49320 \<longleftrightarrow> unat a = 192 \<and> unat b = 168"
    "unat a * 256 + unat b = 43518 \<longleftrightarrow> unat a = 169 \<and> unat b = 254"
    using block_pairs [OF bounds(2)] by blast+
  have "take 12 (replicate 16 (0 :: byte)) \<noteq> v4InV6Prefix"
    by code_simp
  then have "IsUnspecified [a, b, c, d] \<longleftrightarrow> [a, b, c, d] = [0, 0, 0, 0]"
    by (simp add: IsUnspecified_def ipEqual_def v4InV6Prefix_def)
  then have zero: "IsUnspecified [a, b, c, d] \<longleftrightarrow> ube [a, b, c, d] = 0"
    by (simp add: unat_eq_0)
  have pred: "IsLinkLocalUnicast [a, b, c, d] \<longleftrightarrow> unat a = 169 \<and> unat b = 254" "IsLoopback [a, b, c, d] \<longleftrightarrow> unat a = 127"
    "IsPrivate [a, b, c, d] \<longleftrightarrow> unat a = 10 \<or> (unat a = 172 \<and> unat b div 16 = 1) \<or> (unat a = 192 \<and> unat b = 168)"
    "IsMulticast [a, b, c, d] \<longleftrightarrow> unat a div 16 = 14"
    "IsLinkLocalMulticast [a, b, c, d] \<longrightarrow> unat a div 16 = 14"
    unfolding IsLinkLocalUnicast_def IsLoopback_def IsPrivate_def IsMulticast_def IsLinkLocalMulticast_def
    by (simp_all add: To4_def nib) (auto simp: byte_eq_unat)
  show ?thesis
    unfolding blocks mul IsLegitProxiableIP_def option.case zero [symmetric] using pred by auto
qed

lemma legit_mapped: "IsLegitProxiableIP (Some (v4InV6Prefix @ [a, b, c, d])) = IsLegitProxiableIP (Some [a, b, c, d])"
proof -
  have to4: "To4 (v4InV6Prefix @ [a, b, c, d]) = Some [a, b, c, d]" "To4 [a, b, c, d] = Some [a, b, c, d]"
    by (simp_all add: To4_def v4InV6Prefix_def)
  have "IsUnspecified (v4InV6Prefix @ [a, b, c, d]) = IsUnspecified [a, b, c, d]"
    by (simp add: IsUnspecified_def ipEqual_def v4InV6Prefix_def numeral_eq_Suc)
  moreover have "IsLinkLocalUnicast (v4InV6Prefix @ [a, b, c, d]) = IsLinkLocalUnicast [a, b, c, d]"
    "IsLinkLocalMulticast (v4InV6Prefix @ [a, b, c, d]) = IsLinkLocalMulticast [a, b, c, d]"
    "IsLoopback (v4InV6Prefix @ [a, b, c, d]) = IsLoopback [a, b, c, d]"
    "IsPrivate (v4InV6Prefix @ [a, b, c, d]) = IsPrivate [a, b, c, d]"
    "IsMulticast (v4InV6Prefix @ [a, b, c, d]) = IsMulticast [a, b, c, d]"
    by (simp_all only: IsLinkLocalUnicast_def IsLinkLocalMulticast_def IsLoopback_def IsPrivate_def IsMulticast_def to4
        option.case)
  ultimately show ?thesis
    by (simp only: IsLegitProxiableIP_def option.case)
qed

section \<open>rand.go\<close>

text \<open>\<open>float32(v) * 10.0 / 256.0\<close> and \<open>float32(v) * 62.0 / 256.0\<close> are exact for a byte \<open>v\<close>; the conversion
  to an integer truncates.\<close>

definition RandDigits :: "nat \<Rightarrow> tape \<Rightarrow> string \<times> tape" where
  "RandDigits n t =
     (string_of (map (\<lambda>v. of_nat (48 + (unat v * 10) div 256)) (randBytes n t)), randSkip n t)"

definition encodeByte :: "byte \<Rightarrow> byte" where
  "encodeByte b =
     (let v = (of_nat (unat b * 62 div 256) :: byte)
      in if v < 10 then v + 48
         else if v < 10 + 26 then v + (97 - 10)
         else if v < 10 + 26 + 26 then v + (65 - 26 - 10)
         else v)"

definition EncodeAsASCII :: "bytes \<Rightarrow> string" where
  "EncodeAsASCII buf = string_of (map encodeByte buf)"

definition RandString :: "nat \<Rightarrow> tape \<Rightarrow> string \<times> tape" where
  "RandString n t = (EncodeAsASCII (randBytes n t), randSkip n t)"

text \<open>\<open>now\<close> is \<open>time.Now().Unix()\<close>.\<close>

definition UniqueId :: "nat \<Rightarrow> int \<Rightarrow> tape \<Rightarrow> string \<times> tape" where
  "UniqueId n now t =
     (let tbuf = putUint64 (of_int now);
          buf = randBytes n t
      in (EncodeAsASCII (map2 (XOR) (take 8 buf) tbuf @ drop 8 buf), randSkip n t))"

definition alnum :: "char \<Rightarrow> bool" where
  "alnum c \<longleftrightarrow> (48 \<le> code c \<and> code c \<le> 57) \<or> (65 \<le> code c \<and> code c \<le> 90) \<or> (97 \<le> code c \<and> code c \<le> 122)"

lemma code_char_of_byte [simp]: "code (char_of_byte b) = unat b"
proof -
  have "unat b mod 256 = unat b"
    by simp
  then show ?thesis
    by (simp add: char_of_byte_def)
qed

lemma encodeByte_alnum: "alnum (char_of_byte (encodeByte b))"
proof -
  define v where "v = unat b * 62 div 256"
  have v: "v < 62"
    using unat_byte_less [of b] by (simp add: v_def div_less_iff_less_mult)
  have less: "(of_nat v :: byte) < of_nat k \<longleftrightarrow> v < k" if "k < 256" for k
    using v that by (simp add: word_less_nat_alt unat_of_nat)
  have lt: "(of_nat v :: byte) < 10 \<longleftrightarrow> v < 10" "(of_nat v :: byte) < 36 \<longleftrightarrow> v < 36" "(of_nat v :: byte) < 62 \<longleftrightarrow> v < 62"
    using less [of 10] less [of 36] less [of 62] by simp_all
  have add: "unat (of_nat v + of_nat k :: byte) = v + k" if "v + k < 256" for k
    using that by (simp add: unat_of_nat flip: of_nat_add)
  have "unat (encodeByte b) = (if v < 10 then v + 48 else if v < 36 then v + 87 else v + 29)"
    using v lt add [of 48] add [of 87] add [of 29] by (simp add: encodeByte_def v_def [symmetric] Let_def)
  with v show ?thesis
    by (simp add: alnum_def split: if_splits)
qed

lemma EncodeAsASCII_alnum: "list_all alnum (EncodeAsASCII buf)" "length (EncodeAsASCII buf) = length buf"
  by (simp_all add: EncodeAsASCII_def string_of_def list_all_iff encodeByte_alnum)

section \<open>Properties\<close>

text \<open>The identifiers the program makes up have the length asked for and consist of the characters
  0-9, A-Z, a-z only (so the separator \<open>:\<close> and anything JSON escapes cannot occur in them), whatever
  the random bytes and the time; \<open>RandDigits\<close> gives digits only.\<close>

theorem unique_ids:
  "length (fst (UniqueId n now t)) = n \<and> list_all alnum (fst (UniqueId n now t))
   \<and> length (fst (RandString n t)) = n \<and> list_all alnum (fst (RandString n t))
   \<and> length (fst (RandDigits n t)) = n \<and> list_all (\<lambda>c. 48 \<le> code c \<and> code c \<le> 57) (fst (RandDigits n t))"
proof -
  have digit: "48 \<le> code (char_of_byte (of_nat (48 + unat v * 10 div 256))) \<and>
      code (char_of_byte (of_nat (48 + unat v * 10 div 256))) \<le> 57" for v :: byte
  proof -
    have "unat v * 10 div 256 < 10"
      using unat_byte_less [of v] by (simp add: div_less_iff_less_mult)
    then show ?thesis
      by (simp add: unat_of_nat del: of_nat_add)
  qed
  have "length (fst (UniqueId n now t)) = n" "length (fst (RandString n t)) = n" "length (fst (RandDigits n t)) = n"
    by (auto simp: UniqueId_def RandString_def RandDigits_def Let_def EncodeAsASCII_alnum)
  moreover have "list_all alnum (fst (UniqueId n now t))" "list_all alnum (fst (RandString n t))"
    by (simp_all add: UniqueId_def RandString_def Let_def EncodeAsASCII_alnum)
  moreover have "list_all (\<lambda>c. 48 \<le> code c \<and> code c \<le> 57) (fst (RandDigits n t))"
    using digit by (simp add: RandDigits_def string_of_def list_all_iff del: of_nat_add code_char_of_byte)
  ultimately show ?thesis
    by blast
qed

text \<open>Which IPv4 addresses may be dialled: exactly those outside 10.0.0.0/8, 172.16.0.0/12,
  192.168.0.0/16, 127.0.0.0/8, 169.254.0.0/16, 224.0.0.0/4 and not 0.0.0.0; the 16 byte form of an
  IPv4 address is judged like its 4 byte form, and a nil address is refused.\<close>

theorem legit_ip:
  "IsLegitProxiableIP (Some [a, b, c, d]) = (\<not> list_ex (inBlock (ube [a, b, c, d])) refusedBlocks)
   \<and> IsLegitProxiableIP (Some (v4InV6Prefix @ [a, b, c, d])) = IsLegitProxiableIP (Some [a, b, c, d])
   \<and> IsLegitProxiableIP None = False"
  using legit_ipv4 legit_mapped by (simp add: IsLegitProxiableIP_def)

end
