(* ===== verification/Sha1.thy ===== *)
theory Sha1
  imports Prelude
begin

text \<open>
  \<open>crypto/sha1\<close>, which the server uses for the answer to a websocket handshake: \<open>sha1.Sum\<close>.
\<close>

definition sha1Pad :: "bytes \<Rightarrow> bytes" where
  "sha1Pad m = m @ [0x80] @ zeros ((119 - length m mod 64) mod 64) @ be 8 (8 * length m)"

fun words32 :: "bytes \<Rightarrow> 32 word list" where
  "words32 (a # b # c # d # r) = uint32 [a, b, c, d] # words32 r"
| "words32 _ = []"

text \<open>The message schedule, in reverse order: the next word from the ones 3, 8, 14 and 16 before it.\<close>

fun schedule :: "nat \<Rightarrow> 32 word list \<Rightarrow> 32 word list" where
  "schedule 0 ws = ws"
| "schedule (Suc n) ws = schedule n (word_rotl 1 (ws ! 2 XOR ws ! 7 XOR ws ! 13 XOR ws ! 15) # ws)"

definition sha1Round :: "nat \<Rightarrow> 32 word \<Rightarrow> 32 word \<times> 32 word \<times> 32 word \<times> 32 word \<times> 32 word \<Rightarrow>
    32 word \<times> 32 word \<times> 32 word \<times> 32 word \<times> 32 word" where
  "sha1Round i w s =
     (case s of
        (a, b, c, d, e) \<Rightarrow>
          let (f, k) =
            (if i < 20 then ((b AND c) OR (NOT b AND d), 0x5A827999)
             else if i < 40 then (b XOR c XOR d, 0x6ED9EBA1)
             else if i < 60 then ((b AND c) OR (b AND d) OR (c AND d), 0x8F1BBCDC)
             else (b XOR c XOR d, 0xCA62C1D6))
          in (word_rotl 5 a + f + e + k + w, a, word_rotl 30 b, c, d))"

fun sha1Rounds :: "nat \<Rightarrow> 32 word list \<Rightarrow> 32 word \<times> 32 word \<times> 32 word \<times> 32 word \<times> 32 word \<Rightarrow>
    32 word \<times> 32 word \<times> 32 word \<times> 32 word \<times> 32 word" where
  "sha1Rounds i [] s = s"
| "sha1Rounds i (w # ws) s = sha1Rounds (Suc i) ws (sha1Round i w s)"

definition sha1Block :: "bytes \<Rightarrow> 32 word \<times> 32 word \<times> 32 word \<times> 32 word \<times> 32 word \<Rightarrow>
    32 word \<times> 32 word \<times> 32 word \<times> 32 word \<times> 32 word" where
  "sha1Block b s =
     (case (s, sha1Rounds 0 (rev (schedule 64 (rev (words32 b)))) s) of
        ((h0, h1, h2, h3, h4), (a, b, c, d, e)) \<Rightarrow> (h0 + a, h1 + b, h2 + c, h3 + d, h4 + e))"

fun blocks64 :: "nat \<Rightarrow> bytes \<Rightarrow> bytes list" where
  "blocks64 0 m = []"
| "blocks64 (Suc n) m = take 64 m # blocks64 n (drop 64 m)"

definition sha1Sum :: "bytes \<Rightarrow> bytes" where
  "sha1Sum m =
     (let p = sha1Pad m
      in case fold sha1Block (blocks64 (length p div 64) p) (0x67452301, 0xEFCDAB89, 0x98BADCFE, 0x10325476, 0xC3D2E1F0) of
           (h0, h1, h2, h3, h4) \<Rightarrow> putUint32 h0 @ putUint32 h1 @ putUint32 h2 @ putUint32 h3 @ putUint32 h4)"

lemma length_sha1Sum [simp]: "length (sha1Sum m) = 20"
  by (simp add: sha1Sum_def Let_def split: prod.split)

end
