(* ===== verification/H1.thy ===== *)
theory H1
  imports Duplex Ws_Framer RW_Buffer Utils Sha1 "HOL-Library.Multiset"
begin

text \<open>
  The transport \<open>h1\<close> (\<open>transport/h1/client.go\<close>, \<open>server.go\<close>, \<open>init.go\<close>): a client that sends an HTTP
  request with an encrypted time stamp and half of a session key, a server that checks it and answers
  with the other half, and the framers both ends put on the connection afterwards. Shown here: the two
  ends agree on key, time stamp and framer for every segmentation of the connection and every
  iteration order of the header map; the handler of the server runs only for requests that were made
  with the pre-shared key in the last two minutes; and a short \<open>Authentication\<close> header makes the
  server panic.

  Error messages are the constant part of the format of \<open>fmt.Errorf\<close>. \<open>up\<close> is \<open>strings.ToUpper\<close> outside
  ASCII (\<open>Go_Text\<close>), \<open>ord\<close> the iteration order of the header map, time and random bytes are arguments.
\<close>

section \<open>Client\<close>

text \<open>\<open>chClose\<close> is the number of signals in the channel; \<open>chW\<close> has no buffer and so no state.\<close>

record Client =
  c_cfg :: Values
  c_id :: string
  c_serverUrl :: string
  c_closed :: bool
  c_connected :: bool
  c_chClose :: nat
  c_bufRead :: ReadWriteBuffer

definition NewClient :: "Values \<Rightarrow> string \<Rightarrow> Client res" where
  "NewClient cfg clientId =
     (if length clientId \<le> 0 then Err (Errorf ''empty client_id.'')
      else
        (let serverUrl = Get cfg SERVER_URL
         in if length serverUrl \<le> 0 then Err (Errorf ''invalid server_url.'')
            else Ok \<lparr>c_cfg = cfg, c_id = clientId, c_serverUrl = serverUrl, c_closed = False, c_connected = False,
                     c_chClose = 0, c_bufRead = NewReadWriteBuffer\<rparr>))"

definition Connected :: "Client \<Rightarrow> bool" where
  "Connected c \<longleftrightarrow> c_connected c \<and> \<not> c_closed c"

text \<open>\<open>framer.Framer\<close>: the transport both ends put on the connection.\<close>

datatype 's txFramer = F1tx "'s F1" | Wstx "'s Ws"

definition newFramer :: "bool \<Rightarrow> 's \<Rightarrow> Values \<Rightarrow> tape \<Rightarrow> 's txFramer res" where
  "newFramer useWS conn cfg t =
     (if useWS then (case Ws_Framer conn cfg t of Ok f \<Rightarrow> Ok (Wstx f) | Err e \<Rightarrow> Err e | Panic \<Rightarrow> Panic)
      else (case F1_Framer conn cfg t of Ok f \<Rightarrow> Ok (F1tx f) | Err e \<Rightarrow> Err e | Panic \<Rightarrow> Panic))"

text \<open>Where \<open>Connect\<close> dials: TLS, websocket, address.\<close>

definition dialTarget :: "URL \<Rightarrow> bool \<times> bool \<times> string" where
  "dialTarget uri =
     (let scheme = map toLowerChar (u_Scheme uri);
          useTLS = (scheme = ''https'' \<or> scheme = ''wss'');
          useWS = (scheme = ''ws'' \<or> scheme = ''wss'');
          port = (if length (port_of uri) \<le> 0
                  then (if scheme = ''http'' \<or> scheme = ''ws'' then ''80''
                        else if scheme = ''https'' \<or> scheme = ''wss'' then ''443'' else port_of uri)
                  else port_of uri)
      in (useTLS, useWS, hostname uri @ '':'' @ port))"

text \<open>The authentication bytes: the time, and half of the session key.\<close>

definition authRequest :: "bytes \<Rightarrow> int \<Rightarrow> tape \<Rightarrow> bytes \<times> string \<times> tape" where
  "authRequest pskb ts t =
     (let authBytes = copyAt 0 (putUint64 (of_int ts)) (randBytes (8 + KeySize) t);
          (r, t') = Encrypt pskb authBytes (randSkip (8 + KeySize) t)
      in (authBytes, (case r of Ok dat \<Rightarrow> b64encode dat | _ \<Rightarrow> []), t'))"

definition connectHeader :: "URL \<Rightarrow> bool \<Rightarrow> string \<Rightarrow> string \<Rightarrow> tape \<Rightarrow> Header \<times> tape" where
  "connectHeader uri useWS cid authStr t =
     (let uri' = uri\<lparr>u_RawQuery := encodeQuery ''c'' cid, u_Path := ''/api/cv2''\<rparr>;
          h = NewHeader\<lparr>hd_URL := Some uri', hd_Proto := ''HTTP/1.1''\<rparr>;
          (h1, t1) =
            (if useWS then
               (h\<lparr>hd_Method := ''GET'',
                  hd_Values := headerSet (headerSet (headerSet (hd_Values h) ''Connection'' ''upgrade'') ''Upgrade'' ''websocket'')
                    ''Sec-WebSocket-Key'' (b64encode (randBytes 4 t))\<rparr>, randSkip 4 t)
             else (h\<lparr>hd_Method := ''POST'', hd_Values := headerSet (hd_Values h) ''Content-Type'' ''image/png''\<rparr>, t))
      in (h1\<lparr>hd_Values := headerSet (hd_Values h1) ''Authentication'' authStr\<rparr>, t1))"

text \<open>The session key from the answer of the server.\<close>

definition answerKey :: "bytes \<Rightarrow> bytes \<Rightarrow> Response \<Rightarrow> string res" where
  "answerKey pskb authBytes rs =
     (let keyNewStr = headerGet (rs_Header rs) ''X-Token''
      in if length keyNewStr \<le> 0 then Err (Errorf ''Empty key received.'')
         else
           (let keyNewEnc = (case b64decode keyNewStr of Some dat \<Rightarrow> dat | None \<Rightarrow> [])
            in if 0 < length keyNewEnc then
                 (case Decrypt pskb keyNewEnc of
                    Ok keyNewRaw \<Rightarrow> Ok (b64encode (Xor keyNewRaw (drop 8 authBytes)))
                  | Err e \<Rightarrow> Err (Errorf ''Decrypt'')
                  | Panic \<Rightarrow> Panic)
               else Err (Errorf ''Empty key.'')))"

definition framerParams :: "Values \<Rightarrow> string \<Rightarrow> int \<Rightarrow> string \<Rightarrow> Values" where
  "framerParams cfg psk ts role = Set (Set (Set (Clone cfg) FRAMER_PSK psk) FRAMER_TIMESTAMP (showInt ts)) FRAMER_ROLE role"

text \<open>\<open>Connect\<close>, with \<open>dial useTLS addr\<close> for \<open>net.Dial\<close> or \<open>tls.Dial\<close>. The result is the framer, which holds the
  connection, and the client with its flag set.\<close>

definition Connect :: "(string \<Rightarrow> string) \<Rightarrow> (httpHeader \<Rightarrow> httpHeader) \<Rightarrow> 's reader \<Rightarrow> 's writer \<Rightarrow> (bool \<Rightarrow> string \<Rightarrow> 's res) \<Rightarrow>
    int \<Rightarrow> tape \<Rightarrow> Client \<Rightarrow> ('s txFramer res \<times> Client) option" where
  "Connect up ord rd wr dial ts t c =
     (if c_closed c then Some (Err (Errorf ''Client already closed.''), c)
      else case b64decode (Get (c_cfg c) FRAMER_PSK) of
        None \<Rightarrow> Some (Err (Errorf ''unable to base64 decode psk''), c)
      | Some pskb \<Rightarrow>
          (case url_Parse (c_serverUrl c) of
             None \<Rightarrow> Some (Err (Errorf ''url.Parse''), c)
           | Some uri \<Rightarrow>
               (let (useTLS, useWS, addr) = dialTarget uri
                in case dial useTLS addr of
                     Err e \<Rightarrow> Some (Err (Errorf ''net.Dial''), c)
                   | Panic \<Rightarrow> Some (Panic, c)
                   | Ok conn \<Rightarrow>
                       (let (authBytes, authStr, t1) = authRequest pskb ts t;
                            (h, t2) = connectHeader uri useWS (c_id c) authStr t1;
                            h' = h\<lparr>hd_Values := ord (hd_Values h)\<rparr>
                        in case Header_WriteTo up bufferWrite h' [] of
                             None \<Rightarrow> None
                           | Some (x, headerBuf) \<Rightarrow>
                               (case wr headerBuf conn of
                                  None \<Rightarrow> None
                                | Some (Panic, conn1) \<Rightarrow> Some (Panic, c)
                                | Some (Err e, conn1) \<Rightarrow> Some (Err (Errorf ''h.WriteTo''), c)
                                | Some (Ok sz, conn1) \<Rightarrow>
                                    (case ReadResponse rd conn1 of
                                       None \<Rightarrow> None
                                     | Some (Panic, conn2) \<Rightarrow> Some (Panic, c)
                                     | Some (Err e, conn2) \<Rightarrow> Some (Err (Errorf ''ReadResponse''), c)
                                     | Some (Ok rs, conn2) \<Rightarrow>
                                         (case answerKey pskb authBytes rs of
                                            Err e \<Rightarrow> Some (Err e, c)
                                          | Panic \<Rightarrow> Some (Panic, c)
                                          | Ok pskNew \<Rightarrow>
                                              Some (newFramer useWS conn2 (framerParams (c_cfg c) pskNew ts ''client'') t2,
                                                    c\<lparr>c_connected := True\<rparr>))))))))"

text \<open>The operations a caller of the transport uses. A \<open>Write\<close> hands its slice to \<open>RelayTraffic\<close> through the
  unbuffered channel \<open>chW\<close>; \<open>Client_Write\<close> is the part before that.\<close>

definition Client_Read :: "nat \<Rightarrow> (bytes, Client) io" where
  "Client_Read n c =
     (if c_closed c then Some (Err EOF, c)
      else case RW_tryRead n (c_bufRead c) of None \<Rightarrow> None | Some (r, b) \<Rightarrow> Some (r, c\<lparr>c_bufRead := b\<rparr>))"

definition Client_Write :: "bytes \<Rightarrow> Client \<Rightarrow> bytes res" where
  "Client_Write buf c = (if c_closed c then Err EOF else Ok buf)"

definition Client_Close :: "Client \<Rightarrow> Client" where
  "Client_Close c = (if c_closed c then c else c\<lparr>c_closed := True, c_chClose := c_chClose c + 1\<rparr>)"

section \<open>Server\<close>

definition wsGUID :: string where
  "wsGUID = ''258EAFA5-E914-47DA-95CA-C5AB0DC85B11''"

text \<open>\<open>so_Handler\<close> tells whether a handler is set.\<close>

record ServerOptions =
  so_Port :: int
  so_ProtocolParams :: Values
  so_Handler :: bool

definition abortText :: "Header \<Rightarrow> string \<Rightarrow> bytes" where
  "abortText h reason =
     bytes_of (hd_Proto h @ '' 403 DENIED'' @ crlf @ ''Connection: close'' @ crlf @ ''Content-Type: text/plain'' @ crlf @
       ''Content-Length: '' @ showNat (length reason) @ crlf @ crlf @ reason)"

datatype 's served = Returned | Handled string "'s txFramer"

text \<open>\<open>abort\<close>, after which the handler of the connection returns; a failed write is only logged.\<close>

definition abort :: "'s writer \<Rightarrow> Header \<Rightarrow> string \<Rightarrow> ('a served, 's) io" where
  "abort wr h reason conn =
     (case wr (abortText h reason) conn of
        None \<Rightarrow> None
      | Some (Panic, conn') \<Rightarrow> Some (Panic, conn')
      | Some (x, conn') \<Rightarrow> Some (Ok Returned, conn'))"

text \<open>The authentication of a request: denied, or the bytes and the time stamp. \<open>ts - now\<close> is computed in
  64 bits.\<close>

definition checkAuth :: "bytes \<Rightarrow> string \<Rightarrow> int \<Rightarrow> (bytes \<times> int) option res" where
  "checkAuth pskb authStr now =
     (if 128 < length authStr \<or> length authStr \<le> 0 then Ok None
      else case b64decode authStr of
        None \<Rightarrow> Ok None
      | Some authBytesEnc \<Rightarrow>
          (case Decrypt pskb authBytesEnc of
             Panic \<Rightarrow> Panic
           | Err e \<Rightarrow> Ok None
           | Ok authb \<Rightarrow>
               if length authb < 8 + KeySize then Ok None
               else
                 (let ts = sint (uint64 (take 8 authb));
                      d = sint (word_of_int ts - word_of_int now :: 64 word)
                  in if 120 < d \<or> d < - 120 then Ok None else Ok (Some (authb, ts)))))"

definition wsAcceptOf :: "string \<Rightarrow> string" where
  "wsAcceptOf wsKey = (if 0 < length wsKey then b64encode (sha1Sum (bytes_of (wsKey @ wsGUID))) else [])"

definition responseEntries :: "Header \<Rightarrow> bool \<Rightarrow> string \<Rightarrow> (string \<times> string) list" where
  "responseEntries h isWs keyNewEncStr =
     (if isWs then
        [(''Connection'', ''Upgrade''), (''Upgrade'', ''websocket''),
         (''Sec-WebSocket-Accept'', wsAcceptOf (headerGet (hd_Values h) ''Sec-WebSocket-Key''))]
        @ (let wsProto = headerGet (hd_Values h) ''Sec-WebSocket-Protocol''
           in if 0 < length wsProto then [(''Sec-WebSocket-Protocol'', wsProto)] else [])
        @ [(''Sec-WebSocket-Version'', ''7'')]
      else
        [(''Connection'', ''close''), (''Content-Type'', ''image/png,stream=1''), (''Content-Transfer-Encoding'', ''custom'')])
     @ [(''X-Token'', keyNewEncStr)]"

definition responseText :: "Header \<Rightarrow> bool \<Rightarrow> string \<Rightarrow> bytes" where
  "responseText h isWs keyNewEncStr =
     bytes_of (hd_Proto h @ (if isWs then '' 101 Switching Protocols'' else '' 200 OK'') @ crlf @
       concat (map (\<lambda>l. l @ crlf) (map entryLine (responseEntries h isWs keyNewEncStr))) @ crlf)"

text \<open>\<open>handleServerConn\<close> after the header was read from the connection \<open>conn\<close>.\<close>

definition serveHeader :: "'s writer \<Rightarrow> ServerOptions \<Rightarrow> int \<Rightarrow> tape \<Rightarrow> Header \<Rightarrow> ('s served, 's) io" where
  "serveHeader wr options now t header conn =
     (let clientId = (case hd_URL header of Some u \<Rightarrow> queryGet ''c'' u | None \<Rightarrow> [])
      in if length clientId \<le> 0 then abort wr header ''denied'' conn
         else case b64decode (Get (so_ProtocolParams options) FRAMER_PSK) of
           None \<Rightarrow> abort wr header ''denied'' conn
         | Some pskb \<Rightarrow>
             (case checkAuth pskb (headerGet (hd_Values header) ''Authentication'') now of
                Panic \<Rightarrow> panic conn
              | Err e \<Rightarrow> abort wr header ''denied'' conn
              | Ok None \<Rightarrow> abort wr header ''denied'' conn
              | Ok (Some (authBytes, ts)) \<Rightarrow>
                  (let (keyNewRaw, t1) = NewKey t; (r, t2) = Encrypt pskb keyNewRaw t1
                   in case r of
                        Panic \<Rightarrow> panic conn
                      | Err e \<Rightarrow> abort wr header ''denied'' conn
                      | Ok keyNewEnc \<Rightarrow>
                          (let isWs = equalFold (headerGet (hd_Values header) ''Upgrade'') ''websocket''
                           in case wr (responseText header isWs (b64encode keyNewEnc)) conn of
                                None \<Rightarrow> None
                              | Some (Panic, conn1) \<Rightarrow> Some (Panic, conn1)
                              | Some (Err e, conn1) \<Rightarrow> Some (Ok Returned, conn1)
                              | Some (Ok sz, conn1) \<Rightarrow>
                                  (let keyNewStr = b64encode (Xor keyNewRaw (drop 8 authBytes))
                                   in if so_Handler options then
                                        (case newFramer isWs conn1 (framerParams (so_ProtocolParams options) keyNewStr ts ''server'') t2 of
                                           Ok tx \<Rightarrow> Some (Ok (Handled clientId tx), conn1)
                                         | Err e \<Rightarrow> Some (Err e, conn1)
                                         | Panic \<Rightarrow> Some (Panic, conn1))
                                      else Some (Ok Returned, conn1))))))"

definition handleServerConn :: "(string \<Rightarrow> string) \<Rightarrow> 's reader \<Rightarrow> 's writer \<Rightarrow> ServerOptions \<Rightarrow> int \<Rightarrow> tape \<Rightarrow> ('s served, 's) io" where
  "handleServerConn up rd wr options now t conn =
     (case PeekHeader up rd (NewHeaderReader conn) of
        None \<Rightarrow> None
      | Some (Panic, hr) \<Rightarrow> Some (Panic, hr_r hr)
      | Some (Err e, hr) \<Rightarrow> Some (Ok Returned, hr_r hr)
      | Some (Ok header, hr) \<Rightarrow> serveHeader wr options now t header (hr_r hr))"

text \<open>\<open>h1Suit.Server\<close>: the port that is listened on.\<close>

definition h1Suit_Server :: "Values \<Rightarrow> ServerOptions res" where
  "h1Suit_Server cfg =
     (let port = GetInt cfg PORT
      in if port \<le> 0 \<or> 65535 < port then Err (Errorf ''invalid serving port.'')
         else Ok \<lparr>so_Port = port, so_ProtocolParams = cfg, so_Handler = True\<rparr>)"

section \<open>The request\<close>

lemmas canon_simps = canonicalKey_def tokenChar_def toUpperChar_def toLowerChar_def

lemma canonical_names:
  "canonicalKey ''Connection'' = ''Connection''" "canonicalKey ''Upgrade'' = ''Upgrade''"
  "canonicalKey ''Sec-WebSocket-Key'' = ''Sec-Websocket-Key''" "canonicalKey ''Sec-Websocket-Key'' = ''Sec-Websocket-Key''"
  "canonicalKey ''Content-Type'' = ''Content-Type''" "canonicalKey ''Authentication'' = ''Authentication''"
  "canonicalKey ''Host'' = ''Host''" "canonicalKey ''X-Token'' = ''X-Token''"
  "canonicalKey ''Sec-WebSocket-Accept'' = ''Sec-Websocket-Accept''"
  "canonicalKey ''Sec-WebSocket-Protocol'' = ''Sec-Websocket-Protocol''"
  "canonicalKey ''Sec-WebSocket-Version'' = ''Sec-Websocket-Version''"
  "canonicalKey ''Content-Transfer-Encoding'' = ''Content-Transfer-Encoding''"
  by (simp_all add: canon_simps char_of_def bit_0)

text \<open>The entries of the request, by name.\<close>

definition connectEntries :: "bool \<Rightarrow> string \<Rightarrow> string \<Rightarrow> (string \<times> string) list" where
  "connectEntries useWS wsKey authStr =
     (if useWS then [(''Connection'', ''upgrade''), (''Upgrade'', ''websocket''), (''Sec-Websocket-Key'', wsKey)]
      else [(''Content-Type'', ''image/png'')]) @ [(''Authentication'', authStr)]"

lemma connectHeader_values:
  "hd_Values (fst (connectHeader uri useWS cid authStr t)) =
    map (\<lambda>(k, v). (k, [v])) (connectEntries useWS (b64encode (randBytes 4 t)) authStr)"
  by (simp add: connectHeader_def NewHeader_def headerSet_def canonical_names connectEntries_def Let_def)

lemma connectHeader_fields:
  "hd_Method (fst (connectHeader uri useWS cid authStr t)) = (if useWS then ''GET'' else ''POST'')"
  "hd_Proto (fst (connectHeader uri useWS cid authStr t)) = ''HTTP/1.1''"
  "hd_URL (fst (connectHeader uri useWS cid authStr t)) = Some (uri\<lparr>u_RawQuery := encodeQuery ''c'' cid, u_Path := ''/api/cv2''\<rparr>)"
  by (simp_all add: connectHeader_def NewHeader_def Let_def)

lemma b64_noCR [simp]: "noCR (b64encode b)"
  using b64encode_printable [of b] by (auto simp: list_all_iff printable_def)

lemma b64_trimmed [simp]: "trimmed (b64encode b)"
proof (cases "b64encode b = []")
  case False
  with b64encode_printable [of b] show ?thesis
    by (simp add: trimmed_def list_all_iff)
qed (simp add: trimmed_def)

lemma entryOk_names:
  "noCR v \<Longrightarrow> k \<in> set [''Connection'', ''Upgrade'', ''Sec-Websocket-Key'', ''Content-Type'', ''Authentication'', ''Host'', ''X-Token'',
     ''Sec-WebSocket-Accept'', ''Sec-WebSocket-Protocol'', ''Sec-WebSocket-Version'', ''Content-Transfer-Encoding''] \<Longrightarrow> entryOk (k, v)"
  by (auto simp: entryOk_def tokenChar_def)

text \<open>Any order of the entries, with the \<open>Host\<close> line at the end.\<close>

lemma hostName: "equalFold k ''host'' \<longleftrightarrow> False" if "k \<in> set [''Connection'', ''Upgrade'', ''Sec-Websocket-Key'', ''Content-Type'', ''Authentication'']"
  using that by (auto simp: equalFold_def foldName_ascii toUpperChar_def)

lemma concat_single:
  "list_all (\<lambda>(k, vs). vs = [hd vs]) xs \<Longrightarrow> concat (map (\<lambda>(k, vs). map (Pair k) vs) xs) = map (\<lambda>(k, vs). (k, hd vs)) xs"
proof (induction xs)
  case (Cons x xs)
  then show ?case
    by (cases x; cases "snd x") auto
qed simp

lemma connect_written:
  assumes "\<And>xs. mset (ord xs) = mset xs" and "h = fst (connectHeader uri useWS cid authStr t)" and "hd_URL h = Some u"
  obtains kvs where "writtenEntries (h\<lparr>hd_Values := ord (hd_Values h)\<rparr>) u = kvs @ (if u_Host u = [] then [] else [(''Host'', u_Host u)])"
    and "mset kvs = mset (connectEntries useWS (b64encode (randBytes 4 t)) authStr)"
proof -
  let ?es = "connectEntries useWS (b64encode (randBytes 4 t)) authStr"
  define kvs where "kvs = map (\<lambda>(k, vs). (k, hd vs)) (ord (hd_Values h))"
  have vals: "hd_Values h = map (\<lambda>(k, v). (k, [v])) ?es"
    using assms(2) by (simp add: connectHeader_values)
  have set_ord: "set (ord (hd_Values h)) = set (hd_Values h)"
    using assms(1) by (rule mset_eq_setD)
  have "mset kvs = image_mset (\<lambda>(k, vs). (k, hd vs)) (mset (hd_Values h))"
    by (simp add: kvs_def assms(1))
  also have "\<dots> = mset ?es"
    by (simp add: vals image_mset.compositionality comp_def case_prod_beta)
  finally have ms: "mset kvs = mset ?es" .
  have "list_all (\<lambda>(k, vs). vs = [hd vs]) (ord (hd_Values h))"
    unfolding list_all_iff set_ord by (auto simp: vals)
  then have "concat (map (\<lambda>(k, vs). map (Pair k) vs) (ord (hd_Values h))) = kvs"
    unfolding kvs_def by (rule concat_single)
  moreover have "\<not> list_ex (\<lambda>(k, vs). equalFold k ''host'') (ord (hd_Values h))"
    unfolding list_ex_iff set_ord by (auto simp: vals connectEntries_def hostName split: if_splits)
  ultimately have "writtenEntries (h\<lparr>hd_Values := ord (hd_Values h)\<rparr>) u = kvs @ (if u_Host u = [] then [] else [(''Host'', u_Host u)])"
    by (simp add: writtenEntries_def)
  from that [OF this ms] show thesis .
qed

lemma connect_uri:
  assumes "u_Opaque uri = []" and "u_RawPath uri = []" and "u = uri\<lparr>u_RawQuery := encodeQuery ''c'' cid, u_Path := ''/api/cv2''\<rparr>"
  shows "requestURI u = ''/api/cv2?'' @ encodeQuery ''c'' cid" and "word (requestURI u)"
    and "url_ParseRequestURI (requestURI u) = Some (emptyURL\<lparr>u_Path := ''/api/cv2'', u_RawQuery := encodeQuery ''c'' cid\<rparr>)"
proof -
  let ?v = "escape EncodeQueryComponent cid"
  have q: "encodeQuery ''c'' cid = [CHR ''c'', CHR ''=''] @ ?v"
    by (simp add: encodeQuery_def shouldEscape_def alphaNum_def)
  have "plainPath ''/api/cv2''"
    by (simp add: plainPath_def alphaNum_def)
  from plainPath_escape [OF this] show r: "requestURI u = ''/api/cv2?'' @ encodeQuery ''c'' cid"
    using assms by (simp add: requestURI_def escapedPath_def q)
  have "queryChar c \<Longrightarrow> c \<noteq> CHR '' '' \<and> c \<noteq> CHR 0x0D" for c
    by (auto simp: queryChar_def alphaNum_def)
  with escape_queryChar [of cid] show "word (requestURI u)"
    by (auto simp: r q list_all_iff)
  have "plainPath ''api/cv2''"
    by (simp add: plainPath_def alphaNum_def)
  from parseRequestURI_plain [OF this escape_queryChar [of cid] q]
  show "url_ParseRequestURI (requestURI u) = Some (emptyURL\<lparr>u_Path := ''/api/cv2'', u_RawQuery := encodeQuery ''c'' cid\<rparr>)"
    by (simp add: r alphaNum_def)
qed

lemma equalFold_websocket: "equalFold ''websocket'' ''websocket''" "\<not> equalFold [] ''websocket''"
  by (simp_all add: equalFold_def foldName_ascii toUpperChar_def)

text \<open>What the server finds in the request.\<close>

lemma connect_entries:
  assumes "mset kvs = mset (connectEntries useWS (b64encode w) authStr)" and "noCR authStr" and "noCR host"
    and "es = kvs @ (if host = [] then [] else [(''Host'', host)])"
  shows "list_all entryOk es" and "headerGet (setAll es []) ''Authentication'' = authStr"
    and "equalFold (headerGet (setAll es []) ''Upgrade'') ''websocket'' = useWS"
    and "headerGet (setAll es []) ''Sec-WebSocket-Protocol'' = []"
proof -
  let ?es = "connectEntries useWS (b64encode w) authStr"
  have set: "set kvs = set ?es"
    using assms(1) by (rule mset_eq_setD)
  have "mset (map (canonicalKey \<circ> fst) es) = mset (map (canonicalKey \<circ> fst) (?es @ (if host = [] then [] else [(''Host'', host)])))"
    using assms(1) by (simp add: assms(4))
  moreover have "distinct (map (canonicalKey \<circ> fst) (?es @ (if host = [] then [] else [(''Host'', host)])))"
    by (simp add: connectEntries_def canonical_names)
  ultimately have d: "distinct (map (canonicalKey \<circ> fst) es)"
    using mset_eq_imp_distinct_iff by blast
  show "list_all entryOk es"
    using assms(2,3) by (auto simp: list_all_iff set assms(4) connectEntries_def intro!: entryOk_names split: if_splits)
  show "headerGet (setAll es []) ''Authentication'' = authStr"
    by (rule setAll_get [OF d, of "''Authentication''"]) (simp_all add: set assms(4) connectEntries_def)
  show "equalFold (headerGet (setAll es []) ''Upgrade'') ''websocket'' = useWS"
  proof (cases useWS)
    case True
    have "headerGet (setAll es []) ''Upgrade'' = ''websocket''"
      by (rule setAll_get [OF d, of "''Upgrade''"]) (simp_all add: True set assms(4) connectEntries_def)
    with True equalFold_websocket show ?thesis by simp
  next
    case False
    have "headerGet (setAll es []) ''Upgrade'' = headerGet [] ''Upgrade''"
      by (rule setAll_other) (auto simp: False list_all_iff set assms(4) connectEntries_def canonical_names split: if_splits)
    with False equalFold_websocket show ?thesis by (simp add: headerGet_def)
  qed
  have "headerGet (setAll es []) ''Sec-WebSocket-Protocol'' = headerGet [] ''Sec-WebSocket-Protocol''"
    by (rule setAll_other) (auto simp: list_all_iff set assms(4) connectEntries_def canonical_names split: if_splits)
  then show "headerGet (setAll es []) ''Sec-WebSocket-Protocol'' = []"
    by (simp add: headerGet_def)
qed

section \<open>The answer\<close>

fun txKey :: "'s txFramer \<Rightarrow> bytes" where
  "txKey (F1tx f) = f1_psk f"
| "txKey (Wstx f) = f1_psk f"

fun txConn :: "'s txFramer \<Rightarrow> 's" where
  "txConn (F1tx f) = f1_tx f"
| "txConn (Wstx f) = f1_tx f"

text \<open>The kind of a framer: no websocket, or websocket with its mask.\<close>

fun txMask :: "'s txFramer \<Rightarrow> bool option" where
  "txMask (F1tx f) = None"
| "txMask (Wstx f) = Some (ws_mask f)"

lemma length_Xor: "length (Xor x y) = max (length x) (length y)"
  by (simp add: Xor_eq)

lemma newFramer_params:
  assumes "length k = 16" and "- (2 ^ 63) \<le> ts" and "ts < 2 ^ 63"
  obtains tx where "newFramer useWS conn (framerParams cfg (b64encode k) ts role) t = Ok tx" and "txConn tx = conn"
    and "txKey tx = stampKey ts k" and "txMask tx = (if useWS then Some (equalFold role ''client'') else None)"
proof -
  have "framerKey (framerParams cfg (b64encode k) ts role) = Ok (stampKey ts k)"
    by (rule framerKey_exact) (use assms parseInt64_showInt [of ts] in \<open>simp_all add: framerParams_def conf_names\<close>)
  then show thesis
    using that [of "if useWS then Wstx _ else F1tx _"]
    by (cases useWS) (simp_all add: newFramer_def Ws_Framer_def F1_Framer_def framerParams_def that)
qed

lemma authRequest_spec:
  assumes "keyOk pskb" and "- (2 ^ 63) \<le> ts" and "ts < 2 ^ 63"
  obtains authBytes enc t' where "authRequest pskb ts t = (authBytes, b64encode enc, t')" and "length authBytes = 24"
    and "length enc = 40" and "Decrypt pskb enc = Ok authBytes" and "sint (uint64 (take 8 authBytes)) = ts"
proof -
  let ?a = "copyAt 0 (putUint64 (of_int ts)) (randBytes (8 + KeySize) t)"
  obtain c where c: "Encrypt pskb ?a (randSkip (8 + KeySize) t) = (Ok c, randSkip BlockSize (randSkip (8 + KeySize) t))"
    "length c = BlockSize + length ?a" "Decrypt pskb c = Ok ?a"
    by (rule Encrypt_Ok [OF assms(1)])
  have len: "length ?a = 24"
    by (simp add: KeySize_def BlockSize_def)
  have "take 8 ?a = putUint64 (of_int ts)"
    by (simp add: copyAt_def gocopy_def KeySize_def BlockSize_def)
  moreover have "sint (of_int ts :: 64 word) = ts"
    using assms(2,3) by (simp add: signed_of_int signed_take_bit_int_eq_self)
  ultimately have "sint (uint64 (take 8 ?a)) = ts"
    by simp
  with that [of ?a c] c len show thesis
    by (simp add: authRequest_def Let_def BlockSize_def)
qed

lemma checkAuth_ok:
  assumes "length enc = 40" and "Decrypt pskb enc = Ok authBytes" and "length authBytes = 24"
    and "sint (uint64 (take 8 authBytes)) = ts" and "\<bar>ts - now\<bar> \<le> 120"
  shows "checkAuth pskb (b64encode enc) now = Ok (Some (authBytes, ts))"
proof -
  have "sint (of_int (ts - now) :: 64 word) = ts - now"
    using assms(5) by (simp add: signed_of_int signed_take_bit_int_eq_self del: of_int_diff)
  then have "sint (word_of_int ts - word_of_int now :: 64 word) = ts - now"
    by simp
  then show ?thesis
    using assms by (auto simp: checkAuth_def length_b64encode KeySize_def BlockSize_def Let_def)
qed

lemma serveHeader_ok:
  assumes "keyOk pskb" and "b64decode (Get (so_ProtocolParams options) FRAMER_PSK) = Some pskb" and "so_Handler options"
    and "hd_URL h = Some u" and "queryGet ''c'' u = cid" and "cid \<noteq> []"
    and "checkAuth pskb (headerGet (hd_Values h) ''Authentication'') now = Ok (Some (authBytes, ts))"
    and "length authBytes = 24" and "- (2 ^ 63) \<le> ts" and "ts < 2 ^ 63"
    and "equalFold (headerGet (hd_Values h) ''Upgrade'') ''websocket'' = isWs"
  obtains raw enc tx where "serveHeader duplexWrite options now t h conn =
      Some (Ok (Handled cid tx), (fst conn, snd conn @ responseText h isWs (b64encode enc)))"
    and "length raw = 16" and "length enc = 32" and "Decrypt pskb enc = Ok raw" and "txKey tx = stampKey ts (Xor raw (drop 8 authBytes))"
    and "txMask tx = (if isWs then Some False else None)"
proof -
  let ?raw = "randBytes BlockSize t"
  obtain enc where enc: "Encrypt pskb ?raw (randSkip BlockSize t) = (Ok enc, randSkip BlockSize (randSkip BlockSize t))"
    "length enc = BlockSize + length ?raw" "Decrypt pskb enc = Ok ?raw"
    by (rule Encrypt_Ok [OF assms(1)])
  define k where "k = Xor ?raw (drop 8 authBytes)"
  let ?conn = "(fst conn, snd conn @ responseText h isWs (b64encode enc))"
  have k: "length k = 16"
    using assms(8) by (simp add: k_def length_Xor BlockSize_def)
  obtain tx where tx: "newFramer isWs ?conn (framerParams (so_ProtocolParams options) (b64encode k) ts ''server'')
      (randSkip BlockSize (randSkip BlockSize t)) = Ok tx"
    "txKey tx = stampKey ts k" "txMask tx = (if isWs then Some (equalFold ''server'' ''client'') else None)"
    by (rule newFramer_params [OF k assms(9,10)])
  have "\<not> equalFold ''server'' ''client''"
    by (simp add: equalFold_def foldName_ascii toUpperChar_def)
  with tx enc assms that [of tx enc ?raw] show thesis
    by (simp add: serveHeader_def NewKey_def duplexWrite_def k_def BlockSize_def)
qed

text \<open>The client reads the answer.\<close>

lemma trimmed_literals:
  "trimmed ''Upgrade''" "trimmed ''websocket''" "trimmed ''7''" "trimmed ''close''" "trimmed ''image/png,stream=1''" "trimmed ''custom''"
  by (simp_all add: trimmed_def printable_def)

lemma responseEntries_ok:
  assumes "headerGet (hd_Values h) ''Sec-WebSocket-Protocol'' = []"
  shows "list_all (\<lambda>(k, v). entryOk (k, v) \<and> trimmed v) (responseEntries h isWs (b64encode enc))"
    and "headerGet (setAll (responseEntries h isWs (b64encode enc)) hs) ''X-Token'' = b64encode enc"
proof -
  have "noCR (wsAcceptOf w)" "trimmed (wsAcceptOf w)" for w
    by (simp_all add: wsAcceptOf_def) (simp add: trimmed_def)
  then show "list_all (\<lambda>(k, v). entryOk (k, v) \<and> trimmed v) (responseEntries h isWs (b64encode enc))"
    using assms by (auto simp: responseEntries_def trimmed_literals intro!: entryOk_names)
  show "headerGet (setAll (responseEntries h isWs (b64encode enc)) hs) ''X-Token'' = b64encode enc"
    by (rule setAll_get [where k' = "''X-Token''"])
      (use assms in \<open>simp_all add: responseEntries_def canonical_names\<close>)
qed

lemma statusLine:
  "respLine (bytes_of (''HTTP/1.1'' @ (if isWs then '' 101 Switching Protocols'' else '' 200 OK''))) 0 rs =
    Ok (rs\<lparr>rs_StatusCode := (if isWs then 101 else 200)\<rparr>)"
  by (simp add: respLine_def parseResponseLine_def parseInt64_def parseDigits_def isDigit_def numeral_3_eq_3)

lemma length_sum_entry: "length (entryLine (k, v)) = length k + length v + 2"
  by (simp add: entryLine_def)

lemma read_answer:
  assumes "hd_Proto h = ''HTTP/1.1''" and "headerGet (hd_Values h) ''Sec-WebSocket-Protocol'' = []" and "length enc = 32"
    and "concat segs = responseText h isWs (b64encode enc)"
  obtains rs segs' where "ReadResponse duplexRead (segs, out) = Some (Ok rs, (segs', out))" and "headerGet (rs_Header rs) ''X-Token'' = b64encode enc"
proof -
  let ?es = "responseEntries h isWs (b64encode enc)" and ?rs0 = "\<lparr>rs_StatusCode = 0, rs_Header = []\<rparr>"
  let ?l = "''HTTP/1.1'' @ (if isWs then '' 101 Switching Protocols'' else '' 200 OK'')"
  have l: "noCR ?l" "?l \<noteq> []"
    by simp_all
  have cs: "concat segs = bytes_of (?l @ crlf @ concat (map (\<lambda>l. l @ crlf) (map entryLine ?es)) @ crlf)"
    using assms(1,4) by (simp add: responseText_def)
  have "respLines (concat segs) 0 ?rs0 = Done \<lparr>rs_StatusCode = (if isWs then 101 else 200), rs_Header = setAll ?es []\<rparr>"
    unfolding cs respLines_line [OF l] statusLine
    using respLines_entries [OF responseEntries_ok(1) [OF assms(2)], of 1 isWs enc "[]"] by (simp del: bytes_of_append map_map)
  moreover have "length (concat segs) \<le> 1024 * 16"
    unfolding cs using assms(2,3)
    by (simp add: responseEntries_def length_sum_entry length_b64encode wsAcceptOf_def crlf_def)
  moreover have "subIndex (bytes_of crlf) [] = None"
    by (simp add: bytes_of_def crlf_def)
  moreover obtain x s' where "readResponseLoop duplexRead [] 0 ?rs0 (segs, out) = Some (x, s')" "snd s' = out"
    "length ([] :: bytes) + length (concat segs) \<le> 1024 * 16 \<and> subIndex (bytes_of crlf) [] = None \<longrightarrow> x = respSpec (respLines ([] @ concat segs) 0 ?rs0)"
    using dup.readResponseLoop_spec [where s = "(segs, out)" and buf = "[]" and i = 0 and rs = ?rs0 and out = out]
    unfolding fst_conv snd_conv by blast
  ultimately have "ReadResponse duplexRead (segs, out) =
      Some (Ok \<lparr>rs_StatusCode = (if isWs then 101 else 200), rs_Header = setAll ?es []\<rparr>, s')" "snd s' = out"
    by (simp_all add: ReadResponse_def respSpec_def)
  then have "ReadResponse duplexRead (segs, out) =
      Some (Ok \<lparr>rs_StatusCode = (if isWs then 101 else 200), rs_Header = setAll ?es []\<rparr>, (fst s', out))"
    by (cases s') simp
  moreover have "headerGet (rs_Header \<lparr>rs_StatusCode = (if isWs then 101 else 200), rs_Header = setAll ?es []\<rparr>) ''X-Token'' = b64encode enc"
    using responseEntries_ok(2) [OF assms(2)] by simp
  ultimately show thesis
    by (rule that)
qed

section \<open>The handshake\<close>

text \<open>The request of a client: what \<open>Connect\<close> writes, and what the server reads of it.\<close>

lemma connect_request:
  assumes "\<And>xs. mset (ord xs) = mset xs" and "h = fst (connectHeader uri useWS cid (b64encode enc) t)"
    and "u_Opaque uri = []" and "u_RawPath uri = []" and "noCR (u_Host uri)" and "length enc = 40"
    and "3 * length cid + length (u_Host uri) \<le> 8000"
  obtains m es where "requestOk m (''/api/cv2?'' @ encodeQuery ''c'' cid) ''HTTP/1.1'' es"
    and "\<And>up. Header_WriteTo up bufferWrite (h\<lparr>hd_Values := ord (hd_Values h)\<rparr>) [] =
      (let b = requestText m (''/api/cv2?'' @ encodeQuery ''c'' cid) ''HTTP/1.1'' es in Some (Ok (length b), b))"
    and "length (requestText m (''/api/cv2?'' @ encodeQuery ''c'' cid) ''HTTP/1.1'' es) + 2 * ExtendingSize \<le> MaxBufferSize"
    and "headerGet (setAll es []) ''Authentication'' = b64encode enc"
    and "equalFold (headerGet (setAll es []) ''Upgrade'') ''websocket'' = useWS"
    and "headerGet (setAll es []) ''Sec-WebSocket-Protocol'' = []"
proof -
  define u where "u = uri\<lparr>u_RawQuery := encodeQuery ''c'' cid, u_Path := ''/api/cv2''\<rparr>"
  define m where "m = (if useWS then ''GET'' else ''POST'')"
  let ?h = "h\<lparr>hd_Values := ord (hd_Values h)\<rparr>" and ?uri = "''/api/cv2?'' @ encodeQuery ''c'' cid"
  have h: "hd_URL h = Some u" "hd_Method h = m" "hd_Proto h = ''HTTP/1.1''" "hd_URL ?h = Some u" "u_Host u = u_Host uri"
    by (simp_all add: assms(2) connectHeader_fields u_def m_def)
  note uri = connect_uri [OF assms(3,4) u_def]
  obtain kvs where kvs: "writtenEntries ?h u = kvs @ (if u_Host u = [] then [] else [(''Host'', u_Host u)])"
    "mset kvs = mset (connectEntries useWS (b64encode (randBytes 4 t)) (b64encode enc))"
    by (rule connect_written [OF assms(1,2) h(1)])
  note es = connect_entries [OF kvs(2) b64_noCR assms(5) [folded h(5)] kvs(1)]
  have req: "requestOk m (requestURI u) ''HTTP/1.1'' (writtenEntries ?h u)"
    using uri(2) es(1) by (auto simp: requestOk_def m_def ascii_def toUpperChar_def)
  have wrt: "Header_WriteTo up bufferWrite ?h [] =
      (let b = requestText m (requestURI u) ''HTTP/1.1'' (writtenEntries ?h u) in Some (Ok (length b), b))" for up
    using WriteTo_request [OF h(4), of up "[]"] req by (simp add: h(2,3))
  have "sum_list (map (\<lambda>(k, v). length k + length v + 4) kvs) =
      sum_list (map (\<lambda>(k, v). length k + length v + 4) (connectEntries useWS (b64encode (randBytes 4 t)) (b64encode enc)))"
    using arg_cong [OF kvs(2), of "\<lambda>M. sum_mset (image_mset (\<lambda>(k, v). length k + length v + 4) M)"]
    by (simp only: mset_map [symmetric] sum_mset_sum_list)
  also have "\<dots> \<le> 300"
    using assms(6) by (simp add: connectEntries_def length_b64encode)
  finally have "length (requestText m (requestURI u) ''HTTP/1.1'' (writtenEntries ?h u)) + 2 * ExtendingSize \<le> MaxBufferSize"
    using assms(7) length_escape [of EncodeQueryComponent cid] length_escape [of EncodeQueryComponent "''c''"]
    by (simp add: length_requestText kvs(1) uri(1) h(5) m_def encodeQuery_def http_sizes)
  with that [of m "writtenEntries ?h u"] req wrt es(2-4) show thesis
    by (simp add: uri(1))
qed

text \<open>What \<open>Connect\<close> makes of the answer of the server.\<close>

lemma connect_answer:
  assumes "b64decode (Get (c_cfg c) FRAMER_PSK) = Some pskb" and "\<not> c_closed c" and "url_Parse (c_serverUrl c) = Some uri"
    and "dialTarget uri = (useTLS, useWS, addr)" and "authRequest pskb ts tC = (ab, authStr, t1)" and "length ab = 24"
    and "connectHeader uri useWS (c_id c) authStr t1 = (h, t2)"
    and "Header_WriteTo up bufferWrite (h\<lparr>hd_Values := ord (hd_Values h)\<rparr>) [] = Some (Ok sz, req)"
    and "hd_Proto hdr = ''HTTP/1.1''" and "headerGet (hd_Values hdr) ''Sec-WebSocket-Protocol'' = []"
    and "concat segs = responseText hdr useWS (b64encode enc)" and "length enc = 32" and "Decrypt pskb enc = Ok raw" and "length raw = 16"
    and "- (2 ^ 63) \<le> ts" and "ts < 2 ^ 63"
  obtains txC where "Connect up ord duplexRead duplexWrite (\<lambda>useTLS addr. Ok (segs, [])) ts tC c = Some (Ok txC, c\<lparr>c_connected := True\<rparr>)"
    and "snd (txConn txC) = req" and "txKey txC = stampKey ts (Xor raw (drop 8 ab))" and "txMask txC = (if useWS then Some True else None)"
proof -
  obtain rs segs2 where rs: "ReadResponse duplexRead (segs, req) = Some (Ok rs, (segs2, req))" "headerGet (rs_Header rs) ''X-Token'' = b64encode enc"
    by (rule read_answer [OF assms(9,10,12,11)])
  define k where "k = Xor raw (drop 8 ab)"
  have k: "length k = 16"
    using assms(6,14) by (simp add: k_def length_Xor)
  have "length (b64encode enc) > 0" "enc \<noteq> []"
    using assms(12) by (auto simp: length_b64encode)
  then have key: "answerKey pskb ab rs = Ok (b64encode k)"
    using rs(2) assms(13) by (simp add: answerKey_def k_def)
  obtain txC where tx: "newFramer useWS (segs2, req) (framerParams (c_cfg c) (b64encode k) ts ''client'') t2 = Ok txC"
    "txConn txC = (segs2, req)" "txKey txC = stampKey ts k" "txMask txC = (if useWS then Some (equalFold ''client'' ''client'') else None)"
    by (rule newFramer_params [OF k assms(15,16)])
  have "Connect up ord duplexRead duplexWrite (\<lambda>useTLS addr. Ok (segs, [])) ts tC c = Some (Ok txC, c\<lparr>c_connected := True\<rparr>)"
    using assms(1-5,7,8) rs(1) key tx(1) by (simp add: Connect_def duplexWrite_def)
  with tx that [of txC] show thesis
    by (simp add: k_def)
qed

text \<open>The two ends of a finished handshake.\<close>

definition agreed :: "bytes \<Rightarrow> duplex txFramer \<Rightarrow> duplex txFramer \<Rightarrow> bool" where
  "agreed req txC txS \<longleftrightarrow>
     snd (txConn txC) = req \<and> txKey txC = txKey txS \<and> length (txKey txC) = 16 \<and>
     txMask txC = map_option Not (txMask txS) \<and> txMask txS \<noteq> Some True"

lemma handshake:
  assumes "b64decode (Get (c_cfg c) FRAMER_PSK) = Some pskb" and "b64decode (Get (so_ProtocolParams options) FRAMER_PSK) = Some pskb"
    and "keyOk pskb" and "so_Handler options" and "\<not> c_closed c" and "c_id c \<noteq> []"
    and "url_Parse (c_serverUrl c) = Some uri" and "u_Opaque uri = []" and "u_RawPath uri = []" and "noCR (u_Host uri)"
    and "3 * length (c_id c) + length (u_Host uri) \<le> 8000"
    and "\<And>xs. mset (ord xs) = mset xs" and "0 \<le> ts" and "ts < 2 ^ 63" and "\<bar>ts - now\<bar> \<le> 120"
  shows "\<exists>req. \<forall>segs. concat segs = req \<and> [] \<notin> set segs \<longrightarrow>
    (\<exists>txS segsR resp. handleServerConn up duplexRead duplexWrite options now tS (segs, []) = Some (Ok (Handled (c_id c) txS), (segsR, resp)) \<and>
      (\<forall>segs'. concat segs' = resp \<longrightarrow>
        (\<exists>txC. Connect up ord duplexRead duplexWrite (\<lambda>useTLS addr. Ok (segs', [])) ts tC c = Some (Ok txC, c\<lparr>c_connected := True\<rparr>) \<and>
          agreed req txC txS)))"
proof -
  have ts: "- (2 ^ 63) \<le> ts"
    using assms(13) by simp
  obtain useTLS useWS addr where target: "dialTarget uri = (useTLS, useWS, addr)"
    by (metis prod.collapse)
  obtain ab enc t1 where auth: "authRequest pskb ts tC = (ab, b64encode enc, t1)" "length ab = 24" "length enc = 40"
    "Decrypt pskb enc = Ok ab" "sint (uint64 (take 8 ab)) = ts"
    by (rule authRequest_spec [OF assms(3) ts assms(14)])
  obtain h t2 where h: "connectHeader uri useWS (c_id c) (b64encode enc) t1 = (h, t2)"
    by fastforce
  then have h': "h = fst (connectHeader uri useWS (c_id c) (b64encode enc) t1)"
    by simp
  define q where "q = ''/api/cv2?'' @ encodeQuery ''c'' (c_id c)"
  obtain m es where r: "requestOk m q ''HTTP/1.1'' es"
    "Header_WriteTo up bufferWrite (h\<lparr>hd_Values := ord (hd_Values h)\<rparr>) [] =
      Some (Ok (length (requestText m q ''HTTP/1.1'' es)), requestText m q ''HTTP/1.1'' es)"
    "length (requestText m q ''HTTP/1.1'' es) + 2 * ExtendingSize \<le> MaxBufferSize"
    "headerGet (setAll es []) ''Authentication'' = b64encode enc"
    "equalFold (headerGet (setAll es []) ''Upgrade'') ''websocket'' = useWS"
    "headerGet (setAll es []) ''Sec-WebSocket-Protocol'' = []"
    by (rule connect_request [OF assms(12) h' assms(8-10) auth(3) assms(11)]) (simp add: q_def Let_def)
  let ?req = "requestText m q ''HTTP/1.1'' es"
  let ?u = "emptyURL\<lparr>u_Path := ''/api/cv2'', u_RawQuery := encodeQuery ''c'' (c_id c)\<rparr>"
  define hdr where "hdr = parsedHeader m ?u ''HTTP/1.1'' es"
  have u: "url_ParseRequestURI q = Some ?u"
    using connect_uri(1,3) [OF assms(8,9) refl, of "c_id c"] by (simp add: q_def)
  obtain u' where u': "hd_URL hdr = Some u'" "u_RawQuery u' = encodeQuery ''c'' (c_id c)"
    by (simp add: hdr_def parsedHeader_def)
  have cid: "queryGet ''c'' u' = c_id c"
    by (rule queryGet_encodeQuery [OF u'(2)]) (simp add: alphaNum_def)
  have hdr: "hd_Proto hdr = ''HTTP/1.1''" "hd_Values hdr = setAll es []"
    by (simp_all add: hdr_def parsedHeader_def)
  have check: "checkAuth pskb (headerGet (hd_Values hdr) ''Authentication'') now = Ok (Some (ab, ts))"
    unfolding hdr(2) r(4) by (rule checkAuth_ok [OF auth(3,4,2,5) assms(15)])
  have ws: "equalFold (headerGet (hd_Values hdr) ''Upgrade'') ''websocket'' = useWS"
    using r(5) by (simp add: hdr(2))
  have proto: "headerGet (hd_Values hdr) ''Sec-WebSocket-Protocol'' = []"
    using r(6) by (simp add: hdr(2))
  have "\<exists>txS segsR resp. handleServerConn up duplexRead duplexWrite options now tS (segs, []) = Some (Ok (Handled (c_id c) txS), (segsR, resp)) \<and>
      (\<forall>segs'. concat segs' = resp \<longrightarrow>
        (\<exists>txC. Connect up ord duplexRead duplexWrite (\<lambda>useTLS addr. Ok (segs', [])) ts tC c = Some (Ok txC, c\<lparr>c_connected := True\<rparr>) \<and>
          agreed ?req txC txS))"
    if segs: "concat segs = ?req" "[] \<notin> set segs" for segs
  proof -
    obtain hr where hr: "PeekHeader up duplexRead (NewHeaderReader (segs, [])) = Some (Ok hdr, hr)" "snd (hr_r hr) = []"
      using ldup.PeekHeader_text [where s = "(segs, [])" and out = "[]" and rest = "[]", OF _ r(1) u _ r(3)] segs
      by (auto simp: hdr_def)
    obtain raw enc2 txS where s: "serveHeader duplexWrite options now tS hdr (hr_r hr) =
        Some (Ok (Handled (c_id c) txS), (fst (hr_r hr), snd (hr_r hr) @ responseText hdr useWS (b64encode enc2)))"
      "length raw = 16" "length enc2 = 32" "Decrypt pskb enc2 = Ok raw" "txKey txS = stampKey ts (Xor raw (drop 8 ab))"
      "txMask txS = (if useWS then Some False else None)"
      by (rule serveHeader_ok [OF assms(3,2,4) u'(1) cid assms(6) check auth(2) ts assms(14) ws])
    have "\<exists>txC. Connect up ord duplexRead duplexWrite (\<lambda>useTLS addr. Ok (segs', [])) ts tC c = Some (Ok txC, c\<lparr>c_connected := True\<rparr>) \<and>
        agreed ?req txC txS"
      if "concat segs' = responseText hdr useWS (b64encode enc2)" for segs'
      by (rule connect_answer [where ord = ord and h = h, OF assms(1,5,7) target auth(1,2) h r(2) hdr(1) proto that s(3,4,2) ts assms(14)])
        (use s(2,5,6) auth(2) in \<open>auto simp: agreed_def length_Xor\<close>)
    with hr s(1) show ?thesis
      by (simp add: handleServerConn_def)
  qed
  then show ?thesis
    by blast
qed

text \<open>A handshake with concrete configurations.\<close>

definition samplePsk :: bytes where
  "samplePsk = [93, 8, 97, 170, 50, 2, 229, 99, 137, 182, 146, 154, 94, 110, 52, 109]"

definition sampleParams :: Values where
  "sampleParams = Set (Set Map.empty FRAMER_PSK (b64encode samplePsk)) SERVER_URL ''wss://example.com''"

definition sampleClient :: Client where
  "sampleClient = \<lparr>c_cfg = sampleParams, c_id = ''c-1'', c_serverUrl = ''wss://example.com'', c_closed = False, c_connected = False,
     c_chClose = 0, c_bufRead = NewReadWriteBuffer\<rparr>"

definition sampleOptions :: ServerOptions where
  "sampleOptions = \<lparr>so_Port = 443, so_ProtocolParams = sampleParams, so_Handler = True\<rparr>"

definition sampleURL :: URL where
  "sampleURL = emptyURL\<lparr>u_Scheme := ''wss'', u_Host := ''example.com''\<rparr>"

lemma sample_url: "url_Parse ''wss://example.com'' = Some sampleURL"
proof -
  have "unescape EncodeHost ''example.com'' = Some ''example.com''"
    by (simp add: unescape.simps shouldEscape_def alphaNum_def)
  then have "parseHost ''example.com'' = Some ''example.com''"
    by (simp add: parseHost_def hasPrefix_def)
  then have "parseAuthority ''example.com'' = Some ''example.com''"
    by (simp add: parseAuthority_def)
  then show ?thesis
    by (simp add: url_Parse_def cut_def parse_def ctlByte_def getScheme_def toLowerChar_def hasSuffix_def hasPrefix_def
        parseHierarchy_def setPath_def sampleURL_def emptyURL_def)
qed

lemma sample_facts:
  "b64decode (Get (c_cfg sampleClient) FRAMER_PSK) = Some samplePsk"
  "b64decode (Get (so_ProtocolParams sampleOptions) FRAMER_PSK) = Some samplePsk" "keyOk samplePsk"
  "so_Handler sampleOptions" "\<not> c_closed sampleClient" "c_id sampleClient \<noteq> []" "url_Parse (c_serverUrl sampleClient) = Some sampleURL"
  "u_Opaque sampleURL = []" "u_RawPath sampleURL = []" "noCR (u_Host sampleURL)" "3 * length (c_id sampleClient) + length (u_Host sampleURL) \<le> 8000"
proof -
  show "keyOk samplePsk"
    by (simp add: samplePsk_def keyOk_def)
  show "url_Parse (c_serverUrl sampleClient) = Some sampleURL"
    by (simp add: sampleClient_def sample_url)
qed (simp_all add: sampleClient_def sampleOptions_def sampleParams_def conf_names sampleURL_def emptyURL_def)

lemma sample_handled:
  "\<exists>segs tx s. handleServerConn up duplexRead duplexWrite sampleOptions 1700000100 t (segs, []) = Some (Ok (Handled ''c-1'' tx), s)"
proof -
  have "\<exists>req. \<forall>segs. concat segs = req \<and> [] \<notin> set segs \<longrightarrow>
      (\<exists>tx s. handleServerConn up duplexRead duplexWrite sampleOptions 1700000100 t (segs, []) = Some (Ok (Handled (c_id sampleClient) tx), s))"
    using handshake [OF sample_facts refl, of 1700000000 1700000100 up t "\<lambda>_. 1"] by (simp del: prod.inject) meson
  then obtain req where req: "\<forall>segs. concat segs = req \<and> [] \<notin> set segs \<longrightarrow>
      (\<exists>tx s. handleServerConn up duplexRead duplexWrite sampleOptions 1700000100 t (segs, []) = Some (Ok (Handled (c_id sampleClient) tx), s))"
    by blast
  define segs where "segs = (if req = [] then [] else [req])"
  have "concat segs = req \<and> [] \<notin> set segs"
    by (simp add: segs_def)
  with req have "\<exists>tx s. handleServerConn up duplexRead duplexWrite sampleOptions 1700000100 t (segs, []) =
      Some (Ok (Handled (c_id sampleClient) tx), s)"
    by blast
  moreover have "c_id sampleClient = ''c-1''"
    by (simp add: sampleClient_def)
  ultimately show ?thesis
    by (intro exI [of _ segs]) simp
qed

section \<open>Properties\<close>

text \<open>C11. Key agreement of \<open>h1\<close>, end to end. A client and a server with the same pre-shared key, whose clocks
  differ by at most two minutes: whatever the segments of the request, the iteration order of the
  header map and the random bytes, the server accepts the request and runs its handler for the id of
  the client; whatever the segments of the answer, \<open>Connect\<close> succeeds; and the framers of both ends
  have the same 16 byte key and are of the same kind, a websocket client masking and a websocket
  server not.\<close>

theorem h1_key_agreement:
  assumes "b64decode (Get (c_cfg c) FRAMER_PSK) = Some pskb" and "b64decode (Get (so_ProtocolParams options) FRAMER_PSK) = Some pskb"
    and "keyOk pskb" and "so_Handler options" and "\<not> c_closed c" and "c_id c \<noteq> []"
    and "url_Parse (c_serverUrl c) = Some uri" and "u_Opaque uri = []" and "u_RawPath uri = []" and "noCR (u_Host uri)"
    and "3 * length (c_id c) + length (u_Host uri) \<le> 8000"
    and "\<And>xs. mset (ord xs) = mset xs" and "0 \<le> ts" and "ts < 2 ^ 63" and "\<bar>ts - now\<bar> \<le> 120"
  shows "\<exists>req. \<forall>segs. concat segs = req \<and> [] \<notin> set segs \<longrightarrow>
    (\<exists>txS segsR resp. handleServerConn up duplexRead duplexWrite options now tS (segs, []) = Some (Ok (Handled (c_id c) txS), (segsR, resp)) \<and>
      (\<forall>segs'. concat segs' = resp \<longrightarrow>
        (\<exists>txC. Connect up ord duplexRead duplexWrite (\<lambda>useTLS addr. Ok (segs', [])) ts tC c = Some (Ok txC, c\<lparr>c_connected := True\<rparr>) \<and>
          agreed req txC txS)))"
  by (rule handshake [OF assms])

theorem h1_key_agreement_witness:
  "\<exists>req. \<forall>segs. concat segs = req \<and> [] \<notin> set segs \<longrightarrow>
    (\<exists>txS segsR resp. handleServerConn (\<lambda>s. s) duplexRead duplexWrite sampleOptions 1700000100 (\<lambda>_. 2) (segs, []) =
        Some (Ok (Handled ''c-1'' txS), (segsR, resp)) \<and>
      (\<forall>segs'. concat segs' = resp \<longrightarrow>
        (\<exists>txC. Connect (\<lambda>s. s) rev duplexRead duplexWrite (\<lambda>useTLS addr. Ok (segs', [])) 1700000000 (\<lambda>_. 1) sampleClient =
            Some (Ok txC, sampleClient\<lparr>c_connected := True\<rparr>) \<and> agreed req txC txS)))"
  using h1_key_agreement [OF sample_facts, of rev 1700000000 1700000100 "\<lambda>s. s" "\<lambda>_. 2" "\<lambda>_. 1"]
  by (simp add: sampleClient_def)

text \<open>C12. Authentication: the handler of the server runs only for a request whose \<open>Authentication\<close> header decrypts,
  under the pre-shared key of the server, to at least 24 bytes that begin with a time at most two
  minutes away from the time of the server, and that names a client.\<close>

theorem h1_authenticated:
  assumes "handleServerConn up rd wr options now t conn = Some (Ok (Handled cid tx), conn')"
  shows "\<exists>h r pskb enc authb. PeekHeader up rd (NewHeaderReader conn) = Some (Ok h, r) \<and>
    b64decode (Get (so_ProtocolParams options) FRAMER_PSK) = Some pskb \<and>
    b64decode (headerGet (hd_Values h) ''Authentication'') = Some enc \<and> Decrypt pskb enc = Ok authb \<and> 24 \<le> length authb \<and>
    \<bar>sint (uint64 (take 8 authb) - word_of_int now)\<bar> \<le> 120 \<and> cid \<noteq> []"
proof -
  obtain h r where h: "PeekHeader up rd (NewHeaderReader conn) = Some (Ok h, r)" "serveHeader wr options now t h (hr_r r) = Some (Ok (Handled cid tx), conn')"
    using assms by (auto simp: handleServerConn_def split: option.splits res.splits)
  have no_abort: "abort wr h reason c \<noteq> Some (Ok (Handled cid tx), conn')" for reason c
    by (auto simp: abort_def split: option.splits res.splits)
  obtain pskb authb ts where p: "b64decode (Get (so_ProtocolParams options) FRAMER_PSK) = Some pskb" "cid \<noteq> []"
    "checkAuth pskb (headerGet (hd_Values h) ''Authentication'') now = Ok (Some (authb, ts))"
    using h(2) no_abort
    by (auto simp: serveHeader_def Let_def panic_def split: if_splits option.splits res.splits prod.splits)
  then show ?thesis
    using h(1) by (auto simp: checkAuth_def Let_def KeySize_def BlockSize_def split: if_splits option.splits res.splits)
qed

theorem h1_authenticated_witness:
  "\<exists>segs h r enc authb. PeekHeader (\<lambda>s. s) duplexRead (NewHeaderReader (segs, [])) = Some (Ok h, r) \<and>
    b64decode (headerGet (hd_Values h) ''Authentication'') = Some enc \<and> Decrypt samplePsk enc = Ok authb \<and> 24 \<le> length authb"
proof -
  obtain segs tx s where "handleServerConn (\<lambda>s. s) duplexRead duplexWrite sampleOptions 1700000100 (\<lambda>_. 2) (segs, []) = Some (Ok (Handled ''c-1'' tx), s)"
    using sample_handled by blast
  from h1_authenticated [OF this] show ?thesis
    using sample_facts(2) by auto
qed

text \<open>C35. Anyone can crash the server: a request with a client id and an \<open>Authentication\<close> header that is base 64 of
  fewer than 16 bytes makes the goroutine of the connection panic, in every segmentation, before any
  authentication; a panic in a goroutine ends the process.\<close>

theorem h1_short_auth_panics:
  assumes "b64decode (Get (so_ProtocolParams options) FRAMER_PSK) = Some pskb" and "keyOk pskb"
    and "concat segs = requestText ''GET'' ''/a?c=x'' ''HTTP/1.1'' [(''Authentication'', ''AAAA'')] @ rest" and "[] \<notin> set segs"
  shows "\<exists>conn. handleServerConn up duplexRead duplexWrite options now t (segs, []) = Some (Panic, conn)"
proof -
  let ?es = "[(''Authentication'', ''AAAA'')]" and ?u = "emptyURL\<lparr>u_Path := ''/a'', u_RawQuery := ''c=x''\<rparr>"
  let ?h = "parsedHeader ''GET'' ?u ''HTTP/1.1'' ?es"
  have ok: "requestOk ''GET'' ''/a?c=x'' ''HTTP/1.1'' ?es"
    by (simp add: requestOk_def ascii_def toUpperChar_def entryOk_names)
  have u: "url_ParseRequestURI ''/a?c=x'' = Some ?u"
    using parseRequestURI_plain [of "''a''" "''x''" "''c=x''" "CHR ''c''"] by (simp add: plainPath_def queryChar_def alphaNum_def)
  have len: "length (requestText ''GET'' ''/a?c=x'' ''HTTP/1.1'' ?es) + 2 * ExtendingSize \<le> MaxBufferSize"
    by (simp add: length_requestText http_sizes)
  obtain hr where hr: "PeekHeader up duplexRead (NewHeaderReader (segs, [])) = Some (Ok ?h, hr)"
    using ldup.PeekHeader_text [where s = "(segs, [])" and out = "[]", OF _ ok u _ len] assms(3,4) by auto
  have "queryGet ''c'' u' = ''x''" if "u_RawQuery u' = ''c=x''" for u'
    by (rule queryGet_encodeQuery) (simp_all add: that encodeQuery_def shouldEscape_def alphaNum_def)
  moreover have "headerGet (setAll ?es []) ''Authentication'' = ''AAAA''"
    by (simp add: setAll_def headerGet_Set)
  moreover have "b64decode ''AAAA'' = Some [0, 0, 0]"
    by (simp add: b64decode_def b64val_def Let_def)
  ultimately show ?thesis
    using hr assms(1) NewCipher_keyOk [OF assms(2)]
    by (simp add: handleServerConn_def serveHeader_def parsedHeader_def hostOf_def hostName emptyURL_def checkAuth_def Decrypt_def
        BlockSize_def panic_def)
qed

theorem h1_short_auth_panics_witness:
  "\<exists>conn. handleServerConn (\<lambda>s. s) duplexRead duplexWrite sampleOptions 1700000000 (\<lambda>_. 0)
      ([requestText ''GET'' ''/a?c=x'' ''HTTP/1.1'' [(''Authentication'', ''AAAA'')]], []) = Some (Panic, conn)"
proof -
  have "requestText ''GET'' ''/a?c=x'' ''HTTP/1.1'' [(''Authentication'', ''AAAA'')] \<noteq> []"
    by (simp add: length_requestText flip: length_greater_0_conv)
  then show ?thesis
    by (intro h1_short_auth_panics [OF sample_facts(2,3), where rest = "[]"]) auto
qed

end
