(* ===== verification/Pool_Client.thy ===== *)
theory Pool_Client
  imports Packet H1 "HOL-Library.AList"
begin

text \<open>
  The client side of the pool, \<open>transport/h1pool/client.go\<close>: a small set of shared clients (trunks),
  renewed by age, and any number of divided clients that send their data over the youngest trunk.
  Shown here: the size of the pool is bounded, exactly one shared client is the oldest whatever the
  order of iteration, a trunk is given up only for the reasons of the code, the choice of the trunk,
  the bounded wait for one, and the delivery of incoming data.
\<close>

section \<open>State\<close>

text \<open>A shared client; \<open>cl_connected\<close> is \<open>tx.Connected()\<close> of its \<open>h1.Client\<close>.\<close>

record client =
  cl_id :: string
  cl_connected :: bool
  cl_exited :: bool
  cl_lastPongUnix :: int
  cl_lastPingUnix :: int
  cl_lastDataUnix :: int
  cl_createdAt :: int
  cl_bytesRecv :: "64 word"
  cl_bytesSent :: "64 word"

definition newClient :: "string \<Rightarrow> int \<Rightarrow> client" where
  "newClient cid now =
     \<lparr>cl_id = cid, cl_connected = False, cl_exited = False, cl_lastPongUnix = 0, cl_lastPingUnix = 0, cl_lastDataUnix = 0,
      cl_createdAt = now, cl_bytesRecv = 0, cl_bytesSent = 0\<rparr>"

record dividedClient =
  dc_clientId :: string
  dc_buf :: ReadWriteBuffer
  dc_serial :: "32 word"

definition newDividedClient :: "string \<Rightarrow> dividedClient" where
  "newDividedClient clientId = \<lparr>dc_clientId = clientId, dc_buf = NewReadWriteBuffer, dc_serial = 0\<rparr>"

text \<open>The package variables: \<open>sharedClients\<close> in the order in which \<open>Range\<close> visits it, \<open>clients\<close>, and
  \<open>workerAlive\<close>.\<close>

record pool =
  po_sharedClients :: "(string \<times> client) list"
  po_clients :: "string \<rightharpoonup> dividedClient"
  po_workerAlive :: bool

section \<open>Choosing a shared client\<close>

definition oldestStep :: "string \<times> client \<Rightarrow> nat \<times> int \<times> string \<Rightarrow> nat \<times> int \<times> string" where
  "oldestStep e acc =
     (case (e, acc) of
        ((k, sc), (n, oldest, oldestId)) \<Rightarrow>
          if oldest = 0 \<or> cl_createdAt sc < oldest then (n + 1, cl_createdAt sc, cl_id sc)
          else (n + 1, oldest, oldestId))"

definition queryClientInfo :: "string \<Rightarrow> pool \<Rightarrow> bool \<times> nat" where
  "queryClientInfo cid s =
     (case fold oldestStep (po_sharedClients s) (0, 0, []) of
        (n, oldest, oldestId) \<Rightarrow> (oldestId = cid, n))"

text \<open>The variables \<open>scAny\<close>, \<open>sc\<close>, \<open>latest\<close> of the loop.\<close>

definition availStep :: "string \<times> client \<Rightarrow> client option \<times> client option \<times> int \<Rightarrow> client option \<times> client option \<times> int" where
  "availStep e acc =
     (case (e, acc) of
        ((k, c), (scAny, sc, latest)) \<Rightarrow>
          if latest = 0 \<or> latest < cl_createdAt c then
            (if cl_connected c then (Some c, Some c, cl_createdAt c)
             else if sc = None then (Some c, Some c, latest)
             else (Some c, sc, latest))
          else (Some c, sc, latest))"

definition getAvailableSharedClient :: "pool \<Rightarrow> client option" where
  "getAvailableSharedClient s =
     (case fold availStep (po_sharedClients s) (None, None, 0) of
        (scAny, sc, latest) \<Rightarrow> if sc \<noteq> None then sc else scAny)"

text \<open>\<open>client()\<close>: one look, then a look every two seconds until more than 30 seconds have passed. \<open>looks i\<close>
  is the pool at the \<open>i\<close>-th look.\<close>

function waitClient :: "(nat \<Rightarrow> pool) \<Rightarrow> nat \<Rightarrow> nat \<Rightarrow> client option" where
  "waitClient looks i dur =
     (case getAvailableSharedClient (looks i) of
        Some sc \<Rightarrow> Some sc
      | None \<Rightarrow> if 30 < dur + 2 then None else waitClient looks (Suc i) (dur + 2))"
  by pat_completeness auto
termination
  by (relation "measure (\<lambda>(looks, i, dur). 30 - dur)") auto

declare waitClient.simps [simp del]

definition dividedClient_client :: "(nat \<Rightarrow> pool) \<Rightarrow> client option" where
  "dividedClient_client looks =
     (case getAvailableSharedClient (looks 0) of
        Some sc \<Rightarrow> Some sc
      | None \<Rightarrow> waitClient looks 1 0)"

section \<open>Renewing the pool\<close>

text \<open>\<open>tryAddNewSharedClient\<close>; \<open>uid\<close> is the result of \<open>utils.UniqueId(8)\<close>, \<open>prefix\<close> the package variable.\<close>

definition tryAddNewSharedClient :: "Values \<Rightarrow> string \<Rightarrow> string \<Rightarrow> int \<Rightarrow> pool \<Rightarrow> goerr option \<times> pool" where
  "tryAddNewSharedClient cfg prefix uid now s =
     (let tot = length (po_sharedClients s);
          healthyCount = length (filter (\<lambda>(k, sc). now - 300 < cl_createdAt sc) (po_sharedClients s))
      in if tot < 5 \<and> healthyCount = 0 then
           (let trunkClientId = prefix @ '':'' @ uid
            in case NewClient cfg trunkClientId of
                 Err e \<Rightarrow> (Some e, s)
               | Panic \<Rightarrow> (None, s)
               | Ok cl \<Rightarrow> (None, s\<lparr>po_sharedClients := AList.update trunkClientId (newClient trunkClientId now) (po_sharedClients s)\<rparr>))
         else (None, s))"

definition clientsWorker_tick :: "Values \<Rightarrow> string \<Rightarrow> string \<Rightarrow> int \<Rightarrow> string list \<Rightarrow> pool \<Rightarrow> pool" where
  "clientsWorker_tick cfg prefix uid now cids s =
     (if list_ex (\<lambda>cid. po_clients s cid \<noteq> None) cids \<and> po_sharedClients s = [] then
        snd (tryAddNewSharedClient cfg prefix uid now s)
      else s)"

definition getClient :: "Values \<Rightarrow> string \<Rightarrow> string \<Rightarrow> int \<Rightarrow> string \<Rightarrow> pool \<Rightarrow> goerr option \<times> pool" where
  "getClient cfg prefix uid now clientId s =
     (let s0 = s\<lparr>po_workerAlive := True\<rparr>
      in case tryAddNewSharedClient cfg prefix uid now s0 of
           (Some e, s1) \<Rightarrow> (Some e, s1)
         | (None, s1) \<Rightarrow> (None, s1\<lparr>po_clients := (po_clients s1)(clientId \<mapsto> newDividedClient clientId)\<rparr>))"

section \<open>The loop of a shared client\<close>

text \<open>What the loop does every five seconds: leave (pong stalled, or decommissioned), or go on, with a ping in
  every second round.\<close>

datatype tick = PongStalled | Decommission | Ping | Idle

definition clientTick :: "int \<Rightarrow> 64 word \<Rightarrow> client \<Rightarrow> pool \<Rightarrow> tick" where
  "clientTick now serial c s =
     (if cl_createdAt c < cl_lastPingUnix c \<and> cl_lastPongUnix c + 15 < cl_lastPingUnix c then PongStalled
      else
        (let idle = cl_lastDataUnix c + 30 < now;
             idleTooLong = cl_lastDataUnix c + 60 < now;
             (oldest, tot) = queryClientInfo (cl_id c) s
         in if cl_createdAt c + 120 < now \<and> oldest \<and> ((1 < tot \<and> idle) \<or> idleTooLong) then Decommission
            else if serial mod 2 = 0 then Ping
            else Idle))"

definition updShared :: "string \<Rightarrow> (client \<Rightarrow> client) \<Rightarrow> pool \<Rightarrow> pool" where
  "updShared k f s = s\<lparr>po_sharedClients := map (\<lambda>(k', c). if k' = k then (k', f c) else (k', c)) (po_sharedClients s)\<rparr>"

text \<open>The deferred calls when the loop is left.\<close>

definition clientExit :: "string \<Rightarrow> pool \<Rightarrow> pool" where
  "clientExit k s = s\<lparr>po_sharedClients := AList.delete k (po_sharedClients s)\<rparr>"

text \<open>\<open>writePacket\<close> of a shared client on its transport: on success the bytes and the time of data packets
  are counted.\<close>

definition client_writePacket :: "'t writer \<Rightarrow> int \<Rightarrow> Packet \<Rightarrow> client \<Rightarrow> (client, 't) io" where
  "client_writePacket wr now p c =
     bind (writePacket wr p) (\<lambda>_.
       ret (if pk_Op p = OP_DATA
            then c\<lparr>cl_bytesSent := cl_bytesSent c + of_nat (length (pk_Data p)), cl_lastDataUnix := now\<rparr>
            else c))"

text \<open>\<open>Close\<close> of a divided client; \<open>sc\<close> is the result of \<open>client()\<close>, and the packet goes to it (a failure to
  write is ignored).\<close>

definition dividedClient_Close :: "client option \<Rightarrow> dividedClient \<Rightarrow> pool \<Rightarrow> Packet option \<times> dividedClient \<times> pool" where
  "dividedClient_Close sc c s =
     (let c1 = (case RW_Close (dc_buf c) of Some (r, b) \<Rightarrow> c\<lparr>dc_buf := b\<rparr> | None \<Rightarrow> c);
          s1 = s\<lparr>po_clients := (po_clients s)(dc_clientId c := None)\<rparr>
      in case sc of
           None \<Rightarrow> (None, c1, s1)
         | Some _ \<Rightarrow>
             (Some \<lparr>pk_ClientId = dc_clientId c, pk_Serial = dc_serial c, pk_Op = OP_EOS, pk_Data = []\<rparr>,
              c1\<lparr>dc_serial := dc_serial c + 1\<rparr>, s1))"

definition dividedClient_writeBuf :: "bytes \<Rightarrow> dividedClient \<Rightarrow> dividedClient" where
  "dividedClient_writeBuf dat c =
     (case RW_Write dat (dc_buf c) of Some (r, b) \<Rightarrow> c\<lparr>dc_buf := b\<rparr> | None \<Rightarrow> c)"

text \<open>One round of the goroutine that reads the trunk \<open>k\<close>, after \<open>readPacket\<close> returned \<open>p\<close>; \<open>sc\<close> is the
  result of \<open>client()\<close> in \<open>Close\<close>. The packet that \<open>Close\<close> sends is the first component.\<close>

definition clientRecv :: "string \<Rightarrow> int \<Rightarrow> client option \<Rightarrow> Packet \<Rightarrow> pool \<Rightarrow> Packet option \<times> pool" where
  "clientRecv k now sc p s =
     (let s1 = updShared k (\<lambda>c. c\<lparr>cl_bytesRecv := cl_bytesRecv c + of_nat (length (pk_Data p))\<rparr>) s
      in if pk_Op p = OP_DATA then
           (let s2 = updShared k (\<lambda>c. c\<lparr>cl_lastDataUnix := now\<rparr>) s1
            in (None, s2\<lparr>po_clients := (po_clients s2)(pk_ClientId p :=
                  map_option (dividedClient_writeBuf (pk_Data p)) (po_clients s2 (pk_ClientId p)))\<rparr>))
         else if pk_Op p = OP_PONG then (None, updShared k (\<lambda>c. c\<lparr>cl_lastPongUnix := now\<rparr>) s1)
         else if pk_Op p = OP_EOS then
           (case po_clients s1 (pk_ClientId p) of
              None \<Rightarrow> (None, s1)
            | Some c \<Rightarrow> (case dividedClient_Close sc c s1 of (q, c', s2) \<Rightarrow> (q, s2)))
         else (None, s1))"

text \<open>\<open>Write\<close> of a divided client: a packet with the next serial is written to the shared client \<open>sc\<close>, the result of
  \<open>client()\<close>, whose transport is \<open>t\<close>.\<close>

definition dividedClient_Write :: "'t writer \<Rightarrow> int \<Rightarrow> bytes \<Rightarrow> client option \<Rightarrow> dividedClient \<Rightarrow> 't \<Rightarrow>
    ((nat res \<times> dividedClient \<times> client option) \<times> 't) option" where
  "dividedClient_Write wr now dat sc c t =
     (case sc of
        None \<Rightarrow> Some ((Err (Errorf ''no alive transport.''), c, None), t)
      | Some sc1 \<Rightarrow>
          (let c1 = c\<lparr>dc_serial := dc_serial c + 1\<rparr>;
               p = \<lparr>pk_ClientId = dc_clientId c, pk_Serial = dc_serial c, pk_Op = OP_DATA, pk_Data = dat\<rparr>
           in case client_writePacket wr now p sc1 t of
                None \<Rightarrow> None
              | Some (Ok sc2, t1) \<Rightarrow> Some ((Ok (length dat), c1, Some sc2), t1)
              | Some (Err e, t1) \<Rightarrow> Some ((Err e, c1, Some sc1), t1)
              | Some (Panic, t1) \<Rightarrow> Some ((Panic, c1, Some sc1), t1)))"

definition dividedClient_Read :: "nat \<Rightarrow> client option \<Rightarrow> (bytes, dividedClient) io" where
  "dividedClient_Read n sc c =
     (case sc of
        None \<Rightarrow> Some (Err (Errorf ''no alive transport.''), c)
      | Some _ \<Rightarrow> (case RW_tryRead n (dc_buf c) of None \<Rightarrow> None | Some (r, b) \<Rightarrow> Some (r, c\<lparr>dc_buf := b\<rparr>)))"

section \<open>The oldest and the youngest\<close>

text \<open>The invariant of the set of shared clients: at most five, keys are ids, every creation time is positive.\<close>

definition poolInv :: "pool \<Rightarrow> bool" where
  "poolInv s \<longleftrightarrow>
     length (po_sharedClients s) \<le> 5 \<and> distinct (map fst (po_sharedClients s)) \<and>
     list_all (\<lambda>(k, c). cl_id c = k \<and> 0 < cl_createdAt c) (po_sharedClients s)"

definition oldestSoFar :: "(string \<times> client) list \<Rightarrow> nat \<times> int \<times> string \<Rightarrow> bool" where
  "oldestSoFar seen acc =
     (case acc of
        (n, oldest, oldestId) \<Rightarrow>
          n = length seen \<and>
          (if seen = [] then oldest = 0
           else 0 < oldest \<and> list_ex (\<lambda>(k, c). cl_id c = oldestId \<and> cl_createdAt c = oldest) seen \<and>
                list_all (\<lambda>(k, c). oldest \<le> cl_createdAt c) seen))"

lemma fold_oldestStep:
  assumes "list_all (\<lambda>(k, c). 0 < cl_createdAt c) (seen @ rest)" and "oldestSoFar seen acc"
  shows "oldestSoFar (seen @ rest) (fold oldestStep rest acc)"
  using assms
proof (induction rest arbitrary: seen acc)
  case (Cons e rest)
  obtain k c n oldest i where e: "e = (k, c)" and acc: "acc = (n, oldest, i)"
    by (metis prod.collapse)
  have "oldestSoFar (seen @ [e]) (oldestStep e acc)"
    using Cons.prems by (auto simp: e acc oldestSoFar_def oldestStep_def list_all_iff list_ex_iff split: if_splits)
  with Cons.IH [of "seen @ [e]" "oldestStep e acc"] Cons.prems(1) show ?case
    by simp
qed simp

lemma queryClientInfo_spec:
  assumes "poolInv s" and "po_sharedClients s \<noteq> []"
  obtains k c where "(k, c) \<in> set (po_sharedClients s)" and "\<And>cid. queryClientInfo cid s = (cid = k, length (po_sharedClients s))"
    and "list_all (\<lambda>(k', c'). cl_createdAt c \<le> cl_createdAt c') (po_sharedClients s)"
proof -
  obtain n oldest i where acc: "fold oldestStep (po_sharedClients s) (0, 0, []) = (n, oldest, i)"
    by (metis prod.collapse)
  have "list_all (\<lambda>(k, c). 0 < cl_createdAt c) ([] @ po_sharedClients s)"
    using assms(1) by (auto simp: poolInv_def list_all_iff)
  from fold_oldestStep [OF this, of "(0, 0, [])"] have o: "oldestSoFar (po_sharedClients s) (n, oldest, i)"
    by (simp add: acc oldestSoFar_def)
  with assms obtain k c where kc: "(k, c) \<in> set (po_sharedClients s)" "cl_id c = i" "cl_createdAt c = oldest"
    "list_all (\<lambda>(k, c). oldest \<le> cl_createdAt c) (po_sharedClients s)" "n = length (po_sharedClients s)"
    by (auto simp: oldestSoFar_def list_ex_iff split: if_splits)
  moreover from this have "cl_id c = k"
    using assms(1) by (auto simp: poolInv_def list_all_iff)
  ultimately show thesis
    by (intro that [of k c]) (auto simp: queryClientInfo_def acc)
qed

text \<open>What the loop of \<open>getAvailableSharedClient\<close> has found.\<close>

definition availSoFar :: "(string \<times> client) list \<Rightarrow> client option \<times> client option \<times> int \<Rightarrow> bool" where
  "availSoFar seen acc =
     (case acc of
        (scAny, sc, latest) \<Rightarrow>
          (if list_ex (\<lambda>(k, c). cl_connected c) seen
           then (case sc of
                   None \<Rightarrow> False
                 | Some c \<Rightarrow> c \<in> snd ` set seen \<and> cl_connected c \<and> cl_createdAt c = latest \<and> 0 < latest \<and>
                     list_all (\<lambda>(k, c'). cl_connected c' \<longrightarrow> cl_createdAt c' \<le> latest) seen)
           else latest = 0 \<and> (case sc of None \<Rightarrow> seen = [] | Some c \<Rightarrow> c \<in> snd ` set seen)))"

lemma fold_availStep:
  assumes "list_all (\<lambda>(k, c). 0 < cl_createdAt c) (seen @ rest)" and "availSoFar seen acc"
  shows "availSoFar (seen @ rest) (fold availStep rest acc)"
  using assms
proof (induction rest arbitrary: seen acc)
  case (Cons e rest)
  obtain k c a sc latest where e: "e = (k, c)" and acc: "acc = (a, sc, latest)"
    by (metis prod.collapse)
  have "availSoFar (seen @ [e]) (availStep e acc)"
    using Cons.prems
    by (auto simp: e acc availSoFar_def availStep_def list_all_iff list_ex_iff image_iff split: option.splits if_splits)
  with Cons.IH [of "seen @ [e]" "availStep e acc"] Cons.prems(1) show ?case
    by simp
qed simp

section \<open>Steps of the pool\<close>

text \<open>Everything that changes the package's maps: a new divided client, a round of the worker, the exit of a
  shared client (its loop left or its transport gone), its connection state, a packet that arrives,
  and the counters of a packet that is sent.\<close>

inductive pool_step :: "Values \<Rightarrow> string \<Rightarrow> pool \<Rightarrow> pool \<Rightarrow> bool" for cfg prefix where
  new_client: "0 < now \<Longrightarrow> getClient cfg prefix uid now cid s = (r, s') \<Longrightarrow> pool_step cfg prefix s s'"
| worker: "0 < now \<Longrightarrow> pool_step cfg prefix s (clientsWorker_tick cfg prefix uid now cids s)"
| exit: "pool_step cfg prefix s (clientExit k s)"
| connection: "pool_step cfg prefix s (updShared k (\<lambda>c. c\<lparr>cl_connected := b\<rparr>) s)"
| recv: "clientRecv k now sc p s = (q, s') \<Longrightarrow> pool_step cfg prefix s s'"
| sent: "pool_step cfg prefix s (updShared k (\<lambda>c. c\<lparr>cl_bytesSent := n, cl_lastDataUnix := now\<rparr>) s)"
| pinged: "pool_step cfg prefix s (updShared k (\<lambda>c. c\<lparr>cl_lastPingUnix := now\<rparr>) s)"
| close: "dividedClient_Close sc c s = (q, c', s') \<Longrightarrow> pool_step cfg prefix s s'"

lemma poolInv_cong: "po_sharedClients s = po_sharedClients s' \<Longrightarrow> poolInv s = poolInv s'"
  by (simp add: poolInv_def)

lemma poolInv_updShared:
  assumes "poolInv s" and "\<And>c. cl_id (f c) = cl_id c" and "\<And>c. cl_createdAt (f c) = cl_createdAt c"
  shows "poolInv (updShared k f s)"
proof -
  have "map fst (po_sharedClients (updShared k f s)) = map fst (po_sharedClients s)"
    by (auto simp: updShared_def)
  moreover have "length (po_sharedClients (updShared k f s)) = length (po_sharedClients s)"
    by (simp add: updShared_def)
  moreover have "list_all (\<lambda>(k, c). cl_id c = k \<and> 0 < cl_createdAt c) (po_sharedClients (updShared k f s))"
    using assms by (fastforce simp: poolInv_def updShared_def list_all_iff split: if_splits)
  ultimately show ?thesis
    using assms(1) unfolding poolInv_def by metis
qed

lemma length_update: "length (AList.update k v xs) \<le> Suc (length xs)"
  by (induction xs) auto

lemma set_update: "x \<in> set (AList.update k v xs) \<Longrightarrow> x = (k, v) \<or> x \<in> set xs"
  by (induction xs) (auto split: if_splits)

lemma poolInv_tryAdd:
  assumes "poolInv s" and "0 < now"
  shows "poolInv (snd (tryAddNewSharedClient cfg prefix uid now s))"
proof -
  let ?k = "prefix @ '':'' @ uid" and ?xs = "po_sharedClients s"
  have "length (AList.update ?k (newClient ?k now) ?xs) \<le> 5" if "length ?xs < 5"
    using length_update [of ?k "newClient ?k now" ?xs] that by simp
  moreover have "distinct (map fst (AList.update ?k (newClient ?k now) ?xs))"
    using assms(1) by (simp add: poolInv_def distinct_update)
  moreover have "list_all (\<lambda>(k, c). cl_id c = k \<and> 0 < cl_createdAt c) (AList.update ?k (newClient ?k now) ?xs)"
    using assms by (fastforce simp: poolInv_def list_all_iff newClient_def dest: set_update)
  ultimately show ?thesis
    using assms(1) by (auto simp: tryAddNewSharedClient_def Let_def poolInv_def split: res.split)
qed

lemma poolInv_clientRecv: "poolInv s \<Longrightarrow> clientRecv k now sc p s = (q, s') \<Longrightarrow> poolInv s'"
proof -
  assume inv: "poolInv s" and r: "clientRecv k now sc p s = (q, s')"
  let ?s1 = "updShared k (\<lambda>c. c\<lparr>cl_bytesRecv := cl_bytesRecv c + of_nat (length (pk_Data p))\<rparr>) s"
  have s1: "poolInv ?s1"
    by (rule poolInv_updShared [OF inv]) simp_all
  have s2: "poolInv (updShared k (\<lambda>c. c\<lparr>cl_lastDataUnix := now\<rparr>) ?s1)" "poolInv (updShared k (\<lambda>c. c\<lparr>cl_lastPongUnix := now\<rparr>) ?s1)"
    by (rule poolInv_updShared [OF s1]; simp)+
  have closed: "poolInv s2" if "dividedClient_Close sc c ?s1 = (x, c', s2)" for x c c' s2
    using s1 that by (auto simp: dividedClient_Close_def Let_def poolInv_def split: option.splits)
  show "poolInv s'"
    using r s1 s2 closed
    by (auto simp: clientRecv_def Let_def poolInv_def split: if_splits option.splits prod.splits)
qed

lemma poolInv_step: "pool_step cfg prefix s s' \<Longrightarrow> poolInv s \<Longrightarrow> poolInv s'"
proof (induction rule: pool_step.induct)
  case (new_client now uid cid s r s')
  have "poolInv (s\<lparr>po_workerAlive := True\<rparr>)"
    using new_client.prems by (simp add: poolInv_def)
  from poolInv_tryAdd [OF this new_client.hyps(1), of cfg prefix uid] new_client.hyps(2) show ?case
    by (auto simp: getClient_def Let_def poolInv_def split: prod.splits option.splits)
next
  case (worker now s uid cids)
  then show ?case
    using poolInv_tryAdd by (simp add: clientsWorker_tick_def)
next
  case (exit s k)
  then show ?case
    by (auto simp: poolInv_def clientExit_def AList.delete_eq list_all_iff distinct_map_filter intro: order_trans [OF length_filter_le])
next
  case (recv k now sc p s q s')
  then show ?case
    using poolInv_clientRecv by blast
next
  case (close sc c s q c' s')
  then show ?case
    by (auto simp: dividedClient_Close_def Let_def poolInv_def split: option.splits)
qed (rule poolInv_updShared; simp)+

lemma poolInv_steps: "(pool_step cfg prefix)\<^sup>*\<^sup>* s s' \<Longrightarrow> poolInv s \<Longrightarrow> poolInv s'"
  by (induction rule: rtranclp_induct) (auto intro: poolInv_step)

text \<open>The looks of \<open>client()\<close>: number 0 at once, then 1 to 16.\<close>

lemma waitClient_find:
  assumes "i \<le> 16" and "dur + 2 = 2 * i"
  shows "waitClient looks i dur =
    (case filter (\<lambda>j. getAvailableSharedClient (looks j) \<noteq> None) [i..<17] of [] \<Rightarrow> None | j # _ \<Rightarrow> getAvailableSharedClient (looks j))"
  using assms
proof (induction looks i dur rule: waitClient.induct)
  case (1 looks i dur)
  have list: "[i..<17] = i # [Suc i..<17]"
    using "1.prems"(1) by (simp add: upt_conv_Cons)
  show ?case
  proof (cases "getAvailableSharedClient (looks i)")
    case None
    show ?thesis
    proof (cases "30 < dur + 2")
      case True
      then have "[Suc i..<17] = []"
        using "1.prems" by simp
      with None True list show ?thesis
        by (subst waitClient.simps) simp
    next
      case False
      then have "waitClient looks (Suc i) (dur + 2) =
          (case filter (\<lambda>j. getAvailableSharedClient (looks j) \<noteq> None) [Suc i..<17] of [] \<Rightarrow> None | j # _ \<Rightarrow> getAvailableSharedClient (looks j))"
      proof -
        have "Suc i \<le> 16" "dur + 2 + 2 = 2 * Suc i"
          using "1.prems"(2) False by simp_all
        then show ?thesis
          by (rule "1.IH" [OF None False])
      qed
      with None False list show ?thesis
        by (subst waitClient.simps) simp
    qed
  next
    case (Some sc)
    with list show ?thesis
      by (subst waitClient.simps) simp
  qed
qed

lemma filter_key_single:
  "distinct (map fst xs) \<Longrightarrow> (k, v) \<in> set xs \<Longrightarrow> filter (\<lambda>(k', v'). k' = k) xs = [(k, v)]"
proof (induction xs)
  case (Cons x xs)
  show ?case
  proof (cases "x = (k, v)")
    case True
    with Cons.prems(1) have "filter (\<lambda>(k', v'). k' = k) xs = []"
      by (auto simp: filter_empty_conv) (metis fst_conv imageI)
    with True show ?thesis by simp
  next
    case False
    with Cons.prems have "(k, v) \<in> set xs" "fst x \<noteq> k"
      by (auto simp: image_iff)
    with Cons.IH Cons.prems(1) show ?thesis
      by (simp add: case_prod_beta)
  qed
qed simp

text \<open>A pool of two trunks, the younger one connected, with one divided client.\<close>

definition samplePool :: pool where
  "samplePool =
     \<lparr>po_sharedClients = [(''p:1'', (newClient ''p:1'' 10)\<lparr>cl_lastDataUnix := 100\<rparr>), (''p:2'', (newClient ''p:2'' 200)\<lparr>cl_connected := True\<rparr>)],
      po_clients = [''c'' \<mapsto> newDividedClient ''c''], po_workerAlive = True\<rparr>"

lemma samplePool_inv: "poolInv samplePool"
  by (simp add: poolInv_def samplePool_def newClient_def)

section \<open>Properties\<close>

text \<open>C29. The pool keeps at most five shared clients, whatever divided clients, workers, trunks and packets
  do: in every state reachable from the empty pool there are at most five, with distinct ids.\<close>

theorem pool_bounded:
  assumes "(pool_step cfg prefix)\<^sup>*\<^sup>* \<lparr>po_sharedClients = [], po_clients = Map.empty, po_workerAlive = False\<rparr> s"
  shows "length (po_sharedClients s) \<le> 5 \<and> distinct (map fst (po_sharedClients s))"
proof -
  have "poolInv s"
    by (rule poolInv_steps [OF assms]) (simp add: poolInv_def)
  then show ?thesis
    by (simp add: poolInv_def)
qed

theorem pool_bounded_witness:
  "\<exists>s. (pool_step (Set Map.empty SERVER_URL ''http://s'') ''s-x'')\<^sup>*\<^sup>*
      \<lparr>po_sharedClients = [], po_clients = Map.empty, po_workerAlive = False\<rparr> s \<and> length (po_sharedClients s) = 1 \<and>
    length (po_sharedClients s) \<le> 5"
proof -
  let ?cfg = "Set Map.empty SERVER_URL ''http://s''"
  let ?s0 = "\<lparr>po_sharedClients = [], po_clients = Map.empty, po_workerAlive = False\<rparr>"
  define s where "s = snd (getClient ?cfg ''s-x'' ''u'' 7 ''c'' ?s0)"
  have "pool_step ?cfg ''s-x'' ?s0 s"
    by (rule pool_step.new_client [where now = 7 and uid = "''u''" and cid = "''c''"]) (simp, simp add: s_def prod_eq_iff)
  then have r: "(pool_step ?cfg ''s-x'')\<^sup>*\<^sup>* ?s0 s"
    by auto
  moreover have "length (po_sharedClients s) = 1"
    by (simp add: s_def getClient_def tryAddNewSharedClient_def NewClient_def Let_def)
  ultimately show ?thesis
    using pool_bounded [OF r] by auto
qed

text \<open>The oldest shared client is unique: in a non-empty pool exactly one client is told that it is the
  oldest, whatever the order of iteration; its creation time is minimal, and the number of clients
  it gets is the size of the pool. So at most one client of the pool is decommissioned for its age.\<close>

theorem oldest_unique:
  assumes "poolInv s" and "po_sharedClients s \<noteq> []"
  shows "length (filter (\<lambda>(k, c). fst (queryClientInfo (cl_id c) s)) (po_sharedClients s)) = 1 \<and>
    list_all (\<lambda>(k, c). snd (queryClientInfo (cl_id c) s) = length (po_sharedClients s) \<and>
      (fst (queryClientInfo (cl_id c) s) \<longrightarrow> list_all (\<lambda>(k', c'). cl_createdAt c \<le> cl_createdAt c') (po_sharedClients s)))
      (po_sharedClients s)"
proof -
  obtain k c where kc: "(k, c) \<in> set (po_sharedClients s)"
    and q: "\<And>cid. queryClientInfo cid s = (cid = k, length (po_sharedClients s))"
    and min: "list_all (\<lambda>(k', c'). cl_createdAt c \<le> cl_createdAt c') (po_sharedClients s)"
    using queryClientInfo_spec [OF assms] by metis
  have ids: "cl_id c' = k'" if "(k', c') \<in> set (po_sharedClients s)" for k' c'
    using assms(1) that by (auto simp: poolInv_def list_all_iff)
  have flt: "filter (\<lambda>(k', c'). cl_id c' = k) (po_sharedClients s) = [(k, c)]"
  proof -
    have "filter (\<lambda>(k', c'). cl_id c' = k) (po_sharedClients s) = filter (\<lambda>(k', c'). k' = k) (po_sharedClients s)"
      by (rule filter_cong [OF refl]) (auto dest: ids)
    also have "\<dots> = [(k, c)]"
      by (rule filter_key_single [OF _ kc]) (use assms(1) in \<open>simp add: poolInv_def\<close>)
    finally show ?thesis .
  qed
  then have "(k', c') = (k, c)" if "(k', c') \<in> set (po_sharedClients s)" "cl_id c' = k" for k' c'
  proof -
    have "(k', c') \<in> set (filter (\<lambda>(k', c'). cl_id c' = k) (po_sharedClients s))"
      using that by simp
    then show ?thesis
      by (simp only: flt list.set insert_iff empty_iff) simp
  qed
  then have "list_all (\<lambda>(k', c'). cl_id c' = k \<longrightarrow> c' = c) (po_sharedClients s)"
    by (auto simp: list_all_iff)
  with flt show ?thesis
    using min unfolding q list_all_iff by (simp add: case_prod_beta) blast
qed

theorem oldest_unique_witness:
  "fst (queryClientInfo ''p:1'' samplePool) \<and> \<not> fst (queryClientInfo ''p:2'' samplePool)"
proof -
  have "po_sharedClients samplePool \<noteq> []"
    by (simp add: samplePool_def)
  from oldest_unique [OF samplePool_inv this] show ?thesis
    by (auto simp: samplePool_def newClient_def split: if_splits)
qed

text \<open>The trunk of a divided client: there is one exactly when the pool is not empty; when some shared
  client is connected, it is a connected one, created last among the connected ones.\<close>

theorem available_client:
  assumes "poolInv s"
  shows "(getAvailableSharedClient s = None) = (po_sharedClients s = []) \<and>
    (list_ex (\<lambda>(k, c). cl_connected c) (po_sharedClients s) \<longrightarrow>
      (\<exists>sc. getAvailableSharedClient s = Some sc \<and> sc \<in> snd ` set (po_sharedClients s) \<and> cl_connected sc \<and>
        list_all (\<lambda>(k, c). cl_connected c \<longrightarrow> cl_createdAt c \<le> cl_createdAt sc) (po_sharedClients s)))"
proof -
  obtain a sc latest where acc: "fold availStep (po_sharedClients s) (None, None, 0) = (a, sc, latest)"
    by (metis prod.collapse)
  have "list_all (\<lambda>(k, c). 0 < cl_createdAt c) ([] @ po_sharedClients s)"
    using assms by (auto simp: poolInv_def list_all_iff)
  from fold_availStep [OF this, of "(None, None, 0)"] have inv: "availSoFar (po_sharedClients s) (a, sc, latest)"
    by (simp add: acc availSoFar_def)
  have empty: "getAvailableSharedClient s = None" if "po_sharedClients s = []"
    using that by (simp add: getAvailableSharedClient_def)
  show ?thesis
  proof (cases "po_sharedClients s = []")
    case True
    with empty show ?thesis by simp
  next
    case False
    with inv show ?thesis
      by (auto simp: getAvailableSharedClient_def acc availSoFar_def split: option.splits if_splits)
  qed
qed

theorem available_client_witness:
  "map_option cl_id (getAvailableSharedClient samplePool) = Some ''p:2''"
  using available_client [OF samplePool_inv] by (auto simp: samplePool_def newClient_def)

text \<open>The wait for a trunk is bounded: \<open>client()\<close> returns the first trunk seen in 17 looks (one at once and
  one every two seconds for 32 seconds), and none when all of them fail.\<close>

theorem client_wait:
  "dividedClient_client looks =
    (case filter (\<lambda>j. getAvailableSharedClient (looks j) \<noteq> None) [0..<17] of
       [] \<Rightarrow> None
     | j # _ \<Rightarrow> getAvailableSharedClient (looks j))"
proof -
  have "[0..<17] = 0 # [1..<17]"
    by (simp add: upt_conv_Cons)
  then show ?thesis
    using waitClient_find [of 1 0 looks] by (simp add: dividedClient_client_def split: option.split)
qed

text \<open>A trunk is given up for two reasons only: its last ping is later than its creation and more than 15
  seconds later than its last pong; or it is older than two minutes, the oldest of the pool, and
  idle for more than a minute, or for more than 30 seconds while there are others.\<close>

theorem trunk_given_up:
  assumes "poolInv s" and "(k, c) \<in> set (po_sharedClients s)"
  shows "case clientTick now serial c s of
      PongStalled \<Rightarrow> cl_createdAt c < cl_lastPingUnix c \<and> 15 < cl_lastPingUnix c - cl_lastPongUnix c
    | Decommission \<Rightarrow> 120 < now - cl_createdAt c \<and>
        list_all (\<lambda>(k', c'). cl_createdAt c \<le> cl_createdAt c') (po_sharedClients s) \<and>
        (60 < now - cl_lastDataUnix c \<or> (30 < now - cl_lastDataUnix c \<and> 1 < length (po_sharedClients s)))
    | _ \<Rightarrow> True"
proof -
  have ne: "po_sharedClients s \<noteq> []"
    using assms(2) by auto
  obtain k0 c0 where q: "(k0, c0) \<in> set (po_sharedClients s)"
    "\<And>cid. queryClientInfo cid s = (cid = k0, length (po_sharedClients s))"
    "list_all (\<lambda>(k', c'). cl_createdAt c0 \<le> cl_createdAt c') (po_sharedClients s)"
    using queryClientInfo_spec [OF assms(1) ne] by metis
  have "c = c0" if "cl_id c = k0"
    using that assms q(1) eq_key_imp_eq_value [of "po_sharedClients s" k0 c c0] by (auto simp: poolInv_def list_all_iff)
  then show ?thesis
    using q(3) by (auto simp: clientTick_def q(2) Let_def)
qed

theorem trunk_given_up_witness:
  "\<exists>c. (''p:1'', c) \<in> set (po_sharedClients samplePool) \<and> clientTick 131 1 c samplePool = Decommission \<and>
    120 < 131 - cl_createdAt c \<and> 30 < 131 - cl_lastDataUnix c"
proof -
  let ?c = "(newClient ''p:1'' 10)\<lparr>cl_lastDataUnix := 100\<rparr>"
  have mem: "(''p:1'', ?c) \<in> set (po_sharedClients samplePool)"
    by (simp add: samplePool_def)
  have "clientTick 131 1 ?c samplePool = Decommission"
    by (simp add: clientTick_def queryClientInfo_def oldestStep_def samplePool_def newClient_def)
  with mem trunk_given_up [OF samplePool_inv mem, of 131 1] show ?thesis
    by auto
qed

text \<open>Data that arrives on a trunk reaches the divided client it is addressed to, behind what waits there,
  and no other; an unknown client id changes no client.\<close>

theorem client_recv_data:
  assumes "rwOk (dc_buf d)" and "\<not> rw_eof (dc_buf d)" and "po_clients s cid = Some d"
    and "length (rwContent (dc_buf d)) + length dat + BUF_SIZE \<le> BUF_SIZE_MAX"
  shows "\<exists>s' d'. clientRecv k now sc \<lparr>pk_ClientId = cid, pk_Serial = n, pk_Op = OP_DATA, pk_Data = dat\<rparr> s = (None, s') \<and>
    po_clients s' = (po_clients s)(cid \<mapsto> d') \<and> rwContent (dc_buf d') = rwContent (dc_buf d) @ dat"
proof -
  have "rwContent (dc_buf (dividedClient_writeBuf dat d)) = rwContent (dc_buf d) @ dat"
    by (rule RW_Write_cases [OF assms(1), of dat]) (use assms in \<open>simp_all add: dividedClient_writeBuf_def\<close>)
  then show ?thesis
    using assms(3) by (auto simp: clientRecv_def Let_def updShared_def intro!: exI [of _ "dividedClient_writeBuf dat d"])
qed

theorem client_recv_data_witness:
  "\<exists>s' d'. clientRecv ''p:2'' 300 None \<lparr>pk_ClientId = ''c'', pk_Serial = 0, pk_Op = OP_DATA, pk_Data = [7]\<rparr> samplePool = (None, s') \<and>
    po_clients s' = (po_clients samplePool)(''c'' \<mapsto> d') \<and> rwContent (dc_buf d') = [7]"
  using client_recv_data [of "newDividedClient ''c''" samplePool "''c''" "[7]" "''p:2''" 300 None 0]
  by (simp add: newDividedClient_def samplePool_def BUF_SIZE_def BUF_SIZE_MAX_def)

end
