(* ===== verification/Pool_Server.thy ===== *)
theory Pool_Server
  imports Packet RW_Buffer "HOL-Library.AList"
begin

text \<open>
  The server side of the pool, \<open>transport/h1pool/server.go\<close>: packets that arrive on the trunks are
  handed to the instance of their client, and what an instance writes goes to the youngest trunk of
  its client. Time is an argument (\<open>now\<close>, seconds); the maps \<open>instances\<close> and \<open>chansReply\<close> are
  part of the state. Shown here: demultiplexing is correct for any number of clients, and the choice
  of the reply channel.
\<close>

section \<open>State\<close>

text \<open>A \<open>sync.Map\<close> that is iterated is a list of entries, in the order in which \<open>Range\<close> visits them.\<close>

record replyChannel =
  rc_trunkPrefix :: string
  rc_ch :: "Packet list"
  rc_createdAt :: int
  rc_lastActiveUnix :: int

record pool_instance =
  in_trunkPrefix :: string
  in_clientId :: string
  in_buf :: ReadWriteBuffer
  in_lastActiveUnix :: int
  in_exited :: bool

record server =
  sv_instances :: "string \<rightharpoonup> pool_instance"
  sv_chansReply :: "(string \<times> replyChannel) list"

definition newInstance :: "string \<Rightarrow> string \<Rightarrow> pool_instance" where
  "newInstance trunkPrefix clientId =
     \<lparr>in_trunkPrefix = trunkPrefix, in_clientId = clientId, in_buf = NewReadWriteBuffer, in_lastActiveUnix = 0, in_exited = False\<rparr>"

text \<open>The buffer of a channel of packets: 32.\<close>

definition chReplyCap :: nat where "chReplyCap = 32"

section \<open>Instances\<close>

text \<open>\<open>getReplyChannel\<close>: the visit order decides between channels of the same age. The result is the
  position in the list, which stands for the pointer.\<close>

definition replyStep :: "string \<Rightarrow> string \<times> replyChannel \<Rightarrow> string option \<times> int \<Rightarrow> string option \<times> int" where
  "replyStep prefix e acc =
     (case (e, acc) of
        ((k, ch), (best, latest)) \<Rightarrow>
          if rc_trunkPrefix ch \<noteq> prefix then acc
          else if latest = 0 \<or> latest < rc_createdAt ch then (Some k, rc_createdAt ch)
          else acc)"

definition getReplyChannel :: "server \<Rightarrow> pool_instance \<Rightarrow> string option" where
  "getReplyChannel s t = fst (fold (replyStep (in_trunkPrefix t)) (sv_chansReply s) (None, 0))"

text \<open>\<open>chReply.ch <- p\<close> waits while the channel is full (\<open>None\<close>); then the time of the last activity is set.\<close>

definition sendReply :: "string \<Rightarrow> Packet \<Rightarrow> int \<Rightarrow> server \<Rightarrow> server option" where
  "sendReply k p now s =
     (case map_of (sv_chansReply s) k of
        None \<Rightarrow> None
      | Some ch \<Rightarrow>
          if chReplyCap \<le> length (rc_ch ch) then None
          else Some (s\<lparr>sv_chansReply := AList.update k (ch\<lparr>rc_ch := rc_ch ch @ [p], rc_lastActiveUnix := now\<rparr>) (sv_chansReply s)\<rparr>))"

definition updInstance :: "string \<Rightarrow> (pool_instance \<Rightarrow> pool_instance) \<Rightarrow> server \<Rightarrow> server" where
  "updInstance cid f s = s\<lparr>sv_instances := (sv_instances s)(cid := map_option f (sv_instances s cid))\<rparr>"

text \<open>\<open>t.buf.Write(p.Data)\<close>: the result is ignored.\<close>

definition instance_writePacket :: "Packet \<Rightarrow> pool_instance \<Rightarrow> pool_instance" where
  "instance_writePacket p t =
     (case RW_Write (pk_Data p) (in_buf t) of Some (r, b) \<Rightarrow> t\<lparr>in_buf := b\<rparr> | None \<Rightarrow> t)"

text \<open>\<open>Read\<close> as the handler of the instance calls it; \<open>None\<close> while it waits for data.\<close>

definition instance_Read :: "nat \<Rightarrow> int \<Rightarrow> (bytes, pool_instance) io" where
  "instance_Read n now t =
     (case RW_tryRead n (in_buf t) of
        None \<Rightarrow> None
      | Some (r, b) \<Rightarrow> Some (r, t\<lparr>in_buf := b, in_lastActiveUnix := now\<rparr>))"

definition instance_Write :: "string \<Rightarrow> bytes \<Rightarrow> int \<Rightarrow> (nat, server) io" where
  "instance_Write cid dat now s =
     (case sv_instances s cid of
        None \<Rightarrow> None
      | Some t \<Rightarrow>
          (let s1 = updInstance cid (\<lambda>t. t\<lparr>in_lastActiveUnix := now\<rparr>) s
           in case getReplyChannel s1 t of
                None \<Rightarrow> Some (Err EOF, s1)
              | Some k \<Rightarrow>
                  (case sendReply k \<lparr>pk_ClientId = in_clientId t, pk_Serial = 0, pk_Op = OP_DATA, pk_Data = dat\<rparr> now s1 of
                     None \<Rightarrow> None
                   | Some s2 \<Rightarrow> Some (Ok (length dat), s2))))"

text \<open>\<open>Close\<close> by the reader of the trunk: the goroutine \<open>start\<close> of the instance, which waits on
  \<open>chCloseByClient\<close>, leaves its select and removes the instance; the buffer is closed.\<close>

definition instance_Close :: "pool_instance \<Rightarrow> pool_instance" where
  "instance_Close t = (case RW_Close (in_buf t) of Some (r, b) \<Rightarrow> t\<lparr>in_buf := b\<rparr> | None \<Rightarrow> t)"

text \<open>The end of \<open>start\<close>: closed by the client, or the handler returned and an \<open>OP_EOS\<close> packet is sent.\<close>

definition instance_exit :: "bool \<Rightarrow> string \<Rightarrow> int \<Rightarrow> server \<Rightarrow> server option" where
  "instance_exit byServer cid now s =
     (case sv_instances s cid of
        None \<Rightarrow> None
      | Some t \<Rightarrow>
          (let remove = (\<lambda>s. s\<lparr>sv_instances := (sv_instances s)(cid := None)\<rparr>)
           in if \<not> byServer then Some (remove s)
              else case getReplyChannel s t of
                     None \<Rightarrow> Some (remove s)
                   | Some k \<Rightarrow>
                       map_option remove
                         (sendReply k \<lparr>pk_ClientId = in_clientId t, pk_Serial = 0, pk_Op = OP_EOS, pk_Data = []\<rparr> now s)))"

definition instancesCleaner :: "server \<Rightarrow> server" where
  "instancesCleaner s =
     s\<lparr>sv_instances := (\<lambda>k. case sv_instances s k of Some t \<Rightarrow> if in_exited t then None else Some t | None \<Rightarrow> None)\<rparr>"

section \<open>The handler of a trunk\<close>

text \<open>\<open>strings.Index(s, ":")\<close>\<close>

fun indexOf :: "char \<Rightarrow> string \<Rightarrow> nat option" where
  "indexOf c [] = None"
| "indexOf c (d # s) = (if c = d then Some 0 else map_option Suc (indexOf c s))"

text \<open>The prefix, and whether the transport is closed at once.\<close>

definition trunkPrefix :: "string \<Rightarrow> string \<times> bool" where
  "trunkPrefix trunkClientId =
     (case indexOf CHR '':'' trunkClientId of
        None \<Rightarrow> ([], True)
      | Some p \<Rightarrow> if p = 0 then ([], True) else (take p trunkClientId, False))"

definition handlerStart :: "string \<Rightarrow> int \<Rightarrow> server \<Rightarrow> server" where
  "handlerStart trunkClientId now s =
     s\<lparr>sv_chansReply := AList.update trunkClientId
         \<lparr>rc_trunkPrefix = fst (trunkPrefix trunkClientId), rc_ch = [], rc_createdAt = now, rc_lastActiveUnix = now\<rparr>
         (sv_chansReply s)\<rparr>"

definition handlerEnd :: "string \<Rightarrow> server \<Rightarrow> server" where
  "handlerEnd trunkClientId s = s\<lparr>sv_chansReply := AList.delete trunkClientId (sv_chansReply s)\<rparr>"

text \<open>One round of the goroutine that reads the trunk, after \<open>readPacket\<close> returned \<open>p\<close>; \<open>None\<close> while the
  pong waits for room in the channel.\<close>

definition recvPacket :: "string \<Rightarrow> int \<Rightarrow> Packet \<Rightarrow> server \<Rightarrow> server option" where
  "recvPacket trunkClientId now p s =
     (if pk_Op p = OP_PING then
        (case map_of (sv_chansReply s) trunkClientId of
           None \<Rightarrow> None
         | Some ch \<Rightarrow>
             if chReplyCap \<le> length (rc_ch ch) then None
             else Some (s\<lparr>sv_chansReply := AList.update trunkClientId
                 (ch\<lparr>rc_ch := rc_ch ch @ [\<lparr>pk_ClientId = [], pk_Serial = 0, pk_Op = OP_PONG, pk_Data = []\<rparr>]\<rparr>) (sv_chansReply s)\<rparr>))
      else
        let cid = pk_ClientId p
        in if length cid = 0 then Some s
           else if pk_Op p = OP_EOS then Some (updInstance cid instance_Close s)
           else if sv_instances s cid \<noteq> None then Some (updInstance cid (instance_writePacket p) s)
           else if pk_Serial p = 0 then
             Some (s\<lparr>sv_instances := (sv_instances s)(cid \<mapsto>
                 instance_writePacket p (newInstance (fst (trunkPrefix trunkClientId)) cid))\<rparr>)
           else Some s)"

text \<open>One round of the loop that writes the trunk: the oldest packet of the channel.\<close>

definition replyRound :: "'w writer \<Rightarrow> string \<Rightarrow> int \<Rightarrow> server \<Rightarrow> (server, 'w) io" where
  "replyRound wr trunkClientId now s =
     (case map_of (sv_chansReply s) trunkClientId of
        None \<Rightarrow> ret s
      | Some ch \<Rightarrow>
          (case rc_ch ch of
             [] \<Rightarrow> ret s
           | p # ps \<Rightarrow>
               bind (writePacket wr p) (\<lambda>_.
                 ret (s\<lparr>sv_chansReply := AList.update trunkClientId (ch\<lparr>rc_ch := ps, rc_lastActiveUnix := now\<rparr>) (sv_chansReply s)\<rparr>))))"

section \<open>Demultiplexing\<close>

text \<open>The packets that arrive on a trunk, one after the other.\<close>

fun serve :: "string \<Rightarrow> int \<Rightarrow> Packet list \<Rightarrow> server \<Rightarrow> server option" where
  "serve trunk now [] s = Some s"
| "serve trunk now (p # ps) s = (case recvPacket trunk now p s of None \<Rightarrow> None | Some s' \<Rightarrow> serve trunk now ps s')"

text \<open>The abstract view: the bytes that wait for each client, and what a data packet adds.\<close>

definition contents :: "server \<Rightarrow> string \<rightharpoonup> bytes" where
  "contents s = (\<lambda>cid. map_option (\<lambda>t. rwContent (in_buf t)) (sv_instances s cid))"

definition absorb :: "Packet \<Rightarrow> (string \<rightharpoonup> bytes) \<Rightarrow> (string \<rightharpoonup> bytes)" where
  "absorb p m = m(pk_ClientId p \<mapsto> (case m (pk_ClientId p) of None \<Rightarrow> [] | Some b \<Rightarrow> b) @ pk_Data p)"

definition instancesOk :: "server \<Rightarrow> bool" where
  "instancesOk s \<longleftrightarrow> (\<forall>cid t. sv_instances s cid = Some t \<longrightarrow> rwOk (in_buf t) \<and> \<not> rw_eof (in_buf t))"

text \<open>A packet that starts or continues a client.\<close>

definition dataFor :: "(string \<rightharpoonup> bytes) \<Rightarrow> Packet \<Rightarrow> bool" where
  "dataFor m p \<longleftrightarrow> pk_Op p = OP_DATA \<and> pk_ClientId p \<noteq> [] \<and> (m (pk_ClientId p) = None \<longrightarrow> pk_Serial p = 0)"

lemma instance_writePacket_ok:
  assumes "rwOk (in_buf t)" and "\<not> rw_eof (in_buf t)" and "length (rwContent (in_buf t)) + length (pk_Data p) + BUF_SIZE \<le> BUF_SIZE_MAX"
  shows "rwOk (in_buf (instance_writePacket p t))" and "\<not> rw_eof (in_buf (instance_writePacket p t))"
    and "rwContent (in_buf (instance_writePacket p t)) = rwContent (in_buf t) @ pk_Data p"
  by (rule RW_Write_cases [OF assms(1), of "pk_Data p"]; use assms in \<open>simp add: instance_writePacket_def\<close>)+

lemma recvPacket_absorb:
  assumes "instancesOk s" and "dataFor (contents s) p"
    and "length (case contents s (pk_ClientId p) of None \<Rightarrow> [] | Some b \<Rightarrow> b) + length (pk_Data p) + BUF_SIZE \<le> BUF_SIZE_MAX"
  obtains s' where "recvPacket trunk now p s = Some s'" and "instancesOk s'" and "contents s' = absorb p (contents s)"
proof (cases "sv_instances s (pk_ClientId p)")
  case None
  let ?t = "newInstance (fst (trunkPrefix trunk)) (pk_ClientId p)"
  let ?s = "s\<lparr>sv_instances := (sv_instances s)(pk_ClientId p \<mapsto> instance_writePacket p ?t)\<rparr>"
  have t: "rwOk (in_buf ?t)" "\<not> rw_eof (in_buf ?t)" "rwContent (in_buf ?t) = []"
    by (simp_all add: newInstance_def)
  have w: "rwOk (in_buf (instance_writePacket p ?t))" "\<not> rw_eof (in_buf (instance_writePacket p ?t))"
    "rwContent (in_buf (instance_writePacket p ?t)) = pk_Data p"
    using instance_writePacket_ok [OF t(1,2), of p] t(3) assms(3) None by (simp_all add: contents_def)
  have "recvPacket trunk now p s = Some ?s"
    using None assms(2) by (auto simp: recvPacket_def Let_def dataFor_def contents_def OP_defs)
  moreover have "instancesOk ?s"
    using assms(1) w by (auto simp: instancesOk_def)
  moreover have "contents ?s = absorb p (contents s)"
    using None w(3) by (auto simp: contents_def absorb_def)
  ultimately show thesis
    by (rule that)
next
  case (Some t)
  let ?s = "updInstance (pk_ClientId p) (instance_writePacket p) s"
  have t: "rwOk (in_buf t)" "\<not> rw_eof (in_buf t)"
    using assms(1) Some by (auto simp: instancesOk_def)
  have w: "rwOk (in_buf (instance_writePacket p t))" "\<not> rw_eof (in_buf (instance_writePacket p t))"
    "rwContent (in_buf (instance_writePacket p t)) = rwContent (in_buf t) @ pk_Data p"
    using instance_writePacket_ok [OF t, of p] assms(3) Some by (simp_all add: contents_def)
  have "recvPacket trunk now p s = Some ?s"
    using Some assms(2) by (auto simp: recvPacket_def Let_def dataFor_def contents_def OP_defs)
  moreover have "instancesOk ?s"
    using assms(1) Some w by (auto simp: instancesOk_def updInstance_def)
  moreover have "contents ?s = absorb p (contents s)"
    using Some w(3) by (auto simp: contents_def absorb_def updInstance_def)
  ultimately show thesis
    by (rule that)
qed

text \<open>The order the clients keep: the first packet of a client has the serial 0.\<close>

fun zeroFirst :: "string list \<Rightarrow> Packet list \<Rightarrow> bool" where
  "zeroFirst seen [] = True"
| "zeroFirst seen (p # ps) \<longleftrightarrow>
     pk_Op p = OP_DATA \<and> pk_ClientId p \<noteq> [] \<and> (pk_Serial p = 0 \<or> pk_ClientId p \<in> set seen) \<and> zeroFirst (pk_ClientId p # seen) ps"

definition dataOf :: "string \<Rightarrow> Packet list \<Rightarrow> bytes" where
  "dataOf cid ps = concat (map pk_Data (filter (\<lambda>p. pk_ClientId p = cid) ps))"

lemma fold_absorb:
  "fold absorb ps m cid =
     (if m cid = None \<and> \<not> list_ex (\<lambda>p. pk_ClientId p = cid) ps then None
      else Some ((case m cid of None \<Rightarrow> [] | Some b \<Rightarrow> b) @ dataOf cid ps))"
  by (induction ps arbitrary: m) (auto simp: absorb_def dataOf_def split: option.split)

lemma serve_absorb:
  assumes "instancesOk s" and "zeroFirst seen ps" and "set seen \<subseteq> dom (contents s)"
    and "\<And>cid. length (case contents s cid of None \<Rightarrow> [] | Some b \<Rightarrow> b) + sum_list (map (\<lambda>p. length (pk_Data p)) ps) + BUF_SIZE \<le> BUF_SIZE_MAX"
  shows "\<exists>s'. serve trunk now ps s = Some s' \<and> instancesOk s' \<and> contents s' = fold absorb ps (contents s)"
  using assms
proof (induction ps arbitrary: s seen)
  case Nil
  then show ?case by simp
next
  case (Cons p ps)
  have data: "dataFor (contents s) p"
    using Cons.prems(2,3) by (auto simp: dataFor_def)
  have room: "length (case contents s (pk_ClientId p) of None \<Rightarrow> [] | Some b \<Rightarrow> b) + length (pk_Data p) + BUF_SIZE \<le> BUF_SIZE_MAX"
    using Cons.prems(4) [of "pk_ClientId p"] by simp
  obtain s1 where s1: "recvPacket trunk now p s = Some s1" "instancesOk s1" "contents s1 = absorb p (contents s)"
    using recvPacket_absorb [OF Cons.prems(1) data room] .
  have room1: "length (case contents s1 cid of None \<Rightarrow> [] | Some b \<Rightarrow> b) + sum_list (map (\<lambda>p. length (pk_Data p)) ps) + BUF_SIZE \<le> BUF_SIZE_MAX" for cid
    using Cons.prems(4) [of cid] Cons.prems(4) [of "pk_ClientId p"] by (auto simp: s1(3) absorb_def split: option.splits)
  have "set (pk_ClientId p # seen) \<subseteq> dom (contents s1)"
    using Cons.prems(3) by (auto simp: s1(3) absorb_def)
  with Cons.IH [OF s1(2) _ _ room1, of "pk_ClientId p # seen"] Cons.prems(2) s1(1,3) show ?case
    by simp
qed

section \<open>The reply channel\<close>

text \<open>What \<open>Range\<close> has found after a part of the channels: the youngest of the prefix so far.\<close>

definition youngest :: "string \<Rightarrow> (string \<times> replyChannel) list \<Rightarrow> string option \<times> int \<Rightarrow> bool" where
  "youngest prefix seen acc \<longleftrightarrow>
     (case acc of
        (None, latest) \<Rightarrow> latest = 0 \<and> list_all (\<lambda>(k, ch). rc_trunkPrefix ch \<noteq> prefix) seen
      | (Some k, latest) \<Rightarrow>
          list_ex (\<lambda>(k', ch). k' = k \<and> rc_trunkPrefix ch = prefix \<and> rc_createdAt ch = latest) seen \<and>
          list_all (\<lambda>(k', ch). rc_trunkPrefix ch = prefix \<longrightarrow> rc_createdAt ch \<le> latest) seen)"

lemma fold_replyStep:
  assumes "list_all (\<lambda>(k, ch). 0 < rc_createdAt ch) rest" and "youngest prefix seen acc" and "0 < snd acc \<or> fst acc = None"
  shows "youngest prefix (seen @ rest) (fold (replyStep prefix) rest acc)"
  using assms
proof (induction rest arbitrary: seen acc)
  case (Cons e rest)
  obtain k ch best latest where e: "e = (k, ch)" and acc: "acc = (best, latest)"
    by fastforce
  have "youngest prefix (seen @ [e]) (replyStep prefix e acc)"
    using Cons.prems by (auto simp: e acc youngest_def replyStep_def list_all_iff list_ex_iff split: option.splits)
  moreover have "0 < snd (replyStep prefix e acc) \<or> fst (replyStep prefix e acc) = None"
    using Cons.prems by (auto simp: e acc replyStep_def)
  ultimately have "youngest prefix ((seen @ [e]) @ rest) (fold (replyStep prefix) rest (replyStep prefix e acc))"
    using Cons.IH [of "seen @ [e]" "replyStep prefix e acc"] Cons.prems by simp
  then show ?case
    by simp
qed simp

section \<open>Properties\<close>

text \<open>Demultiplexing: for any interleaving of the data packets of any number of clients on a trunk, in which
  the first packet of each client has the serial 0, the server creates exactly one instance per
  client, and the instance's buffer holds the data of that client's packets, in order and nothing
  else, as long as the packets together stay below the maximum of the buffer.\<close>

theorem pool_demux:
  assumes "zeroFirst [] ps" and "sum_list (map (\<lambda>p. length (pk_Data p)) ps) + BUF_SIZE \<le> BUF_SIZE_MAX"
  shows "\<exists>s'. serve trunk now ps \<lparr>sv_instances = Map.empty, sv_chansReply = chs\<rparr> = Some s' \<and>
    contents s' = (\<lambda>cid. if list_ex (\<lambda>p. pk_ClientId p = cid) ps then Some (dataOf cid ps) else None)"
proof -
  let ?s = "\<lparr>sv_instances = Map.empty, sv_chansReply = chs\<rparr>"
  have empty: "contents ?s = Map.empty" "instancesOk ?s"
    by (simp_all add: contents_def instancesOk_def)
  obtain s' where "serve trunk now ps ?s = Some s'" "contents s' = fold absorb ps Map.empty"
    using serve_absorb [OF empty(2) assms(1)] assms(2) by (auto simp: empty(1))
  then show ?thesis
    by (auto simp: fold_absorb)
qed

theorem pool_demux_witness:
  "\<exists>s'. serve ''s-1:2'' 100
      [\<lparr>pk_ClientId = ''a'', pk_Serial = 0, pk_Op = OP_DATA, pk_Data = [1]\<rparr>,
       \<lparr>pk_ClientId = ''b'', pk_Serial = 0, pk_Op = OP_DATA, pk_Data = [2]\<rparr>,
       \<lparr>pk_ClientId = ''a'', pk_Serial = 1, pk_Op = OP_DATA, pk_Data = [3]\<rparr>]
      \<lparr>sv_instances = Map.empty, sv_chansReply = []\<rparr> = Some s' \<and> contents s' ''a'' = Some [1, 3] \<and> contents s' ''b'' = Some [2]"
proof -
  let ?ps = "[\<lparr>pk_ClientId = ''a'', pk_Serial = 0, pk_Op = OP_DATA, pk_Data = [1]\<rparr>,
       \<lparr>pk_ClientId = ''b'', pk_Serial = 0, pk_Op = OP_DATA, pk_Data = [2]\<rparr>,
       \<lparr>pk_ClientId = ''a'', pk_Serial = 1, pk_Op = OP_DATA, pk_Data = [3]\<rparr>]"
  have "zeroFirst [] ?ps" "sum_list (map (\<lambda>p. length (pk_Data p)) ?ps) + BUF_SIZE \<le> BUF_SIZE_MAX"
    by (simp_all add: BUF_SIZE_def BUF_SIZE_MAX_def)
  from pool_demux [OF this, of "''s-1:2''" 100 "[]"] show ?thesis
    by (auto simp: dataOf_def)
qed

text \<open>The reply channel of an instance is the youngest trunk of its client's prefix, whatever the order in
  which \<open>Range\<close> visits the trunks, and there is none exactly when no trunk has the prefix.\<close>

theorem reply_channel_youngest:
  assumes "list_all (\<lambda>(k, ch). 0 < rc_createdAt ch) (sv_chansReply s)"
  shows "case getReplyChannel s t of
      None \<Rightarrow> list_all (\<lambda>(k, ch). rc_trunkPrefix ch \<noteq> in_trunkPrefix t) (sv_chansReply s)
    | Some k \<Rightarrow> list_ex (\<lambda>(k', ch). k' = k \<and> rc_trunkPrefix ch = in_trunkPrefix t \<and>
        list_all (\<lambda>(k'', ch'). rc_trunkPrefix ch' = in_trunkPrefix t \<longrightarrow> rc_createdAt ch' \<le> rc_createdAt ch) (sv_chansReply s))
        (sv_chansReply s)"
proof -
  obtain best latest where acc: "fold (replyStep (in_trunkPrefix t)) (sv_chansReply s) (None, 0) = (best, latest)"
    by fastforce
  have "youngest (in_trunkPrefix t) (sv_chansReply s) (best, latest)"
    using fold_replyStep [OF assms, of "in_trunkPrefix t" "[]" "(None, 0)"] by (simp add: acc youngest_def)
  then show ?thesis
    by (cases best) (auto simp: getReplyChannel_def acc youngest_def list_ex_iff)
qed

theorem reply_channel_youngest_witness:
  "getReplyChannel \<lparr>sv_instances = Map.empty, sv_chansReply =
      [(''p:1'', \<lparr>rc_trunkPrefix = ''p'', rc_ch = [], rc_createdAt = 10, rc_lastActiveUnix = 10\<rparr>),
       (''p:2'', \<lparr>rc_trunkPrefix = ''p'', rc_ch = [], rc_createdAt = 20, rc_lastActiveUnix = 20\<rparr>),
       (''q:3'', \<lparr>rc_trunkPrefix = ''q'', rc_ch = [], rc_createdAt = 30, rc_lastActiveUnix = 30\<rparr>)]\<rparr>
     (newInstance ''p'' ''c'') = Some ''p:2''"
proof -
  let ?s = "\<lparr>sv_instances = Map.empty, sv_chansReply =
      [(''p:1'', \<lparr>rc_trunkPrefix = ''p'', rc_ch = [], rc_createdAt = 10, rc_lastActiveUnix = 10\<rparr>),
       (''p:2'', \<lparr>rc_trunkPrefix = ''p'', rc_ch = [], rc_createdAt = 20, rc_lastActiveUnix = 20\<rparr>),
       (''q:3'', \<lparr>rc_trunkPrefix = ''q'', rc_ch = [], rc_createdAt = 30, rc_lastActiveUnix = 30\<rparr>)]\<rparr>"
  show ?thesis
    using reply_channel_youngest [of ?s "newInstance ''p'' ''c''"]
    by (auto simp: newInstance_def split: option.splits)
qed

text \<open>An \<open>OP_EOS\<close> packet that comes from the wire never closes an instance: the client id was not sent, and
  a packet without client id is dropped.\<close>

theorem eos_ignored:
  "recvPacket trunk now (received \<lparr>pk_ClientId = cid, pk_Serial = n, pk_Op = OP_EOS, pk_Data = []\<rparr> []) s = Some s"
  by (simp add: recvPacket_def received_def OP_defs)

end
