(* ===== verification/Pool_Trunk.thy ===== *)
theory Pool_Trunk
  imports Pool_Client Pool_Server S1_Codec
begin

text \<open>
  Both ends of the pool together: the writes of any number of divided clients over one shared client
  (\<open>transport/h1pool/client.go\<close>), the packets on the trunk, and the server that hands them to the
  instances (\<open>server.go\<close>). Shown here: the messages of every client arrive complete and in order,
  through the encryption of the trunk and every segmentation of the network; and over two trunks they
  need not, because the server does not look at the serials of packets.
\<close>

section \<open>Writing over a trunk\<close>




section \<open>The packets\<close>

definition dataPacket :: "string \<Rightarrow> 32 word \<Rightarrow> bytes \<Rightarrow> Packet" where
  "dataPacket cid serial d = \<lparr>pk_ClientId = cid, pk_Serial = serial, pk_Op = OP_DATA, pk_Data = d\<rparr>"



lemma dataPacket_simps [simp]:
  "pk_ClientId (dataPacket cid n d) = cid" "pk_Serial (dataPacket cid n d) = n" "pk_Op (dataPacket cid n d) = OP_DATA"
  "pk_Data (dataPacket cid n d) = d"
  by (simp_all add: dataPacket_def)




section \<open>What the server makes of them\<close>




lemma dataOf_append [simp]: "dataOf cid (ps @ qs) = dataOf cid ps @ dataOf cid qs"
  by (simp add: dataOf_def)







text \<open>What no write changes, no packet changes: the key of a framer.\<close>

definition keeps :: "('s \<Rightarrow> 'a) \<Rightarrow> ('b, 's) io \<Rightarrow> bool" where
  "keeps g m \<longleftrightarrow> (\<forall>s r s'. m s = Some (r, s') \<longrightarrow> g s' = g s)"

lemma keeps_ret [intro]: "keeps g (ret x)"
  by (simp add: keeps_def ret_def)





section \<open>Properties\<close>








text \<open>Serials are not compared: when a client writes over two trunks and the packet that is not the
  first arrives first, the server drops it, and the instance that the first packet then creates holds
  only the data of the first packet. The client has been told that both writes succeeded.\<close>

theorem trunk_reordering_loses:
  assumes "instancesOk s" and "contents s cid = None" and "cid \<noteq> []" and "n \<noteq> 0" and "length d + BUF_SIZE \<le> BUF_SIZE_MAX"
  shows "\<exists>s'. Option.bind (recvPacket k2 now2 (dataPacket cid n late) s) (recvPacket k1 now1 (dataPacket cid 0 d)) = Some s' \<and>
    contents s' = (contents s)(cid \<mapsto> d)"
proof -
  have "recvPacket k2 now2 (dataPacket cid n late) s = Some s"
    using assms(2-4) by (simp add: recvPacket_def contents_def OP_defs)
  moreover obtain s' where "recvPacket k1 now1 (dataPacket cid 0 d) s = Some s'" "contents s' = absorb (dataPacket cid 0 d) (contents s)"
    by (rule recvPacket_absorb [OF assms(1), of "dataPacket cid 0 d" k1 now1]) (use assms in \<open>auto simp: dataFor_def\<close>)
  ultimately show ?thesis
    using assms(2) by (simp add: absorb_def)
qed

theorem trunk_reordering_loses_witness:
  "\<exists>s'. Option.bind (recvPacket ''p:2'' 2 (dataPacket ''c'' 1 [104, 105]) \<lparr>sv_instances = Map.empty, sv_chansReply = []\<rparr>)
      (recvPacket ''p:1'' 1 (dataPacket ''c'' 0 [111])) = Some s' \<and> contents s' = [''c'' \<mapsto> [111]]"
proof -
  have "instancesOk \<lparr>sv_instances = Map.empty, sv_chansReply = []\<rparr>" "contents \<lparr>sv_instances = Map.empty, sv_chansReply = []\<rparr> = Map.empty"
    by (simp_all add: instancesOk_def contents_def)
  then show ?thesis
    using trunk_reordering_loses [of "\<lparr>sv_instances = Map.empty, sv_chansReply = []\<rparr>" "''c''" 1 "[111]" "''p:2''" 2 "[104, 105]" "''p:1''" 1]
    by (simp add: BUF_SIZE_def BUF_SIZE_MAX_def)
qed

end
