(* ===== verification/Relay.thy ===== *)
theory Relay
  imports Utils Conf
begin

text \<open>
  The bidirectional copy \<open>utils/proxy.go\<close>, \<open>Proxy(conn, upConn)\<close>: four goroutines (the caller among
  them), two channels of chunks and a channel of errors, as a step relation. Shown here: in both
  directions what is written is a prefix of what was read, in order; the error channel never
  blocks; but chunks that are still queued when an error or end of file is reported are dropped.
\<close>

text \<open>\<open>px_connIn\<close> and \<open>px_upIn\<close> are the bytes the two connections will still deliver, \<open>px_connOut\<close> and
  \<open>px_upOut\<close> what was written to them; \<open>px_chUp\<close>, \<open>px_chDown\<close>, \<open>px_chErr\<close> are the channels. The
  flags say which goroutine is still in its loop: the two readers, the writer of the up-link, and
  the caller, which writes to \<open>conn\<close> and waits for errors.\<close>

record proxy =
  px_connIn :: bytes
  px_upIn :: bytes
  px_chUp :: "bytes list"
  px_chDown :: "bytes list"
  px_chErr :: "goerr list"
  px_upOut :: bytes
  px_connOut :: bytes
  px_readLocal :: bool
  px_readUp :: bool
  px_writeUp :: bool
  px_main :: bool

definition chanCap :: nat where "chanCap = 8"
definition errCap :: nat where "errCap = 4"

definition proxyStart :: "bytes \<Rightarrow> bytes \<Rightarrow> proxy" where
  "proxyStart connIn upIn =
     \<lparr>px_connIn = connIn, px_upIn = upIn, px_chUp = [], px_chDown = [], px_chErr = [], px_upOut = [], px_connOut = [],
      px_readLocal = True, px_readUp = True, px_writeUp = True, px_main = True\<rparr>"

text \<open>A \<open>Read\<close> delivers some chunk that fits the buffer, or an error. A send on a full channel waits. When the
  caller has returned, \<open>x.Done()\<close> is ready and the up-link writer may leave its loop. Empty chunks are
  not written.\<close>

inductive proxy_step :: "proxy \<Rightarrow> proxy \<Rightarrow> bool" where
  readLocal: "px_readLocal s \<Longrightarrow> px_connIn s = d @ rest \<Longrightarrow> length d \<le> DEFAULT_BUFFER_SIZE \<Longrightarrow> length (px_chUp s) < chanCap \<Longrightarrow>
    proxy_step s (s\<lparr>px_connIn := rest, px_chUp := px_chUp s @ [d]\<rparr>)"
| localErr: "px_readLocal s \<Longrightarrow> length (px_chErr s) < errCap \<Longrightarrow>
    proxy_step s (s\<lparr>px_readLocal := False, px_chErr := px_chErr s @ [e]\<rparr>)"
| readUp: "px_readUp s \<Longrightarrow> px_upIn s = d @ rest \<Longrightarrow> length d \<le> DEFAULT_BUFFER_SIZE \<Longrightarrow> length (px_chDown s) < chanCap \<Longrightarrow>
    proxy_step s (s\<lparr>px_upIn := rest, px_chDown := px_chDown s @ [d]\<rparr>)"
| upErr: "px_readUp s \<Longrightarrow> length (px_chErr s) < errCap \<Longrightarrow>
    proxy_step s (s\<lparr>px_readUp := False, px_chErr := px_chErr s @ [e]\<rparr>)"
| writeUp: "px_writeUp s \<Longrightarrow> px_chUp s = c # cs \<Longrightarrow>
    proxy_step s (s\<lparr>px_chUp := cs, px_upOut := px_upOut s @ c\<rparr>)"
| writeUpErr: "px_writeUp s \<Longrightarrow> px_chUp s = c # cs \<Longrightarrow> c \<noteq> [] \<Longrightarrow> length (px_chErr s) < errCap \<Longrightarrow>
    proxy_step s (s\<lparr>px_chUp := cs, px_writeUp := False, px_chErr := px_chErr s @ [e]\<rparr>)"
| stopUp: "px_writeUp s \<Longrightarrow> \<not> px_main s \<Longrightarrow> proxy_step s (s\<lparr>px_writeUp := False\<rparr>)"
| writeDown: "px_main s \<Longrightarrow> px_chDown s = c # cs \<Longrightarrow>
    proxy_step s (s\<lparr>px_chDown := cs, px_connOut := px_connOut s @ c\<rparr>)"
| writeDownErr: "px_main s \<Longrightarrow> px_chDown s = c # cs \<Longrightarrow> c \<noteq> [] \<Longrightarrow>
    proxy_step s (s\<lparr>px_chDown := cs, px_main := False\<rparr>)"
| mainErr: "px_main s \<Longrightarrow> px_chErr s = e # es \<Longrightarrow> proxy_step s (s\<lparr>px_chErr := es, px_main := False\<rparr>)"

text \<open>The invariant: while a writer is in its loop nothing of its direction is lost; what was written is always
  a prefix; an error is pending only for a goroutine that has left its loop.\<close>

definition proxyInv :: "bytes \<Rightarrow> bytes \<Rightarrow> proxy \<Rightarrow> bool" where
  "proxyInv connIn upIn s \<longleftrightarrow>
     (if px_writeUp s then connIn = px_upOut s @ concat (px_chUp s) @ px_connIn s else \<exists>r. connIn = px_upOut s @ r) \<and>
     (if px_main s then upIn = px_connOut s @ concat (px_chDown s) @ px_upIn s else \<exists>r. upIn = px_connOut s @ r) \<and>
     length (px_chErr s) + (if px_readLocal s then 1 else 0) + (if px_readUp s then 1 else 0) + (if px_writeUp s then 1 else 0) \<le> 3"

lemma proxyInv_start: "proxyInv c u (proxyStart c u)"
  by (simp add: proxyInv_def proxyStart_def)

lemma proxyInv_step: "proxy_step s s' \<Longrightarrow> proxyInv c u s \<Longrightarrow> proxyInv c u s'"
  by (induction rule: proxy_step.induct) (auto simp: proxyInv_def split: if_splits)

lemma proxyInv_steps: "proxy_step\<^sup>*\<^sup>* s s' \<Longrightarrow> proxyInv c u s \<Longrightarrow> proxyInv c u s'"
  by (induction rule: rtranclp_induct) (auto intro: proxyInv_step)

section \<open>Properties\<close>

text \<open>C25. Integrity of the relay: in every reachable state what has been written to the up-link is a prefix of
  what \<open>conn\<close> delivers, and what has been written to \<open>conn\<close> is a prefix of what the up-link delivers,
  for every interleaving of the goroutines and every size of the chunks; and a goroutine that has
  an error to report can always send it, so none of them stays blocked on the error channel.\<close>

theorem proxy_integrity:
  assumes "proxy_step\<^sup>*\<^sup>* (proxyStart connIn upIn) s"
  shows "(\<exists>r. connIn = px_upOut s @ r) \<and> (\<exists>r. upIn = px_connOut s @ r) \<and> length (px_chErr s) < errCap"
  using proxyInv_steps [OF assms proxyInv_start]
  by (auto simp: proxyInv_def errCap_def split: if_splits)

theorem proxy_integrity_witness:
  "\<exists>s. proxy_step\<^sup>*\<^sup>* (proxyStart [1, 2, 3] []) s \<and> px_upOut s = [1, 2] \<and> (\<exists>r. [1, 2, 3] = px_upOut s @ r)"
proof -
  define s1 where "s1 = (proxyStart [1, 2, 3] [])\<lparr>px_connIn := [3], px_chUp := [[1, 2]]\<rparr>"
  define s2 where "s2 = s1\<lparr>px_chUp := [], px_upOut := [1, 2]\<rparr>"
  have "proxy_step (proxyStart [1, 2, 3] []) s1"
    using proxy_step.readLocal [of "proxyStart [1, 2, 3] []" "[1, 2]" "[3]"]
    by (simp add: proxyStart_def s1_def DEFAULT_BUFFER_SIZE_def chanCap_def)
  moreover have "proxy_step s1 s2"
    using proxy_step.writeUp [of s1 "[1, 2]" "[]"] by (simp add: s1_def s2_def proxyStart_def)
  ultimately have "proxy_step\<^sup>*\<^sup>* (proxyStart [1, 2, 3] []) s2"
    by auto
  from proxy_integrity [OF this] this show ?thesis
    by (auto simp: s2_def)
qed

text \<open>The relay can lose the end of a stream: when the up-link delivers some bytes and then ends, the
  caller may take the end of file from the error channel before the queued chunk and return; the
  bytes it had read are then never written to \<open>conn\<close>.\<close>

theorem proxy_drops_tail:
  "\<exists>s. proxy_step\<^sup>*\<^sup>* (proxyStart [] [1, 2, 3]) s \<and> px_upIn s = [] \<and> \<not> px_main s \<and> px_connOut s = [] \<and> px_chDown s = [[1, 2, 3]] \<and>
    {px_connOut s' | s'. proxy_step\<^sup>*\<^sup>* s s'} = {[]}"
proof -
  define s0 where "s0 = proxyStart [] [1, 2, 3]"
  define s1 where "s1 = s0\<lparr>px_upIn := [], px_chDown := [[1, 2, 3]]\<rparr>"
  define s2 where "s2 = s1\<lparr>px_readUp := False, px_chErr := [EOF]\<rparr>"
  define s3 where "s3 = s2\<lparr>px_chErr := [], px_main := False\<rparr>"
  have "proxy_step s0 s1"
    using proxy_step.readUp [of s0 "[1, 2, 3]" "[]"] by (simp add: s0_def s1_def proxyStart_def DEFAULT_BUFFER_SIZE_def chanCap_def)
  moreover have "proxy_step s1 s2"
    using proxy_step.upErr [of s1 EOF] by (simp add: s0_def s1_def s2_def proxyStart_def errCap_def)
  moreover have "proxy_step s2 s3"
    using proxy_step.mainErr [of s2 EOF "[]"] by (simp add: s0_def s1_def s2_def s3_def proxyStart_def)
  ultimately have "proxy_step\<^sup>*\<^sup>* s0 s3"
    by (meson converse_rtranclp_into_rtranclp rtranclp.rtrancl_refl)
  moreover have stop: "\<not> px_main s' \<and> px_connOut s' = []" if "proxy_step\<^sup>*\<^sup>* s3 s'" for s'
    using that
  proof (induction rule: rtranclp_induct)
    case base
    then show ?case by (simp add: s0_def s1_def s2_def s3_def proxyStart_def)
  next
    case (step a b)
    from step(2,3) show ?case
      by (induction rule: proxy_step.induct) auto
  qed
  moreover have "px_upIn s3 = [] \<and> \<not> px_main s3 \<and> px_connOut s3 = [] \<and> px_chDown s3 = [[1, 2, 3]]"
    by (simp add: s0_def s1_def s2_def s3_def proxyStart_def)
  moreover have "{px_connOut s' | s'. proxy_step\<^sup>*\<^sup>* s3 s'} = {[]}"
  proof -
    have "proxy_step\<^sup>*\<^sup>* s3 s3 \<and> px_connOut s3 = []"
      using stop [of s3] by simp
    then show ?thesis
      using stop by force
  qed
  ultimately show ?thesis
    unfolding s0_def by blast
qed

end
