(* ===== verification/Io_Copy.thy ===== *)
theory Io_Copy
  imports Relay
begin

text \<open>
  The other relay of \<open>utils/proxy.go\<close>, \<open>ProxyIOCopy(conn, upConn)\<close>: two goroutines, each an \<open>io.Copy\<close>, and a
  caller that waits for both. Shown here: when it returns without an error, everything that was read
  has been written, in contrast to \<open>Proxy\<close>; and it always can return once both sides have ended.
\<close>

text \<open>One direction: the bytes still to be delivered, the chunk in the buffer of \<open>io.Copy\<close> (32 KB), what was written,
  and how the copy ended.\<close>

datatype copyEnd = Copying | CopyDone | CopyFailed goerr

record copier =
  cp_in :: bytes
  cp_chunk :: bytes
  cp_out :: bytes
  cp_end :: copyEnd

definition copyBuf :: nat where "copyBuf = 32 * 1024"

definition newCopier :: "bytes \<Rightarrow> copier" where
  "newCopier src = \<lparr>cp_in = src, cp_chunk = [], cp_out = [], cp_end = Copying\<rparr>"

text \<open>The loop of \<open>io.Copy\<close>: read a chunk, write it, and end at the end of file or with an error.\<close>

inductive copy_step :: "copier \<Rightarrow> copier \<Rightarrow> bool" where
  copy_read: "cp_end s = Copying \<Longrightarrow> cp_chunk s = [] \<Longrightarrow> cp_in s = d @ rest \<Longrightarrow> d \<noteq> [] \<Longrightarrow> length d \<le> copyBuf \<Longrightarrow>
    copy_step s (s\<lparr>cp_in := rest, cp_chunk := d\<rparr>)"
| copy_write: "cp_end s = Copying \<Longrightarrow> cp_chunk s \<noteq> [] \<Longrightarrow> copy_step s (s\<lparr>cp_chunk := [], cp_out := cp_out s @ cp_chunk s\<rparr>)"
| copy_eof: "cp_end s = Copying \<Longrightarrow> cp_chunk s = [] \<Longrightarrow> cp_in s = [] \<Longrightarrow> copy_step s (s\<lparr>cp_end := CopyDone\<rparr>)"
| copy_readErr: "cp_end s = Copying \<Longrightarrow> cp_chunk s = [] \<Longrightarrow> copy_step s (s\<lparr>cp_end := CopyFailed e\<rparr>)"
| copy_writeErr: "cp_end s = Copying \<Longrightarrow> cp_chunk s \<noteq> [] \<Longrightarrow> copy_step s (s\<lparr>cp_end := CopyFailed e\<rparr>)"

text \<open>Both directions interleaved; \<open>wg.Wait()\<close> returns when both have ended.\<close>

record ioProxy =
  io_up :: copier
  io_down :: copier
  io_returned :: bool

definition ioStart :: "bytes \<Rightarrow> bytes \<Rightarrow> ioProxy" where
  "ioStart connIn upIn = \<lparr>io_up = newCopier connIn, io_down = newCopier upIn, io_returned = False\<rparr>"

inductive io_step :: "ioProxy \<Rightarrow> ioProxy \<Rightarrow> bool" where
  io_copyUp: "copy_step (io_up s) c \<Longrightarrow> io_step s (s\<lparr>io_up := c\<rparr>)"
| io_copyDown: "copy_step (io_down s) c \<Longrightarrow> io_step s (s\<lparr>io_down := c\<rparr>)"
| io_wait: "cp_end (io_up s) \<noteq> Copying \<Longrightarrow> cp_end (io_down s) \<noteq> Copying \<Longrightarrow> io_step s (s\<lparr>io_returned := True\<rparr>)"

section \<open>Invariant\<close>

definition copyInv :: "bytes \<Rightarrow> copier \<Rightarrow> bool" where
  "copyInv src s \<longleftrightarrow> src = cp_out s @ cp_chunk s @ cp_in s \<and> (cp_end s = CopyDone \<longrightarrow> cp_out s = src)"

definition ioInv :: "bytes \<Rightarrow> bytes \<Rightarrow> ioProxy \<Rightarrow> bool" where
  "ioInv c u s \<longleftrightarrow> copyInv c (io_up s) \<and> copyInv u (io_down s) \<and>
     (io_returned s \<longrightarrow> cp_end (io_up s) \<noteq> Copying \<and> cp_end (io_down s) \<noteq> Copying)"

lemma copyInvD: "copyInv src s \<Longrightarrow> \<exists>r. src = cp_out s @ r" "copyInv src s \<Longrightarrow> cp_end s = CopyDone \<Longrightarrow> cp_out s = src"
  unfolding copyInv_def by (blast, blast)

lemma copyInv_step: "copy_step s s' \<Longrightarrow> copyInv src s \<Longrightarrow> copyInv src s' \<and> cp_end s = Copying"
  by (induction rule: copy_step.induct) (simp_all add: copyInv_def)

lemma ioInv_step: "io_step s s' \<Longrightarrow> ioInv c u s \<Longrightarrow> ioInv c u s'"
  by (induction rule: io_step.induct) (auto simp: ioInv_def dest: copyInv_step)

lemma ioInv_steps: "io_step\<^sup>*\<^sup>* s s' \<Longrightarrow> ioInv c u s \<Longrightarrow> ioInv c u s'"
  by (induction rule: rtranclp_induct) (auto intro: ioInv_step)

lemma ioInv_start: "ioInv c u (ioStart c u)"
  by (simp add: ioInv_def ioStart_def newCopier_def copyInv_def)

text \<open>A copy can always go on to its end.\<close>

lemma copy_finishes:
  assumes "cp_end s = Copying"
  shows "\<exists>s'. copy_step\<^sup>*\<^sup>* s s' \<and> cp_end s' = CopyDone"
  using assms
proof (induction "2 * length (cp_in s) + length (cp_chunk s)" arbitrary: s rule: less_induct)
  case less
  show ?case
  proof (cases "cp_chunk s = []")
    case False
    let ?s = "s\<lparr>cp_chunk := [], cp_out := cp_out s @ cp_chunk s\<rparr>"
    have "copy_step s ?s"
      using less.prems False by (rule copy_write)
    moreover from False have "\<exists>s'. copy_step\<^sup>*\<^sup>* ?s s' \<and> cp_end s' = CopyDone"
      by (intro less.hyps) (simp_all add: less.prems)
    ultimately show ?thesis
      by (meson converse_rtranclp_into_rtranclp)
  next
    case True
    show ?thesis
    proof (cases "cp_in s")
      case Nil
      have "copy_step s (s\<lparr>cp_end := CopyDone\<rparr>)"
        using less.prems True Nil by (rule copy_eof)
      then show ?thesis
        by (intro exI [of _ "s\<lparr>cp_end := CopyDone\<rparr>"]) auto
    next
      case (Cons b bs)
      let ?s = "s\<lparr>cp_in := bs, cp_chunk := [b]\<rparr>"
      have "copy_step s ?s"
        using less.prems True by (rule copy_read) (simp_all add: Cons copyBuf_def)
      moreover have "\<exists>s'. copy_step\<^sup>*\<^sup>* ?s s' \<and> cp_end s' = CopyDone"
        by (intro less.hyps) (simp_all add: less.prems Cons True)
      ultimately show ?thesis
        by (meson converse_rtranclp_into_rtranclp)
    qed
  qed
qed

lemma io_up_steps: "copy_step\<^sup>*\<^sup>* (io_up s) c \<Longrightarrow> io_step\<^sup>*\<^sup>* s (s\<lparr>io_up := c\<rparr>)"
proof (induction rule: rtranclp_induct)
  case (step y z)
  have "io_step (s\<lparr>io_up := y\<rparr>) ((s\<lparr>io_up := y\<rparr>)\<lparr>io_up := z\<rparr>)"
    using step.hyps(2) by (intro io_copyUp) simp
  with step.IH show ?case
    by simp
qed simp

lemma io_down_steps: "copy_step\<^sup>*\<^sup>* (io_down s) c \<Longrightarrow> io_step\<^sup>*\<^sup>* s (s\<lparr>io_down := c\<rparr>)"
proof (induction rule: rtranclp_induct)
  case (step y z)
  have "io_step (s\<lparr>io_down := y\<rparr>) ((s\<lparr>io_down := y\<rparr>)\<lparr>io_down := z\<rparr>)"
    using step.hyps(2) by (intro io_copyDown) simp
  with step.IH show ?case
    by simp
qed simp

section \<open>Properties\<close>

text \<open>\<open>ProxyIOCopy\<close> loses nothing: in every interleaving what was written is a prefix of what its source delivers,
  and when it has returned, each direction that did not fail has written everything. From every
  reachable state in which both copies run it can still return with everything delivered.\<close>

theorem iocopy_complete:
  assumes "io_step\<^sup>*\<^sup>* (ioStart connIn upIn) s"
  shows "(\<exists>r. connIn = cp_out (io_up s) @ r) \<and> (\<exists>r. upIn = cp_out (io_down s) @ r) \<and>
    (io_returned s \<longrightarrow>
      (cp_end (io_up s) = CopyDone \<longrightarrow> cp_out (io_up s) = connIn) \<and> (cp_end (io_down s) = CopyDone \<longrightarrow> cp_out (io_down s) = upIn) \<and>
      cp_end (io_up s) \<noteq> Copying \<and> cp_end (io_down s) \<noteq> Copying) \<and>
    (cp_end (io_up s) = Copying \<and> cp_end (io_down s) = Copying \<longrightarrow>
      (\<exists>s'. io_step\<^sup>*\<^sup>* s s' \<and> io_returned s' \<and> cp_out (io_up s') = connIn \<and> cp_out (io_down s') = upIn))"
proof -
  have i: "ioInv connIn upIn s"
    by (rule ioInv_steps [OF assms ioInv_start])
  have fin: "\<exists>s'. io_step\<^sup>*\<^sup>* s s' \<and> io_returned s' \<and> cp_out (io_up s') = connIn \<and> cp_out (io_down s') = upIn"
    if run: "cp_end (io_up s) = Copying" "cp_end (io_down s) = Copying"
  proof -
    obtain c d where c: "copy_step\<^sup>*\<^sup>* (io_up s) c" "cp_end c = CopyDone" and d: "copy_step\<^sup>*\<^sup>* (io_down s) d" "cp_end d = CopyDone"
      using copy_finishes [OF run(1)] copy_finishes [OF run(2)] by blast
    let ?s = "s\<lparr>io_up := c, io_down := d\<rparr>"
    have s1: "io_step\<^sup>*\<^sup>* s ?s"
      using io_up_steps [OF c(1)] io_down_steps [of "s\<lparr>io_up := c\<rparr>" d] d(1) by simp
    moreover have "io_step ?s (?s\<lparr>io_returned := True\<rparr>)"
      using c(2) d(2) by (intro io_wait) simp_all
    ultimately have "io_step\<^sup>*\<^sup>* s (?s\<lparr>io_returned := True\<rparr>)"
      by simp
    moreover have "copyInv connIn c" "copyInv upIn d"
      using ioInv_steps [OF s1 i] by (simp_all add: ioInv_def)
    then have "cp_out c = connIn" "cp_out d = upIn"
      using copyInvD(2) c(2) d(2) by blast+
    ultimately show ?thesis
      by (intro exI [of _ "?s\<lparr>io_returned := True\<rparr>"]) simp
  qed
  have c: "copyInv connIn (io_up s)" "copyInv upIn (io_down s)"
    and e: "io_returned s \<Longrightarrow> cp_end (io_up s) \<noteq> Copying" "io_returned s \<Longrightarrow> cp_end (io_down s) \<noteq> Copying"
    using i by (simp_all add: ioInv_def)
  show ?thesis
    by (intro conjI impI fin copyInvD(1) [OF c(1)] copyInvD(1) [OF c(2)] copyInvD(2) [OF c(1)] copyInvD(2) [OF c(2)]; (elim conjE)?; (assumption | rule e; assumption))
qed

theorem iocopy_complete_witness:
  "\<exists>s'. io_step\<^sup>*\<^sup>* (ioStart [1, 2] [3]) s' \<and> io_returned s' \<and> cp_out (io_up s') = [1, 2] \<and> cp_out (io_down s') = [3]"
  using iocopy_complete [of "[1, 2]" "[3]" "ioStart [1, 2] [3]"] by (simp add: ioStart_def newCopier_def)

end
