(* ===== verification/Ts_Cache.thy ===== *)
theory Ts_Cache
  imports Prelude
begin

text \<open>
  The time sensitive cache \<open>lru/ts_cache.go\<close>. \<open>time.Now()\<close> is an argument (an instant in nanoseconds);
  the map is a partial function from keys to the last use and the entry. The interface
  \<open>kv_cache\<close> is what the resolver relies on. Shown here: look-up laws, and which entries a round of the
  worker removes.
\<close>

record 'v item =
  it_lastUsedAt :: int
  it_entry :: 'v

record 'v TSCache =
  ts_items :: "string \<rightharpoonup> 'v item"
  ts_EntryMaxTTL :: int

definition TS_Put :: "string \<Rightarrow> 'v \<Rightarrow> int \<Rightarrow> 'v TSCache \<Rightarrow> 'v TSCache" where
  "TS_Put key entry now t = t\<lparr>ts_items := (ts_items t)(key \<mapsto> \<lparr>it_lastUsedAt = now, it_entry = entry\<rparr>)\<rparr>"

definition TS_Get :: "string \<Rightarrow> int \<Rightarrow> 'v TSCache \<Rightarrow> 'v option \<times> 'v TSCache" where
  "TS_Get key now t =
     (case ts_items t key of
        Some it \<Rightarrow> (Some (it_entry it), t\<lparr>ts_items := (ts_items t)(key \<mapsto> it\<lparr>it_lastUsedAt := now\<rparr>)\<rparr>)
      | None \<Rightarrow> (None, t))"

text \<open>\<open>item.lastUsedAt.Add(maxTTL).Before(now)\<close>\<close>

definition outdated :: "int \<Rightarrow> int \<Rightarrow> 'v item \<Rightarrow> bool" where
  "outdated maxTTL now it \<longleftrightarrow> it_lastUsedAt it + maxTTL < now"

definition removeOutdatedItems :: "int \<Rightarrow> 'v TSCache \<Rightarrow> 'v TSCache" where
  "removeOutdatedItems now t =
     t\<lparr>ts_items := (\<lambda>k. case ts_items t k of
         Some it \<Rightarrow> if outdated (ts_EntryMaxTTL t) now it then None else Some it
       | None \<Rightarrow> None)\<rparr>"

text \<open>\<open>Worker\<close>: a round every 15 seconds until the context is done; \<open>ticks\<close> are the instants of its rounds.\<close>

definition TS_Worker :: "int list \<Rightarrow> 'v TSCache \<Rightarrow> 'v TSCache" where
  "TS_Worker ticks t = fold removeOutdatedItems ticks t"

definition NewTSCache :: "int \<Rightarrow> 'v TSCache" where
  "NewTSCache ttl = \<lparr>ts_items = Map.empty, ts_EntryMaxTTL = ttl\<rparr>"

section \<open>The interface\<close>

locale kv_cache =
  fixes put :: "string \<Rightarrow> 'v \<Rightarrow> int \<Rightarrow> 'c \<Rightarrow> 'c" and get :: "string \<Rightarrow> int \<Rightarrow> 'c \<Rightarrow> 'v option \<times> 'c"
  assumes get_put: "fst (get k now' (put k' v now c)) = (if k = k' then Some v else fst (get k now' c))"
    and get_get: "fst (get k now' (snd (get k' now c))) = fst (get k now' c)"
begin

text \<open>What a client that fills the cache on a miss sees: the value it stored, as long as nothing is removed.\<close>

lemma fill_on_miss:
  assumes "fst (get k t1 c) = None"
  shows "fst (get k t3 (put k v t2 (snd (get k t1 c)))) = Some v"
    and "k' \<noteq> k \<Longrightarrow> fst (get k' t3 (put k v t2 (snd (get k t1 c)))) = fst (get k' t3 c)"
  by (simp_all add: get_put get_get)

end

interpretation ts: kv_cache TS_Put TS_Get
  by unfold_locales (auto simp: TS_Put_def TS_Get_def split: option.split)

section \<open>Expiry\<close>

lemma TS_Get_fst: "fst (TS_Get k now t) = map_option it_entry (ts_items t k)"
  by (simp add: TS_Get_def split: option.split)

lemma TS_Worker_items:
  "ts_EntryMaxTTL (TS_Worker ticks t) = ts_EntryMaxTTL t \<and>
   ts_items (TS_Worker ticks t) k =
     (case ts_items t k of
        Some it \<Rightarrow> if list_ex (\<lambda>now. outdated (ts_EntryMaxTTL t) now it) ticks then None else Some it
      | None \<Rightarrow> None)"
  by (induction ticks arbitrary: t) (auto simp: TS_Worker_def removeOutdatedItems_def split: option.split)

section \<open>Properties\<close>

text \<open>C37. The cache returns what was stored last under a key, for as long as the worker lets it: after
  \<open>Put\<close> at \<open>t0\<close>, a \<open>Get\<close> at \<open>t1\<close> and any rounds of the worker, a later \<open>Get\<close> finds the entry exactly
  when no round came more than the TTL after the last use, \<open>t1\<close>. Other keys are not affected by
  either access.\<close>

theorem ts_cache_expiry:
  "fst (TS_Get k t2 (TS_Worker ticks (snd (TS_Get k t1 (TS_Put k v t0 c))))) =
     (if list_ex (\<lambda>now. t1 + ts_EntryMaxTTL c < now) ticks then None else Some v)
   \<and> (k' = k \<or> fst (TS_Get k' t2 (TS_Worker ticks (snd (TS_Get k t1 (TS_Put k v t0 c))))) = fst (TS_Get k' t2 (TS_Worker ticks c)))"
proof -
  let ?c = "snd (TS_Get k t1 (TS_Put k v t0 c))"
  have items: "ts_items ?c = (ts_items c)(k \<mapsto> \<lparr>it_lastUsedAt = t1, it_entry = v\<rparr>)" "ts_EntryMaxTTL ?c = ts_EntryMaxTTL c"
    by (simp_all add: TS_Get_def TS_Put_def)
  show ?thesis
    using TS_Worker_items [of ticks ?c] TS_Worker_items [of ticks c]
    by (auto simp: TS_Get_fst items outdated_def split: option.split)
qed

end
