(* ===== verification/Virtual_Conn.thy ===== *)
theory Virtual_Conn
  imports Prelude
begin

text \<open>
  The connections that the tunnel hands to the proxy (\<open>socks/backend/virtual_conn.go\<close>). Its channels have
  no buffer: \<open>Read\<close> takes what a sender offers, if there is one. Shown here: what \<open>Read\<close> returns and what
  it leaves is what was buffered and what was taken, in order.
\<close>

record virtualConn =
  vc_closed :: bool
  vc_bufRead :: bytes
  vc_lenBufRead :: nat

text \<open>The connection that \<open>Dial\<close> creates.\<close>

definition newVirtualConn :: virtualConn where
  "newVirtualConn = \<lparr>vc_closed = False, vc_bufRead = zeros (1024 * 16), vc_lenBufRead = 0\<rparr>"

definition vc_appendBuf :: "bytes \<Rightarrow> virtualConn \<Rightarrow> virtualConn" where
  "vc_appendBuf dat c =
     (let sizeAfter = vc_lenBufRead c + length dat
      in if length (vc_bufRead c) < sizeAfter then
           (let buf = gocopy (zeros sizeAfter) (take (vc_lenBufRead c) (vc_bufRead c))
            in c\<lparr>vc_bufRead := copyAt (vc_lenBufRead c) dat buf, vc_lenBufRead := sizeAfter\<rparr>)
         else c\<lparr>vc_bufRead := copyAt (vc_lenBufRead c) dat (vc_bufRead c), vc_lenBufRead := sizeAfter\<rparr>)"

text \<open>\<open>Read(buf)\<close> with \<open>len(buf) = n\<close>. \<open>offer\<close> is what a sender offers on \<open>chR\<close>: nothing, nil, or a chunk; the flag of
  the result says whether it was taken. \<open>None\<close>: the call waits.\<close>

definition vc_Read :: "nat \<Rightarrow> bytes option option \<Rightarrow> virtualConn \<Rightarrow> (bytes res \<times> virtualConn \<times> bool) option" where
  "vc_Read n offer c =
     (if 0 < vc_lenBufRead c then
        (let sz = (if vc_lenBufRead c < n then vc_lenBufRead c else n)
         in Some (Ok (take sz (vc_bufRead c)),
                  c\<lparr>vc_bufRead := gocopy (vc_bufRead c) (drop sz (vc_bufRead c)), vc_lenBufRead := vc_lenBufRead c - sz\<rparr>, False))
      else if vc_closed c then Some (Err EOF, c, False)
      else case offer of
             None \<Rightarrow> None
           | Some None \<Rightarrow> Some (Err EOF, c, True)
           | Some (Some chunk) \<Rightarrow>
               if n < length chunk then Some (Ok (take n chunk), vc_appendBuf (drop n chunk) c, True)
               else Some (Ok chunk, c, True))"

text \<open>\<open>Write\<close>: what is sent into \<open>chW\<close>, if anything, and the result.\<close>

definition vc_Write :: "bytes \<Rightarrow> virtualConn \<Rightarrow> nat res \<times> bytes option" where
  "vc_Write dat c =
     (if vc_closed c then (Err EOF, None)
      else (Ok (length dat), if 0 < length dat then Some dat else None))"

definition closeLocal :: "virtualConn \<Rightarrow> virtualConn" where
  "closeLocal c = c\<lparr>vc_closed := True\<rparr>"

section \<open>The buffered stream\<close>

definition vcOk :: "virtualConn \<Rightarrow> bool" where
  "vcOk c \<longleftrightarrow> vc_lenBufRead c \<le> length (vc_bufRead c)"

definition vcBuffered :: "virtualConn \<Rightarrow> bytes" where
  "vcBuffered c = take (vc_lenBufRead c) (vc_bufRead c)"

lemma vcOk_new [simp]: "vcOk newVirtualConn" "vcBuffered newVirtualConn = []" "\<not> vc_closed newVirtualConn"
  by (simp_all add: vcOk_def vcBuffered_def newVirtualConn_def)

lemma closeLocal_simps [simp]: "vcOk (closeLocal c) = vcOk c" "vcBuffered (closeLocal c) = vcBuffered c" "vc_closed (closeLocal c)"
  by (simp_all add: vcOk_def vcBuffered_def closeLocal_def)

lemma vc_appendBuf_spec:
  assumes "vcOk c"
  shows "vcOk (vc_appendBuf d c) \<and> vcBuffered (vc_appendBuf d c) = vcBuffered c @ d \<and> vc_closed (vc_appendBuf d c) = vc_closed c"
  using assms by (auto simp: vcOk_def vcBuffered_def vc_appendBuf_def Let_def copyAt_def gocopy_def zeros_def)

lemma vc_Read_took: "vc_Read n offer c = Some (r, c', True) \<Longrightarrow> offer \<noteq> None"
  by (auto simp: vc_Read_def Let_def split: if_splits option.splits)

lemma vc_Read_spec:
  assumes "vcOk c" and "vc_Read n offer c = Some (r, c', took)"
  shows "vcOk c'" and "vc_closed c' = vc_closed c"
    and "r = Ok d \<Longrightarrow> length d \<le> n \<and> vcBuffered c @ (if took then the (the offer) else []) = d @ vcBuffered c'"
    and "took \<Longrightarrow> offer \<noteq> None \<and> \<not> vc_closed c \<and> vcBuffered c = []"
    and "r = Ok d \<Longrightarrow> took \<Longrightarrow> \<exists>chunk. offer = Some (Some chunk)"
proof -
  have shift: "take (l - sz) (gocopy b (drop sz b)) = take (l - sz) (drop sz b)" if "sz \<le> l" "l \<le> length b" for sz l and b :: bytes
    by (rule take_gocopy) (use that in auto)
  have "vcOk c' \<and> vc_closed c' = vc_closed c \<and>
      (\<forall>d. r = Ok d \<longrightarrow> length d \<le> n \<and> vcBuffered c @ (if took then the (the offer) else []) = d @ vcBuffered c') \<and>
      (took \<longrightarrow> offer \<noteq> None \<and> \<not> vc_closed c \<and> vcBuffered c = []) \<and>
      (\<forall>d. r = Ok d \<longrightarrow> took \<longrightarrow> (\<exists>chunk. offer = Some (Some chunk)))"
  proof (cases "0 < vc_lenBufRead c")
    case True
    define sz where "sz = (if vc_lenBufRead c < n then vc_lenBufRead c else n)"
    have sz: "sz \<le> vc_lenBufRead c" "sz \<le> n" "vc_lenBufRead c \<le> length (vc_bufRead c)"
      using assms(1) by (simp_all add: sz_def vcOk_def)
    have "take sz (vc_bufRead c) @ take (vc_lenBufRead c - sz) (drop sz (vc_bufRead c)) = take (vc_lenBufRead c) (vc_bufRead c)"
      using sz(1) by (simp flip: take_add)
    with True assms sz show ?thesis
      by (auto simp: vc_Read_def sz_def [symmetric] vcOk_def vcBuffered_def shift Let_def)
  next
    case False
    then have "vcBuffered c = []"
      by (simp add: vcBuffered_def)
    with False assms vc_appendBuf_spec [OF assms(1)] show ?thesis
      by (auto simp: vc_Read_def split: if_splits option.splits)
  qed
  then show "vcOk c'" "vc_closed c' = vc_closed c"
    "r = Ok d \<Longrightarrow> length d \<le> n \<and> vcBuffered c @ (if took then the (the offer) else []) = d @ vcBuffered c'"
    "took \<Longrightarrow> offer \<noteq> None \<and> \<not> vc_closed c \<and> vcBuffered c = []"
    "r = Ok d \<Longrightarrow> took \<Longrightarrow> \<exists>chunk. offer = Some (Some chunk)"
    by blast+
qed

section \<open>Well-formed connections\<close>

inductive vc_step :: "virtualConn \<Rightarrow> virtualConn \<Rightarrow> bool" where
  read: "vc_Read n offer c = Some (r, c', took) \<Longrightarrow> vc_step c c'"
| close: "vc_step c (closeLocal c)"

lemma vc_Read_room:
  assumes "vc_Read n offer c = Some (r, c', took)"
  shows "length (vc_bufRead c) \<le> length (vc_bufRead c')"
  using assms by (auto simp: vc_Read_def vc_appendBuf_def Let_def split: if_splits option.splits)

text \<open>C36. A connection stays well-formed through every sequence of reads, whatever is offered to them, and after it is
  closed: the number of buffered bytes never exceeds the buffer, so that its slices are in range, and
  the buffer is never smaller than it was made; once closed it stays closed.\<close>

theorem virtual_conn_wf:
  assumes "vc_step\<^sup>*\<^sup>* newVirtualConn c" and "vc_step\<^sup>*\<^sup>* c c'"
  shows "vc_lenBufRead c' \<le> length (vc_bufRead c') \<and> 16384 \<le> length (vc_bufRead c) \<and> length (vc_bufRead c) \<le> length (vc_bufRead c') \<and>
    (vc_closed c \<longrightarrow> vc_closed c')"
proof -
  have step: "vcOk b \<and> length (vc_bufRead a) \<le> length (vc_bufRead b) \<and> (vc_closed a \<longrightarrow> vc_closed b)" if "vcOk a" "vc_step\<^sup>*\<^sup>* a b" for a b
    using that(2)
  proof (induction rule: rtranclp_induct)
    case base
    with that(1) show ?case
      by simp
  next
    case (step x y)
    from step(2,3) show ?case
    proof (induction rule: vc_step.induct)
      case (read n offer u r v took)
      with vc_Read_spec(1,2) [OF _ read(1)] vc_Read_room [OF read(1)] show ?case
        by auto
    qed (auto simp: closeLocal_def vcOk_def)
  qed
  have "vcOk newVirtualConn" "length (vc_bufRead newVirtualConn) = 16384"
    by simp (simp add: newVirtualConn_def)
  with step [OF _ assms(1)] have "vcOk c" "16384 \<le> length (vc_bufRead c)"
    by simp_all
  with step [OF _ assms(2)] show ?thesis
    by (simp add: vcOk_def)
qed

theorem virtual_conn_wf_witness:
  "\<exists>c. vc_step\<^sup>*\<^sup>* newVirtualConn c \<and> vc_lenBufRead c = 1 \<and> 16384 \<le> length (vc_bufRead c)"
proof -
  have "vc_Read 2 (Some (Some [1, 2, 3])) newVirtualConn = Some (Ok [1, 2], vc_appendBuf [3] newVirtualConn, True)"
    by (simp add: vc_Read_def newVirtualConn_def)
  then have r: "vc_step\<^sup>*\<^sup>* newVirtualConn (vc_appendBuf [3] newVirtualConn)"
    by (blast intro: vc_step.read)
  moreover have "vc_lenBufRead (vc_appendBuf [3] newVirtualConn) = 1"
    by (simp add: vc_appendBuf_def newVirtualConn_def)
  ultimately show ?thesis
    using virtual_conn_wf [OF r rtranclp.rtrancl_refl] by blast
qed

end
