(* ===== verification/Go_Net.thy ===== *)
theory Go_Net
  imports Go_Text Utils
begin

text \<open>
  The parts of Go's package \<open>net\<close> that the proxy uses on addresses: \<open>IP.String\<close>, \<open>ParseIP\<close> and
  \<open>SplitHostPort\<close>. Shown here: an IPv4 address survives printing and parsing, an IPv6 address
  printed in front of a colon and a port can not be split again, and splitting inverts joining for
  hosts without colons and brackets.
\<close>

section \<open>Printing addresses\<close>

definition dotted :: "bytes \<Rightarrow> string" where
  "dotted ip =
     (case ip of
        [a, b, c, d] \<Rightarrow> showNat (unat a) @ ''.'' @ showNat (unat b) @ ''.'' @ showNat (unat c) @ ''.'' @ showNat (unat d)
      | _ \<Rightarrow> [])"

definition hexDigit :: "nat \<Rightarrow> char" where
  "hexDigit n = ''0123456789abcdef'' ! n"

fun showHex :: "nat \<Rightarrow> string" where
  "showHex n = (if n < 16 then [hexDigit n] else showHex (n div 16) @ [hexDigit (n mod 16)])"

declare showHex.simps [simp del]

text \<open>The eight groups of an IPv6 address, and its longest run of two or more zero groups (the first one of
  several).\<close>

fun ipGroups :: "bytes \<Rightarrow> nat list" where
  "ipGroups (a # b # r) = (256 * unat a + unat b) # ipGroups r"
| "ipGroups _ = []"

definition zeroRun :: "nat list \<Rightarrow> (nat \<times> nat) option" where
  "zeroRun gs =
     fold (\<lambda>i best.
         let l = length (takeWhile (\<lambda>g. g = 0) (drop i gs))
         in if 2 \<le> l \<and> (case best of None \<Rightarrow> True | Some (s, e) \<Rightarrow> e - s < l) then Some (i, i + l) else best)
       [0..<length gs] None"

fun joinGroups :: "nat list \<Rightarrow> string" where
  "joinGroups [] = []"
| "joinGroups [g] = showHex g"
| "joinGroups (g # gs) = showHex g @ '':'' @ joinGroups gs"

definition string6 :: "bytes \<Rightarrow> string" where
  "string6 ip =
     (case zeroRun (ipGroups ip) of
        None \<Rightarrow> joinGroups (ipGroups ip)
      | Some (s, e) \<Rightarrow> joinGroups (take s (ipGroups ip)) @ ''::'' @ joinGroups (drop e (ipGroups ip)))"

definition hexBytes :: "bytes \<Rightarrow> string" where
  "hexBytes b = concat (map (\<lambda>x. [hexDigit (unat x div 16), hexDigit (unat x mod 16)]) b)"

definition ipString :: "bytes option \<Rightarrow> string" where
  "ipString ip =
     (case ip of
        None \<Rightarrow> ''<nil>''
      | Some b \<Rightarrow>
          if b = [] then ''<nil>''
          else if length b \<noteq> 4 \<and> length b \<noteq> 16 then ''?'' @ hexBytes b
          else case To4 b of Some p4 \<Rightarrow> dotted p4 | None \<Rightarrow> string6 b)"

section \<open>Parsing addresses\<close>

fun splitOn :: "'a \<Rightarrow> 'a list \<Rightarrow> 'a list list" where
  "splitOn c [] = [[]]"
| "splitOn c (x # xs) =
     (if x = c then [] # splitOn c xs
      else case splitOn c xs of [] \<Rightarrow> [[x]] | y # ys \<Rightarrow> (x # y) # ys)"

text \<open>A decimal octet: digits, no leading zero, at most 255.\<close>

definition parseOctet :: "string \<Rightarrow> byte option" where
  "parseOctet f =
     (if f \<noteq> [] \<and> list_all isDigit f \<and> (hd f \<noteq> CHR ''0'' \<or> length f = 1)
      then (case parseDigits f of Some n \<Rightarrow> if n \<le> 255 then Some (of_nat n) else None | None \<Rightarrow> None)
      else None)"

definition parseIPv4 :: "string \<Rightarrow> bytes option" where
  "parseIPv4 s =
     (case map parseOctet (splitOn (CHR ''.'') s) of
        [Some a, Some b, Some c, Some d] \<Rightarrow> Some [a, b, c, d]
      | _ \<Rightarrow> None)"

definition isHex :: "char \<Rightarrow> bool" where
  "isHex c \<longleftrightarrow> c \<in> set ''0123456789abcdefABCDEF''"

definition hexVal :: "char \<Rightarrow> nat" where
  "hexVal c =
     (let n = of_char c
      in if 48 \<le> n \<and> n \<le> 57 then n - 48 else if 97 \<le> n \<and> n \<le> 102 then n - 87 else n - 55)"

text \<open>The loop over the groups: how many may still follow, the bytes so far, where the ellipsis was.\<close>

fun parseGroups :: "nat \<Rightarrow> bytes \<Rightarrow> nat option \<Rightarrow> string \<Rightarrow> (bytes \<times> nat option \<times> string) option" where
  "parseGroups 0 ip ellipsis s = Some (ip, ellipsis, s)"
| "parseGroups (Suc k) ip ellipsis s =
     (let h = takeWhile isHex s; r = dropWhile isHex s; acc = foldl (\<lambda>n c. 16 * n + hexVal c) 0 h;
          ip' = ip @ [of_nat (acc div 256), of_nat acc]
      in if h = [] \<or> 4 < length h then None
         else case r of
                [] \<Rightarrow> Some (ip', ellipsis, [])
              | c # r1 \<Rightarrow>
                  if c = CHR ''.'' then
                    (if (ellipsis = None \<and> length ip \<noteq> 12) \<or> 16 < length ip + 4 then None
                     else case parseIPv4 s of None \<Rightarrow> None | Some p4 \<Rightarrow> Some (ip @ p4, ellipsis, []))
                  else if c \<noteq> CHR '':'' then None
                  else (case r1 of
                          [] \<Rightarrow> None
                        | c2 # r2 \<Rightarrow>
                            if c2 = CHR '':'' then
                              (if ellipsis \<noteq> None then None
                               else if r2 = [] then Some (ip', Some (length ip'), [])
                               else parseGroups k ip' (Some (length ip')) r2)
                            else parseGroups k ip' ellipsis r1))"

definition parseIPv6 :: "string \<Rightarrow> bytes option" where
  "parseIPv6 s =
     (if CHR ''%'' \<in> set s then None
      else if s = ''::'' then Some (zeros 16)
      else case (if hasPrefix ''::'' s then parseGroups 8 [] (Some 0) (drop 2 s) else parseGroups 8 [] None s) of
             None \<Rightarrow> None
           | Some (ip, ellipsis, r) \<Rightarrow>
               if r \<noteq> [] then None
               else if length ip < 16 then
                 (case ellipsis of
                    None \<Rightarrow> None
                  | Some e \<Rightarrow> Some (take e ip @ zeros (16 - length ip) @ drop e ip))
               else if ellipsis \<noteq> None then None
               else Some ip)"

text \<open>The 16 byte form of the address, or \<open>nil\<close>. The first dot, colon or percent sign decides.\<close>

definition ParseIP :: "string \<Rightarrow> bytes option" where
  "ParseIP s =
     (case dropWhile (\<lambda>c. c \<notin> set ''.:%'') s of
        [] \<Rightarrow> None
      | c # r \<Rightarrow>
          if c = CHR ''.'' then (case parseIPv4 s of None \<Rightarrow> None | Some ip \<Rightarrow> Some (v4InV6Prefix @ ip))
          else if c = CHR '':'' then parseIPv6 s
          else None)"

section \<open>Host and port\<close>

definition net_SplitHostPort :: "string \<Rightarrow> (string \<times> string) res" where
  "net_SplitHostPort hostport =
     (case lastIndex (CHR '':'') hostport of
        None \<Rightarrow> Err (Errorf ''missing port in address'')
      | Some i \<Rightarrow>
          let port = drop (i + 1) hostport
          in if hd hostport = CHR ''['' then
               (case subIndex '']'' hostport of
                  None \<Rightarrow> Err (Errorf ''missing ']' in address'')
                | Some e \<Rightarrow>
                    if e + 1 \<noteq> i then
                      Err (Errorf (if e + 1 < length hostport \<and> hostport ! (e + 1) = CHR '':'' then ''too many colons in address''
                                   else ''missing port in address''))
                    else if CHR ''['' \<in> set (drop 1 hostport) then Err (Errorf ''unexpected '[' in address'')
                    else if CHR '']'' \<in> set (drop (e + 1) hostport) then Err (Errorf ''unexpected ']' in address'')
                    else Ok (take (e - 1) (drop 1 hostport), port))
             else if CHR '':'' \<in> set (take i hostport) then Err (Errorf ''too many colons in address'')
             else if CHR ''['' \<in> set hostport then Err (Errorf ''unexpected '[' in address'')
             else if CHR '']'' \<in> set hostport then Err (Errorf ''unexpected ']' in address'')
             else Ok (take i hostport, port))"

section \<open>Joining and splitting\<close>

lemma lastIndex_None: "c \<notin> set s \<Longrightarrow> lastIndex c s = None"
  by (induction s) auto

lemma lastIndex_last: "c \<notin> set p \<Longrightarrow> lastIndex c (h @ c # p) = Some (length h)"
  by (induction h) (auto simp: lastIndex_None)

definition plainHost :: "string \<Rightarrow> bool" where
  "plainHost h \<longleftrightarrow> CHR '':'' \<notin> set h \<and> CHR ''['' \<notin> set h \<and> CHR '']'' \<notin> set h"

lemma SplitHostPort_join:
  assumes "plainHost h" and "plainHost p"
  shows "net_SplitHostPort (h @ CHR '':'' # p) = Ok (h, p)"
proof -
  have "hd (h @ CHR '':'' # p) \<noteq> CHR ''[''"
    using assms by (cases h) (auto simp: plainHost_def)
  with assms show ?thesis
    by (simp add: net_SplitHostPort_def plainHost_def lastIndex_last Let_def)
qed

lemma SplitHostPort_colons:
  assumes "CHR '':'' \<in> set h" and "CHR ''['' \<notin> set h" and "CHR '':'' \<notin> set p"
  shows "net_SplitHostPort (h @ CHR '':'' # p) = Err (Errorf ''too many colons in address'')"
proof -
  have "hd (h @ CHR '':'' # p) \<noteq> CHR ''[''"
    using assms by (cases h) auto
  with assms show ?thesis
    by (simp add: net_SplitHostPort_def lastIndex_last Let_def)
qed

lemma digits_plain: "list_all isDigit s \<Longrightarrow> plainHost s"
  by (auto simp: plainHost_def list_all_iff isDigit_def)

lemma plainHost_showNat [simp]: "plainHost (showNat n)"
  by (rule digits_plain [OF showNat_digits])

lemma plainHost_dotted: "plainHost (dotted ip)"
  using plainHost_showNat by (auto simp: dotted_def plainHost_def split: list.split)

section \<open>IPv4 text\<close>

lemma splitOn_last [simp]: "c \<notin> set a \<Longrightarrow> splitOn c a = [a]"
  by (induction a) auto

lemma splitOn_field [simp]: "c \<notin> set a \<Longrightarrow> splitOn c (a @ c # r) = a # splitOn c r"
  by (induction a) auto

lemma showNat_lead: "0 < n \<Longrightarrow> hd (showNat n) \<noteq> CHR ''0''"
proof (induction n rule: showNat.induct)
  case (1 n)
  show ?case
  proof (cases "n < 10")
    case True
    then have "code (hd (showNat n)) = 48 + n"
      by (subst showNat.simps) simp
    with 1(2) show ?thesis
      by auto
  next
    case False
    then have "showNat n = showNat (n div 10) @ [digitChar (n mod 10)]"
      by (subst showNat.simps) simp
    with 1(1) [OF False] False show ?thesis
      by simp
  qed
qed

lemma parseOctet_show [simp]: "parseOctet (showNat (unat (b :: byte))) = Some b"
proof -
  have "unat b \<le> 255"
    using unat_byte_less [of b] by linarith
  moreover have "length (showNat (0 :: nat)) = 1"
    by (subst showNat.simps) simp
  then have "hd (showNat (unat b)) \<noteq> CHR ''0'' \<or> length (showNat (unat b)) = 1"
    using showNat_lead [of "unat b"] by (cases "unat b = 0") auto
  ultimately show ?thesis
    using showNat_digits [of "unat b"] by (simp add: parseOctet_def)
qed

lemma dot_showNat [simp]: "CHR ''.'' \<notin> set (showNat n)"
  using showNat_digits [of n] by (auto simp: list_all_iff isDigit_def)

lemma parseIPv4_dotted: "length ip = 4 \<Longrightarrow> parseIPv4 (dotted ip) = Some ip"
proof -
  assume "length ip = 4"
  then obtain a b c d where "ip = [a, b, c, d]"
    by (auto simp: numeral_eq_Suc length_Suc_conv)
  then show ?thesis
    by (simp add: dotted_def parseIPv4_def)
qed

lemma ParseIP_dotted:
  assumes "length ip = 4"
  shows "ParseIP (dotted ip) = Some (v4InV6Prefix @ ip)"
proof -
  obtain a b c d where ip: "ip = [a, b, c, d]"
    using assms by (auto simp: numeral_eq_Suc length_Suc_conv)
  have "\<forall>x\<in>set (showNat (unat a)). x \<notin> set ''.:%''"
    using showNat_digits [of "unat a"] by (auto simp: list_all_iff isDigit_def)
  then have "dropWhile (\<lambda>c. c \<notin> set ''.:%'') (showNat (unat a) @ CHR ''.'' # r) = CHR ''.'' # r" for r
    by (subst dropWhile_append2) auto
  then have "dropWhile (\<lambda>c. c \<notin> set ''.:%'') (dotted ip) = CHR ''.'' # drop (length (showNat (unat a)) + 1) (dotted ip)"
    by (simp add: ip dotted_def)
  with parseIPv4_dotted [OF assms] show ?thesis
    by (simp add: ParseIP_def)
qed

lemma ipString_v4: "length ip = 4 \<Longrightarrow> ipString (Some ip) = dotted ip"
  by (auto simp: ipString_def To4_def)

lemma ipString_mapped: "length ip = 4 \<Longrightarrow> ipString (Some (v4InV6Prefix @ ip)) = dotted ip"
  by (auto simp: ipString_def To4_def v4InV6Prefix_def)

section \<open>IPv6 text\<close>

lemma colon_joinGroups: "2 \<le> length gs \<Longrightarrow> CHR '':'' \<in> set (joinGroups gs)"
  by (induction gs rule: joinGroups.induct) auto

lemma ipGroups_length: "length (ipGroups ip) = length ip div 2"
  by (induction ip rule: ipGroups.induct) auto

lemma colon_string6: "length ip = 16 \<Longrightarrow> CHR '':'' \<in> set (string6 ip)"
  using colon_joinGroups [of "ipGroups ip"] by (auto simp: string6_def ipGroups_length split: option.split)

lemma hexDigit_plain: "n < 16 \<Longrightarrow> hexDigit n \<noteq> CHR ''[''"
proof -
  assume "n < 16"
  then have "hexDigit n \<in> set ''0123456789abcdef''"
    unfolding hexDigit_def by (intro nth_mem) simp
  then show ?thesis
    by auto
qed

lemma bracket_showHex: "CHR ''['' \<notin> set (showHex n)"
proof (induction n rule: showHex.induct)
  case (1 n)
  show ?case
  proof (cases "n < 16")
    case True
    then show ?thesis
      using hexDigit_plain [of n] by (subst showHex.simps) simp
  next
    case False
    then have "showHex n = showHex (n div 16) @ [hexDigit (n mod 16)]"
      by (subst showHex.simps) simp
    with 1 [OF False] hexDigit_plain [of "n mod 16"] show ?thesis
      by simp
  qed
qed

lemma bracket_joinGroups: "CHR ''['' \<notin> set (joinGroups gs)"
  by (induction gs rule: joinGroups.induct) (auto simp: bracket_showHex)

lemma bracket_string6: "CHR ''['' \<notin> set (string6 ip)"
  using bracket_joinGroups by (auto simp: string6_def split: option.split)

text \<open>An IPv6 address, a colon and a port are not an address that \<open>SplitHostPort\<close>, and so \<open>net.Dial\<close>, accepts.\<close>

lemma SplitHostPort_v6:
  assumes "length ip = 16" and "To4 ip = None" and "CHR '':'' \<notin> set p"
  shows "net_SplitHostPort (ipString (Some ip) @ CHR '':'' # p) = Err (Errorf ''too many colons in address'')"
proof -
  have "ipString (Some ip) = string6 ip"
    using assms(1,2) by (auto simp: ipString_def)
  then show ?thesis
    using SplitHostPort_colons [OF colon_string6 [OF assms(1)] bracket_string6 assms(3)] by simp
qed

section \<open>Parsed addresses have 16 bytes\<close>

lemma parseIPv4_length: "parseIPv4 s = Some ip \<Longrightarrow> length ip = 4"
  by (auto simp: parseIPv4_def split: list.splits option.splits)

lemma parseGroups_length:
  "parseGroups k ip ellipsis s = Some (ip', ellipsis', r) \<Longrightarrow> length ip + 2 * k \<le> 16 \<Longrightarrow> length ip' \<le> 16"
proof (induction k arbitrary: ip ellipsis s)
  case 0
  then show ?case by simp
next
  case (Suc k)
  have "length ip' \<le> 16" if "parseGroups k (ip @ [a, b]) e t = Some (ip', ellipsis', r)" for a b e t
    by (rule Suc.IH [OF that]) (use Suc.prems(2) in simp)
  moreover have "length ip' \<le> 16" if "parseIPv4 s = Some p4" "ip' = ip @ p4" "\<not> 16 < length ip + 4" for p4
    using that parseIPv4_length by fastforce
  ultimately show ?case
    using Suc.prems by (auto simp: Let_def split: if_splits list.splits option.splits)
qed

lemma parseIPv6_length:
  assumes "parseIPv6 s = Some ip"
  shows "length ip = 16"
proof (cases "s = ''::''")
  case True
  with assms show ?thesis by (auto simp: parseIPv6_def)
next
  case False
  define start where "start = (if hasPrefix ''::'' s then parseGroups 8 [] (Some 0) (drop 2 s) else parseGroups 8 [] None s)"
  obtain ip' e where p: "start = Some (ip', e, [])"
    "length ip' < 16 \<Longrightarrow> \<exists>n. ip = take n ip' @ zeros (16 - length ip') @ drop n ip'" "\<not> length ip' < 16 \<Longrightarrow> ip = ip'"
    using assms False by (auto simp: parseIPv6_def start_def [symmetric] split: if_splits option.splits prod.splits)
  have "length ip' \<le> 16"
    using p(1) parseGroups_length [of 8 "[]"] by (auto simp: start_def split: if_splits)
  moreover have "length (take n ip' @ zeros (16 - length ip') @ drop n ip') = 16" if "length ip' < 16" for n
    using that by (cases "n \<le> length ip'") simp_all
  ultimately show ?thesis
    using p(2,3) by (cases "length ip' < 16") auto
qed

lemma ParseIP_length: "ParseIP s = Some ip \<Longrightarrow> length ip = 16"
  by (auto simp: ParseIP_def v4InV6Prefix_def parseIPv4_length parseIPv6_length split: list.splits if_splits option.splits)

end
