(* ===== verification/Tunnel.thy ===== *)
theory Tunnel
  imports S1_Codec Ts_Cache Go_Net Conf Duplex "HOL-Library.Sublist"
begin

text \<open>
  The server's end of the tunnel (\<open>socks/tunnel/server_handler.go\<close>): a session reads messages from its
  transport, answers DNS requests, and on the first dial request connects to the target and relays
  data. Resolving and dialling are arguments (\<open>net.LookupIP\<close>, \<open>net.Dial\<close>); the cache of names is the
  one of \<open>lru\<close>. The relay is a step relation over its three goroutines. Shown here: DNS requests are
  answered in order with the acknowledgement of their id; only addresses that pass the test of
  \<open>utils.IsLegitProxiableIP\<close> are dialled; the relay keeps both directions in order and delivers all
  that the target sent; and an IPv6 target is never dialled with a valid address.
\<close>

section \<open>Names and targets\<close>

text \<open>\<open>err.Error()\<close>\<close>

fun errString :: "goerr \<Rightarrow> string" where
  "errString EOF = ''EOF''"
| "errString UnexpectedEOF = ''unexpected EOF''"
| "errString ErrShortBuffer = ''short buffer''"
| "errString (OpError m) = m"
| "errString (Errorf m) = m"

type_synonym dnsCache = "bytes list TSCache"

definition lookupIP :: "(string \<Rightarrow> bytes list res) \<Rightarrow> int \<Rightarrow> string \<Rightarrow> dnsCache \<Rightarrow> bytes list res \<times> dnsCache" where
  "lookupIP net_LookupIP now host cache =
     (case TS_Get host now cache of
        (Some ipAddr, cache') \<Rightarrow> (Ok ipAddr, cache')
      | (None, cache') \<Rightarrow>
          (case net_LookupIP host of
             Ok ipAddr \<Rightarrow> (Ok ipAddr, TS_Put host ipAddr now cache')
           | Err e \<Rightarrow> (Err e, cache')
           | Panic \<Rightarrow> (Panic, cache')))"

text \<open>The first part of \<open>handleDialConn\<close>: the address that is dialled for \<open>m1.Address\<close>.\<close>

definition targetAddr :: "(string \<Rightarrow> bytes list res) \<Rightarrow> int \<Rightarrow> string \<Rightarrow> dnsCache \<Rightarrow> string res \<times> dnsCache" where
  "targetAddr net_LookupIP now address cache =
     (case net_SplitHostPort address of
        Panic \<Rightarrow> (Panic, cache)
      | Err e \<Rightarrow> (Err e, cache)
      | Ok (host, portStr) \<Rightarrow>
          (case ParseIP host of
             Some ip \<Rightarrow>
               (if \<not> IsLegitProxiableIP (Some ip) then (Err (Errorf ''invalid target ip''), cache)
                else (Ok (ipString (Some ip) @ '':'' @ portStr), cache))
           | None \<Rightarrow>
               (case lookupIP net_LookupIP now host cache of
                  (Panic, cache') \<Rightarrow> (Panic, cache')
                | (Err e, cache') \<Rightarrow> (Err (Errorf ''unable to resolve''), cache')
                | (Ok ipAddrs, cache') \<Rightarrow>
                    if length ipAddrs \<le> 0 then (Err (Errorf ''unable to resolve''), cache')
                    else
                      (let ip = find (\<lambda>v. length v = 4) ipAddrs
                       in if \<not> IsLegitProxiableIP ip then (Err (Errorf ''not a legit ip''), cache')
                          else (Ok (ipString ip @ '':'' @ portStr), cache')))))"

section \<open>Sessions\<close>

definition stateMessage :: "string \<Rightarrow> string \<Rightarrow> string \<Rightarrow> message" where
  "stateMessage connId st err =
     ConnectionState \<lparr>state_Id = 0, state_Ack = 0, state_ConnectionId = connId, state_State = st, state_Error = err, state_ErrorType = []\<rparr>"

text \<open>\<open>handleDialConn\<close> up to the relay: the connection to the target. \<open>rnd\<close> is the random tape of the writer.\<close>

definition openDial :: "(string \<Rightarrow> bytes list res) \<Rightarrow> (string \<Rightarrow> string \<Rightarrow> 'c res) \<Rightarrow> 's writer \<Rightarrow> tape \<Rightarrow> int \<Rightarrow>
    MessageRequestDial \<Rightarrow> dnsCache \<Rightarrow> ('c, 's) io" where
  "openDial net_LookupIP net_Dial wr rnd now m1 cache =
     bind (lift (fst (targetAddr net_LookupIP now (dial_Address m1) cache))) (\<lambda>addrTarget.
     case net_Dial (dial_Network m1) addrTarget of
       Panic \<Rightarrow> panic
     | Err e \<Rightarrow>
         bind (Write wr rnd (stateMessage (dial_ConnectionId m1) ''error'' (''net.Dial: '' @ errString e))) (\<lambda>_. throw e)
     | Ok conn \<Rightarrow>
         bind (Write wr rnd (stateMessage (dial_ConnectionId m1) ''open'' [])) (\<lambda>_. ret conn))"

definition dnsReply :: "(string \<Rightarrow> bytes list res) \<Rightarrow> MessageRequestDNS \<Rightarrow> MessageResultDNS" where
  "dnsReply net_LookupIP m1 =
     (let reply = \<lparr>dnsRes_Id = 0, dnsRes_Ack = MessageId (RequestDNS m1), dnsRes_Addresses = [], dnsRes_Error = []\<rparr>
      in case net_LookupIP (dnsReq_DomainName m1) of
           Ok ips \<Rightarrow> reply\<lparr>dnsRes_Addresses := ips\<rparr>
         | Err e \<Rightarrow> reply\<lparr>dnsRes_Error := errString e\<rparr>
         | Panic \<Rightarrow> reply)"

definition handleDNS :: "(string \<Rightarrow> bytes list res) \<Rightarrow> 's writer \<Rightarrow> tape \<Rightarrow> MessageRequestDNS \<Rightarrow> (unit, 's) io" where
  "handleDNS net_LookupIP wr rnd m1 =
     (if net_LookupIP (dnsReq_DomainName m1) = Panic then panic
      else bind (Write wr rnd (ResultDNS (dnsReply net_LookupIP m1))) (\<lambda>_. ret ()))"

text \<open>What \<open>handle\<close> does with a message: go on, end the session, or dial; a failed operation ends the session.\<close>

datatype 'c session = GoOn | Over | Dialled 'c

definition handleMessage :: "(string \<Rightarrow> bytes list res) \<Rightarrow> (string \<Rightarrow> string \<Rightarrow> 'c res) \<Rightarrow> 's writer \<Rightarrow> tape \<Rightarrow> int \<Rightarrow> dnsCache \<Rightarrow>
    message \<Rightarrow> ('c session, 's) io" where
  "handleMessage net_LookupIP net_Dial wr rnd now cache m s =
     (case m of
        RequestDNS m1 \<Rightarrow>
          (case handleDNS net_LookupIP wr rnd m1 s of
             None \<Rightarrow> None
           | Some (Panic, s') \<Rightarrow> Some (Panic, s')
           | Some (Err e, s') \<Rightarrow> Some (Ok Over, s')
           | Some (Ok u, s') \<Rightarrow> Some (Ok GoOn, s'))
      | RequestDial m1 \<Rightarrow>
          (case openDial net_LookupIP net_Dial wr rnd now m1 cache s of
             None \<Rightarrow> None
           | Some (Panic, s') \<Rightarrow> Some (Panic, s')
           | Some (Err e, s') \<Rightarrow> Some (Ok Over, s')
           | Some (Ok conn, s') \<Rightarrow> Some (Ok (Dialled conn), s'))
      | _ \<Rightarrow> Some (Ok GoOn, s))"

text \<open>\<open>handle\<close> returns \<open>None\<close> when the session is over, or the connection of the first dial request, on which the
  relay runs; \<open>now\<close> is the time of that request.\<close>

partial_function (option) handle :: "(string \<Rightarrow> bytes list res) \<Rightarrow> (string \<Rightarrow> string \<Rightarrow> 'c res) \<Rightarrow> 's reader \<Rightarrow> 's writer \<Rightarrow>
    tape \<Rightarrow> int \<Rightarrow> dnsCache \<Rightarrow> 's \<Rightarrow> ('c option res \<times> 's) option" where
  "handle net_LookupIP net_Dial rf wr rnd now cache s =
     (case bind (Read rf) (handleMessage net_LookupIP net_Dial wr rnd now cache) s of
        None \<Rightarrow> None
      | Some (Panic, s') \<Rightarrow> Some (Panic, s')
      | Some (Err e, s') \<Rightarrow> Some (Ok None, s')
      | Some (Ok r, s') \<Rightarrow>
          (case r of
             GoOn \<Rightarrow> handle net_LookupIP net_Dial rf wr rnd now cache s'
           | Over \<Rightarrow> Some (Ok None, s')
           | Dialled conn \<Rightarrow> Some (Ok (Some conn), s')))"

declare handle.simps [code]

section \<open>The relay\<close>

text \<open>The messages the client will still send and the bytes the target will still send; what the two reading
  goroutines hold while they wait to send it into their unbuffered channel; the buffer size of the
  one that reads the target; what was written to the target and to the client; the errors in the
  channel (it has room for one of each goroutine); whether the loop runs.\<close>

record dialRelay =
  dr_client :: "message list"
  dr_msg :: "message option"
  dr_rdOn :: bool
  dr_target :: bytes
  dr_chunk :: "bytes option"
  dr_tgOn :: bool
  dr_bufSize :: nat
  dr_countFull :: nat
  dr_connOut :: bytes
  dr_txOut :: "message list"
  dr_chErr :: "goerr list"
  dr_main :: bool

definition dialStart :: "message list \<Rightarrow> bytes \<Rightarrow> dialRelay" where
  "dialStart cs tg =
     \<lparr>dr_client = cs, dr_msg = None, dr_rdOn = True, dr_target = tg, dr_chunk = None, dr_tgOn = True,
      dr_bufSize = DEFAULT_BUFFER_SIZE, dr_countFull = 0, dr_connOut = [], dr_txOut = [], dr_chErr = [], dr_main = True\<rparr>"

text \<open>The size of the buffer after a chunk was handed over.\<close>

definition enlarge :: "nat \<Rightarrow> dialRelay \<Rightarrow> dialRelay" where
  "enlarge sz s =
     (if sz = dr_bufSize s then
        (let n = dr_countFull s + 1
         in if 10 \<le> n \<and> dr_bufSize s < MAX_BUFFER_SIZE then s\<lparr>dr_countFull := n, dr_bufSize := dr_bufSize s * 2\<rparr>
            else s\<lparr>dr_countFull := n\<rparr>)
      else s\<lparr>dr_countFull := 0\<rparr>)"

definition dataMessage :: "string \<Rightarrow> bytes \<Rightarrow> message" where
  "dataMessage connId d = Data \<lparr>data_Id = 0, data_Ack = 0, data_ConnectionId = connId, data_Data = d\<rparr>"

fun relayed :: "message \<Rightarrow> bool" where
  "relayed (Data m) = True"
| "relayed (ConnectionState m) = True"
| "relayed _ = False"

inductive dial_step :: "string \<Rightarrow> dialRelay \<Rightarrow> dialRelay \<Rightarrow> bool" for connId where
  target_read: "dr_tgOn s \<Longrightarrow> dr_chunk s = None \<Longrightarrow> dr_target s = d @ rest \<Longrightarrow> length d \<le> dr_bufSize s \<Longrightarrow>
    dial_step connId s (s\<lparr>dr_chunk := Some d, dr_target := rest\<rparr>)"
| target_err: "dr_tgOn s \<Longrightarrow> dr_chunk s = None \<Longrightarrow> dial_step connId s (s\<lparr>dr_tgOn := False, dr_chErr := dr_chErr s @ [e]\<rparr>)"
| client_read: "dr_rdOn s \<Longrightarrow> dr_msg s = None \<Longrightarrow> dr_client s = m # ms \<Longrightarrow>
    dial_step connId s (s\<lparr>dr_client := ms, dr_msg := if relayed m then Some m else None\<rparr>)"
| client_err: "dr_rdOn s \<Longrightarrow> dr_msg s = None \<Longrightarrow> dial_step connId s (s\<lparr>dr_rdOn := False, dr_chErr := dr_chErr s @ [e]\<rparr>)"
| take_state: "dr_main s \<Longrightarrow> dr_msg s = Some (ConnectionState m) \<Longrightarrow>
    dial_step connId s (s\<lparr>dr_msg := None, dr_main := (state_State m \<noteq> ''close'')\<rparr>)"
| take_data: "dr_main s \<Longrightarrow> dr_msg s = Some (Data m) \<Longrightarrow>
    dial_step connId s (s\<lparr>dr_msg := None, dr_connOut := dr_connOut s @ data_Data m\<rparr>)"
| target_write_error: "dr_main s \<Longrightarrow> dr_msg s = Some (Data m) \<Longrightarrow> dial_step connId s (s\<lparr>dr_msg := None, dr_main := False\<rparr>)"
| take_down: "dr_main s \<Longrightarrow> dr_chunk s = Some d \<Longrightarrow>
    dial_step connId s (enlarge (length d) (s\<lparr>dr_chunk := None, dr_txOut := dr_txOut s @ [dataMessage connId d]\<rparr>))"
| client_write_error: "dr_main s \<Longrightarrow> dr_chunk s = Some d \<Longrightarrow>
    dial_step connId s (enlarge (length d) (s\<lparr>dr_chunk := None, dr_main := False\<rparr>))"
| take_err: "dr_main s \<Longrightarrow> dr_chErr s = e # es \<Longrightarrow> dial_step connId s (s\<lparr>dr_chErr := es, dr_main := False\<rparr>)"
| context_done: "dr_main s \<Longrightarrow> dial_step connId s (s\<lparr>dr_main := False\<rparr>)"

inductive_cases dial_stepE: "dial_step connId s s'"

section \<open>Answers\<close>

definition answerOf :: "bytes list res \<Rightarrow> MessageRequestDNS \<Rightarrow> message" where
  "answerOf result q =
     ResultDNS \<lparr>dnsRes_Id = 0, dnsRes_Ack = dnsReq_Id q, dnsRes_Addresses = (case result of Ok ips \<Rightarrow> ips | _ \<Rightarrow> []),
       dnsRes_Error = (case result of Err e \<Rightarrow> errString e | _ \<Rightarrow> [])\<rparr>"

definition answers :: "(string \<Rightarrow> bytes list res) \<Rightarrow> message list \<Rightarrow> message list" where
  "answers net_LookupIP ms =
     concat (map (\<lambda>m. case m of RequestDNS q \<Rightarrow> [answerOf (net_LookupIP (dnsReq_DomainName q)) q] | _ \<Rightarrow> []) ms)"

lemma dnsReply_answer: "ResultDNS (dnsReply ns q) = answerOf (ns (dnsReq_DomainName q)) q"
  by (simp add: dnsReply_def answerOf_def split: res.split)

fun isDial :: "message \<Rightarrow> bool" where
  "isDial (RequestDial m) = True"
| "isDial _ = False"

lemma handleMessage_plain:
  assumes "\<not> isDial m" and "\<And>host. ns host \<noteq> Panic"
  shows "handleMessage ns nd duplexWrite rnd now cache m (segs, out) =
    Some (Ok GoOn, (segs, out @ concat (map (frame rnd) (answers ns [m]))))"
  using assms by (cases m) (simp_all add: handleMessage_def handleDNS_def answers_def dnsReply_answer Write_frame duplexWrite_def bind_def io_simps)

lemma handle_prefix:
  assumes "list_all (\<lambda>(r, m). encodable r m \<and> \<not> isDial m) ms" and "\<And>host. ns host \<noteq> Panic" and "concat segs = frames ms @ rest"
  obtains segs' where "concat segs' = rest"
    and "handle ns nd (readFull duplexRead) duplexWrite rnd now cache (segs, out) =
      handle ns nd (readFull duplexRead) duplexWrite rnd now cache (segs', out @ concat (map (frame rnd) (answers ns (map snd ms))))"
proof -
  have "\<exists>segs'. concat segs' = rest \<and> handle ns nd (readFull duplexRead) duplexWrite rnd now cache (segs, out) =
      handle ns nd (readFull duplexRead) duplexWrite rnd now cache (segs', out @ concat (map (frame rnd) (answers ns (map snd ms))))"
    using assms(1,3)
  proof (induction ms arbitrary: segs out)
    case Nil
    then show ?case
      by (auto simp: answers_def)
  next
    case (Cons x ms)
    obtain r m where x: "x = (r, m)"
      by fastforce
    obtain s1 where s1: "Read (readFull duplexRead) (segs, out) = Some (Ok m, s1)" "snd s1 = out" "concat (fst s1) = frames ms @ rest"
      using full_reader.Read_frame [where s = "(segs, out)" and rnd = r and m = m and rest = "frames ms @ rest", OF dup.full.full_reader_axioms [of out]]
        Cons.prems x by auto
    have "\<not> isDial m"
      using Cons.prems x by simp
    from handleMessage_plain [where ns = ns and nd = nd and rnd = rnd and now = now and cache = cache and segs = "fst s1" and out = out, OF this assms(2)] s1
    have step: "bind (Read (readFull duplexRead)) (handleMessage ns nd duplexWrite rnd now cache) (segs, out) =
        Some (Ok GoOn, (fst s1, out @ concat (map (frame rnd) (answers ns [m]))))"
      by (cases s1) (simp add: bind_def)
    have "answers ns (map snd (x # ms)) = answers ns [m] @ answers ns (map snd ms)"
      by (simp add: answers_def x)
    with Cons.IH [of "fst s1" "out @ concat (map (frame rnd) (answers ns [m]))"] Cons.prems s1(3) step show ?case
      by (subst handle.simps) simp
  qed
  then show thesis
    using that by blast
qed

lemma handle_messages:
  assumes "list_all (\<lambda>(r, m). encodable r m \<and> \<not> isDial m) ms" and "\<And>host. ns host \<noteq> Panic" and "concat segs = frames ms"
  shows "\<exists>segs'. handle ns nd (readFull duplexRead) duplexWrite rnd now cache (segs, out) =
    Some (Ok None, (segs', out @ concat (map (frame rnd) (answers ns (map snd ms)))))"
proof -
  let ?out = "out @ concat (map (frame rnd) (answers ns (map snd ms)))"
  have "concat segs = frames ms @ []"
    using assms(3) by simp
  from handle_prefix [where ns = ns and out = out and nd = nd and rnd = rnd and now = now and cache = cache, OF assms(1,2) this]
  obtain segs1 where s1: "concat segs1 = []" "handle ns nd (readFull duplexRead) duplexWrite rnd now cache (segs, out) =
      handle ns nd (readFull duplexRead) duplexWrite rnd now cache (segs1, ?out)"
    by blast
  obtain s' where "readFull duplexRead 20 (segs1, ?out) = Some (Err EOF, s')" "snd s' = ?out"
    using dup.full.rf_spec [where n = 20 and s = "(segs1, ?out)" and out = ?out] s1(1) by (auto simp: fullSpec_def)
  then have "Read (readFull duplexRead) (segs1, ?out) = Some (Err EOF, (fst s', ?out))"
    by (cases s') (simp add: Read_def bind_def)
  then have "handle ns nd (readFull duplexRead) duplexWrite rnd now cache (segs1, ?out) = Some (Ok None, (fst s', ?out))"
    by (subst handle.simps) (simp add: bind_def)
  with s1(2) show ?thesis
    by auto
qed

text \<open>C22. DNS over the tunnel: a session that is sent any messages other than dial requests answers every DNS
  request, in order, with one result that acknowledges the id of the request and carries the
  addresses or the error of the resolver, and ignores the other messages; whatever the segmentation
  of the two directions, the reader at the other end decodes exactly these results.\<close>

theorem tunnel_dns:
  assumes "list_all (\<lambda>(r, m). encodable r m \<and> \<not> isDial m) ms" and "\<And>host. ns host \<noteq> Panic" and "concat segs = frames ms"
    and "list_all (encodable rnd) (answers ns (map snd ms))"
  shows "\<exists>segs' resp. handle ns nd (readFull duplexRead) duplexWrite rnd now cache (segs, []) = Some (Ok None, (segs', resp)) \<and>
    (\<forall>segs''. concat segs'' = resp \<longrightarrow>
      (\<exists>s. readAll (readFull connRead) (length (answers ns (map snd ms))) segs'' = Some (Ok (answers ns (map snd ms)), s)))"
proof -
  let ?as = "answers ns (map snd ms)"
  obtain segs' where h: "handle ns nd (readFull duplexRead) duplexWrite rnd now cache (segs, []) =
      Some (Ok None, (segs', concat (map (frame rnd) ?as)))"
    using handle_messages [where ns = ns and nd = nd and out = "[]" and rnd = rnd and now = now and cache = cache, OF assms(1-3)] by auto
  have f: "concat (map (frame rnd) ?as) = frames (map (Pair rnd) ?as) @ []" "list_all (\<lambda>(r, m). encodable r m) (map (Pair rnd) ?as)"
    using assms(4) by (simp_all add: comp_def list_all_iff)
  have "\<exists>s. readAll (readFull connRead) (length ?as) segs'' = Some (Ok ?as, s)" if "concat segs'' = concat (map (frame rnd) ?as)" for segs''
    using conn.full.readAll_frames [OF TrueI that [unfolded f(1)] f(2)] by (auto simp: comp_def)
  with h show ?thesis
    by blast
qed

theorem tunnel_dns_witness:
  "\<exists>segs segs' resp. handle (\<lambda>host. Ok [[1, 2, 3, 4]]) (\<lambda>n a. Ok ()) (readFull duplexRead) duplexWrite (\<lambda>_. 0) 0 (NewTSCache 300) (segs, []) =
      Some (Ok None, (segs', resp)) \<and>
    (\<exists>s. readAll (readFull connRead) 1 [resp] =
      Some (Ok [ResultDNS \<lparr>dnsRes_Id = 0, dnsRes_Ack = 1, dnsRes_Addresses = [[1, 2, 3, 4]], dnsRes_Error = []\<rparr>], s))"
proof -
  let ?r = "ResultDNS \<lparr>dnsRes_Id = 0, dnsRes_Ack = 1, dnsRes_Addresses = [[1, 2, 3, 4]], dnsRes_Error = []\<rparr>"
  have a: "answers (\<lambda>host. Ok [[1, 2, 3, 4]]) (map snd sampleMessages) = [?r]"
    by (simp add: answers_def answerOf_def sampleMessages_def)
  have m: "list_all (\<lambda>(r, m). encodable r m \<and> \<not> isDial m) sampleMessages"
    using sample_encodable by (simp add: sampleMessages_def)
  have r: "list_all (encodable (\<lambda>_. 0)) (answers (\<lambda>host. Ok [[1, 2, 3, 4]]) (map snd sampleMessages))"
    by (simp add: a encodable_def)
  have "\<And>host :: string. Ok [[1, 2, 3, 4 :: byte]] \<noteq> Panic" "concat [frames sampleMessages] = frames sampleMessages"
    by simp_all
  from tunnel_dns [where nd = "\<lambda>n a. Ok ()" and now = 0 and cache = "NewTSCache 300", OF m this r]
  obtain segs' resp where h: "handle (\<lambda>host. Ok [[1, 2, 3, 4]]) (\<lambda>n a. Ok ()) (readFull duplexRead) duplexWrite (\<lambda>_. 0) 0 (NewTSCache 300)
      ([frames sampleMessages], []) = Some (Ok None, (segs', resp))"
    "\<forall>segs''. concat segs'' = resp \<longrightarrow> (\<exists>s. readAll (readFull connRead) (length [?r]) segs'' = Some (Ok [?r], s))"
    unfolding a by blast
  have "\<exists>s. readAll (readFull connRead) 1 [resp] = Some (Ok [?r], s)"
    using h(2) [rule_format, of "[resp]"] by simp
  with h(1) show ?thesis
    by blast
qed

section \<open>Targets\<close>

lemma targetAddr_legit:
  assumes "fst (targetAddr ns now address cache) = Ok addr"
  obtains ip port where "IsLegitProxiableIP (Some ip)" and "addr = ipString (Some ip) @ '':'' @ port"
proof -
  have "\<exists>ip port. IsLegitProxiableIP (Some ip) \<and> addr = ipString (Some ip) @ '':'' @ port"
    using assms
    by (auto simp: targetAddr_def Let_def IsLegitProxiableIP_def split: res.splits option.splits if_splits prod.splits)
  then show thesis
    using that by blast
qed

text \<open>C14. The server connects to public addresses only: what a dial request leads to does not depend on what
  \<open>net.Dial\<close> would do at any address other than the text of an IP address that passes
  \<open>utils.IsLegitProxiableIP\<close> followed by a port, whatever the request, the names' addresses and the
  state of the cache.\<close>

theorem tunnel_dials_public_only:
  assumes "\<And>network ip port. IsLegitProxiableIP (Some ip) \<Longrightarrow>
    nd network (ipString (Some ip) @ '':'' @ port) = nd' network (ipString (Some ip) @ '':'' @ port)"
  shows "openDial ns nd wr rnd now m1 cache s = openDial ns nd' wr rnd now m1 cache s"
proof (cases "fst (targetAddr ns now (dial_Address m1) cache)")
  case (Ok addr)
  then obtain ip port where "IsLegitProxiableIP (Some ip)" "addr = ipString (Some ip) @ '':'' @ port"
    by (rule targetAddr_legit)
  with assms [of ip "dial_Network m1" port] Ok show ?thesis
    by (simp add: openDial_def)
qed (simp_all add: openDial_def bind_def lift_def)

theorem tunnel_dials_public_only_witness:
  "openDial (\<lambda>host. Ok [[127, 0, 0, 1]]) (\<lambda>network addr. if CHR '':'' \<in> set addr then Err EOF else Ok ()) bufferWrite (\<lambda>_. 0) 0
      \<lparr>dial_Id = 0, dial_Network = ''tcp'', dial_Address = ''localhost:22'', dial_ConnectionId = ''c''\<rparr> (NewTSCache 300) [] =
    openDial (\<lambda>host. Ok [[127, 0, 0, 1]]) (\<lambda>network addr. Err EOF) bufferWrite (\<lambda>_. 0) 0
      \<lparr>dial_Id = 0, dial_Network = ''tcp'', dial_Address = ''localhost:22'', dial_ConnectionId = ''c''\<rparr> (NewTSCache 300) []"
  by (rule tunnel_dials_public_only) simp

text \<open>A dial request for a public IPv4 address and port, as the socks5 server writes it, is dialled at exactly that
  address.\<close>

lemma legit_v4_in_v6:
  assumes "length ip = 4"
  shows "IsLegitProxiableIP (Some (v4InV6Prefix @ ip)) = IsLegitProxiableIP (Some ip)"
proof -
  obtain a b c d where "ip = [a, b, c, d]"
    using assms by (auto simp: numeral_eq_Suc length_Suc_conv)
  then show ?thesis
    by (simp add: legit_mapped)
qed

lemma targetAddr_v4:
  assumes "length ip = 4"
  shows "targetAddr ns now (dotted ip @ '':'' @ showNat p) cache =
    (if IsLegitProxiableIP (Some ip) then Ok (dotted ip @ '':'' @ showNat p) else Err (Errorf ''invalid target ip''), cache)"
  using SplitHostPort_join [OF plainHost_dotted [of ip] plainHost_showNat [of p]] assms
  by (simp add: targetAddr_def ParseIP_dotted legit_v4_in_v6 ipString_mapped)

text \<open>An IPv6 target never gets an address that \<open>net.Dial\<close> can use: the text of the address is put in front of the
  port without brackets.\<close>

theorem tunnel_v6_target:
  assumes "net_SplitHostPort address = Ok (host, port)" and "CHR '':'' \<notin> set port"
    and "ParseIP host = Some ip" and "To4 ip = None" and "fst (targetAddr ns now address cache) = Ok addr"
  shows "net_SplitHostPort addr = Err (Errorf ''too many colons in address'')"
proof -
  have "addr = ipString (Some ip) @ '':'' @ port"
    using assms(1,3,5) by (auto simp: targetAddr_def split: if_splits)
  then show ?thesis
    using SplitHostPort_v6 [OF ParseIP_length [OF assms(3)] assms(4,2)] by simp
qed

theorem tunnel_v6_target_witness:
  "net_SplitHostPort (ipString (ParseIP ''2001:db8::1'') @ '':443'') = Err (Errorf ''too many colons in address'')"
proof (rule tunnel_v6_target)
  show "net_SplitHostPort ''[2001:db8::1]:443'' = Ok (''2001:db8::1'', ''443'')"
    by code_simp
  have ip: "ParseIP ''2001:db8::1'' = Some [32, 1, 13, 184, 0, 0, 0, 0, 0, 0, 0, 0, 0, 0, 0, 1]"
    by code_simp
  then show "ParseIP ''2001:db8::1'' = Some [32, 1, 13, 184, 0, 0, 0, 0, 0, 0, 0, 0, 0, 0, 0, 1]" .
  show "To4 [32, 1, 13, 184, 0, 0, 0, 0, 0, 0, 0, 0, 0, 0, 0, 1] = None"
    by code_simp
  have "IsLegitProxiableIP (Some [32, 1, 13, 184, 0, 0, 0, 0, 0, 0, 0, 0, 0, 0, 0, 1])"
    by code_simp
  then show "fst (targetAddr (\<lambda>host. Err EOF) 0 ''[2001:db8::1]:443'' (NewTSCache 300)) = Ok (ipString (ParseIP ''2001:db8::1'') @ '':443'')"
    by (simp add: targetAddr_def \<open>net_SplitHostPort _ = _\<close> ip)
qed simp

section \<open>Dial requests\<close>

text \<open>What the client is told about a dial.\<close>

fun dialReply :: "string \<Rightarrow> 'c res \<Rightarrow> message list" where
  "dialReply connId (Ok conn) = [stateMessage connId ''open'' []]"
| "dialReply connId (Err e) = [stateMessage connId ''error'' (''net.Dial: '' @ errString e)]"
| "dialReply connId Panic = []"

lemma handle_dial:
  assumes "encodable r (RequestDial q)" and "concat segs = frame r (RequestDial q) @ rest"
    and "fst (targetAddr ns now (dial_Address q) cache) = Ok addr"
  obtains segs' where "concat segs' = rest"
    and "handle ns nd (readFull duplexRead) duplexWrite rnd now cache (segs, out) =
      Some (case nd (dial_Network q) addr of Ok conn \<Rightarrow> Ok (Some conn) | Err e \<Rightarrow> Ok None | Panic \<Rightarrow> Panic,
        (segs', out @ concat (map (frame rnd) (dialReply (dial_ConnectionId q) (nd (dial_Network q) addr)))))"
proof -
  obtain s1 where s1: "Read (readFull duplexRead) (segs, out) = Some (Ok (RequestDial q), s1)" "snd s1 = out" "concat (fst s1) = rest"
    using full_reader.Read_frame [where s = "(segs, out)" and rnd = r and m = "RequestDial q" and rest = rest, OF dup.full.full_reader_axioms [of out]]
      assms(1,2) by auto
  have "handleMessage ns nd duplexWrite rnd now cache (RequestDial q) s1 =
      Some (case nd (dial_Network q) addr of Ok conn \<Rightarrow> Ok (Dialled conn) | Err e \<Rightarrow> Ok Over | Panic \<Rightarrow> Panic,
        (fst s1, out @ concat (map (frame rnd) (dialReply (dial_ConnectionId q) (nd (dial_Network q) addr)))))"
    using s1(2) assms(3)
    by (cases s1) (simp add: handleMessage_def openDial_def Write_frame duplexWrite_def bind_def io_simps split: res.split)
  with s1(1,3) show thesis
    by (intro that [of "fst s1"], simp, subst handle.simps) (simp add: bind_def split: res.split)
qed

lemma handle_bad_target:
  assumes "encodable r (RequestDial q)" and "concat segs = frame r (RequestDial q) @ rest"
    and "fst (targetAddr ns now (dial_Address q) cache) = Err e"
  obtains segs' where "concat segs' = rest"
    and "handle ns nd (readFull duplexRead) duplexWrite rnd now cache (segs, out) = Some (Ok None, (segs', out))"
proof -
  obtain s1 where s1: "Read (readFull duplexRead) (segs, out) = Some (Ok (RequestDial q), s1)" "snd s1 = out" "concat (fst s1) = rest"
    using full_reader.Read_frame [where s = "(segs, out)" and rnd = r and m = "RequestDial q" and rest = rest, OF dup.full.full_reader_axioms [of out]]
      assms(1,2) by auto
  have "handleMessage ns nd duplexWrite rnd now cache (RequestDial q) s1 = Some (Ok Over, (fst s1, out))"
    using s1(2) assms(3) by (cases s1) (simp add: handleMessage_def openDial_def bind_def io_simps)
  with s1(1,3) show thesis
    by (intro that [of "fst s1"], simp, subst handle.simps) (simp add: bind_def)
qed

lemma targetAddr_no_panic:
  assumes "\<And>host. ns host \<noteq> Panic"
  shows "fst (targetAddr ns now address cache) \<noteq> Panic"
proof -
  have "net_SplitHostPort address \<noteq> Panic"
    by (simp add: net_SplitHostPort_def Let_def split: option.split)
  moreover have "fst (lookupIP ns now host cache) \<noteq> Panic" for host
    using assms by (simp add: lookupIP_def split: prod.split option.split res.split)
  ultimately show ?thesis
    by (auto simp: targetAddr_def Let_def split: prod.split option.split res.split)
      (metis fst_conv)+
qed

text \<open>C21. A dial request: after any other messages, answered as ever, the session resolves the target of the request,
  dials it and tells the client the outcome for the id of its connection; on success it goes on with the
  bytes that follow the request, and otherwise it is over. A target that is not acceptable ends the
  session without a word to the client.\<close>

theorem tunnel_dial:
  assumes "list_all (\<lambda>(r, m). encodable r m \<and> \<not> isDial m) ms" and "\<And>host. ns host \<noteq> Panic" and "encodable r (RequestDial q)"
    and "concat segs = frames ms @ frame r (RequestDial q) @ rest"
  shows "\<exists>segs'. concat segs' = rest \<and> handle ns nd (readFull duplexRead) duplexWrite rnd now cache (segs, []) =
    (case fst (targetAddr ns now (dial_Address q) cache) of
       Ok addr \<Rightarrow> Some (case nd (dial_Network q) addr of Ok conn \<Rightarrow> Ok (Some conn) | Err e \<Rightarrow> Ok None | Panic \<Rightarrow> Panic,
         (segs', concat (map (frame rnd) (answers ns (map snd ms) @ dialReply (dial_ConnectionId q) (nd (dial_Network q) addr)))))
     | _ \<Rightarrow> Some (Ok None, (segs', concat (map (frame rnd) (answers ns (map snd ms))))))"
proof -
  obtain segs1 where s1: "concat segs1 = frame r (RequestDial q) @ rest"
    "handle ns nd (readFull duplexRead) duplexWrite rnd now cache (segs, []) =
      handle ns nd (readFull duplexRead) duplexWrite rnd now cache (segs1, concat (map (frame rnd) (answers ns (map snd ms))))"
    using handle_prefix [where ns = ns and out = "[]" and nd = nd and rnd = rnd and now = now and cache = cache, OF assms(1,2,4)] by auto
  show ?thesis
  proof (cases "fst (targetAddr ns now (dial_Address q) cache)")
    case (Ok addr)
    obtain segs' where "concat segs' = rest" "handle ns nd (readFull duplexRead) duplexWrite rnd now cache (segs1, concat (map (frame rnd) (answers ns (map snd ms)))) =
      Some (case nd (dial_Network q) addr of Ok conn \<Rightarrow> Ok (Some conn) | Err e \<Rightarrow> Ok None | Panic \<Rightarrow> Panic,
        (segs', concat (map (frame rnd) (answers ns (map snd ms))) @ concat (map (frame rnd) (dialReply (dial_ConnectionId q) (nd (dial_Network q) addr)))))"
      by (rule handle_dial [OF assms(3) s1(1) Ok])
    with Ok s1(2) show ?thesis
      by auto
  next
    case (Err e)
    obtain segs' where "concat segs' = rest" "handle ns nd (readFull duplexRead) duplexWrite rnd now cache (segs1, concat (map (frame rnd) (answers ns (map snd ms)))) =
      Some (Ok None, (segs', concat (map (frame rnd) (answers ns (map snd ms)))))"
      by (rule handle_bad_target [OF assms(3) s1(1) Err])
    with Err s1(2) show ?thesis
      by auto
  qed (use targetAddr_no_panic [of ns] assms(2) in blast)
qed

definition sampleDial :: MessageRequestDial where
  "sampleDial = \<lparr>dial_Id = 0, dial_Network = ''tcp'', dial_Address = ''8.8.8.8:53'', dial_ConnectionId = ''c1''\<rparr>"

lemma sampleDial_encodable: "encodable rnd (RequestDial sampleDial)"
  by (simp add: encodable_def sampleDial_def marshalRequestDial_def jmarshal_def omitempty_def jnum32_def jscalar_def jquote_def
      jescape_safe htmlSafe_def validUTF8_ascii showNat.simps)

theorem tunnel_dial_witness:
  "\<exists>segs'. concat segs' = [7] \<and> handle (\<lambda>host. Ok []) (\<lambda>n a. Ok a) (readFull duplexRead) duplexWrite (\<lambda>_. 0) 0 (NewTSCache 300)
      ([frame (\<lambda>_. 0) (RequestDial sampleDial), [7]], []) =
    Some (Ok (Some ''8.8.8.8:53''), (segs', frame (\<lambda>_. 0) (stateMessage ''c1'' ''open'' [])))"
proof -
  have t: "fst (targetAddr (\<lambda>host. Ok []) 0 (dial_Address sampleDial) (NewTSCache 300)) = Ok ''8.8.8.8:53''"
    by code_simp
  have c: "concat [frame (\<lambda>_. 0) (RequestDial sampleDial), [7]] = frames [] @ frame (\<lambda>_. 0) (RequestDial sampleDial) @ [7]"
    by simp
  show ?thesis
    using tunnel_dial [where ms = "[]" and ns = "\<lambda>host. Ok []" and nd = "\<lambda>n a. Ok a" and rnd = "\<lambda>_. 0" and now = 0
        and cache = "NewTSCache 300", OF _ _ sampleDial_encodable c] t
    by (simp add: answers_def sampleDial_def)
qed

section \<open>The relay keeps order\<close>

fun msgBytes :: "message \<Rightarrow> bytes" where
  "msgBytes (Data m) = data_Data m"
| "msgBytes _ = []"

definition pending :: "('a \<Rightarrow> bytes) \<Rightarrow> 'a option \<Rightarrow> bytes" where
  "pending f x = (case x of None \<Rightarrow> [] | Some d \<Rightarrow> f d)"

lemma pending_simps [simp]: "pending f None = []" "pending f (Some d) = f d"
  by (simp_all add: pending_def)

definition kept :: "bool \<Rightarrow> bytes \<Rightarrow> bytes \<Rightarrow> bytes \<Rightarrow> bool" where
  "kept run out rest whole \<longleftrightarrow> (\<exists>lost. out @ lost @ rest = whole \<and> (run \<longrightarrow> lost = []))"

lemma kept_True [simp]: "kept True out rest whole \<longleftrightarrow> out @ rest = whole"
  by (simp add: kept_def)

lemma kept_weaken: "out @ rest = whole \<Longrightarrow> kept run out rest whole"
  unfolding kept_def by (rule exI [of _ "[]"]) simp

lemma kept_drop: "out @ d @ rest = whole \<Longrightarrow> kept False out rest whole"
  by (auto simp: kept_def)

lemma kept_prefix: "kept run out rest whole \<Longrightarrow> prefix out whole"
  by (auto simp: kept_def prefix_def)

text \<open>Downwards and upwards: what was written, what was lost (nothing while the loop runs), what a goroutine holds
  and what is still to come make up the whole stream.\<close>

definition downInv :: "string \<Rightarrow> bytes \<Rightarrow> dialRelay \<Rightarrow> bool" where
  "downInv connId tg s \<longleftrightarrow>
     kept (dr_main s) (concat (map msgBytes (dr_txOut s))) (pending id (dr_chunk s) @ dr_target s) tg \<and>
     (\<not> dr_tgOn s \<longrightarrow> dr_chunk s = None) \<and>
     list_all (\<lambda>m. m = dataMessage connId (msgBytes m)) (dr_txOut s)"

definition upInv :: "message list \<Rightarrow> dialRelay \<Rightarrow> bool" where
  "upInv cs s \<longleftrightarrow>
     kept (dr_main s) (dr_connOut s) (pending msgBytes (dr_msg s) @ concat (map msgBytes (dr_client s))) (concat (map msgBytes cs))"

definition boundInv :: "dialRelay \<Rightarrow> bool" where
  "boundInv s \<longleftrightarrow>
     (\<exists>k\<le>7. dr_bufSize s = DEFAULT_BUFFER_SIZE * 2 ^ k) \<and>
     length (dr_chErr s) + (if dr_tgOn s then 1 else 0) + (if dr_rdOn s then 1 else 0) \<le> 2"

lemma msgBytes_dataMessage [simp]: "msgBytes (dataMessage connId d) = d"
  by (simp add: dataMessage_def)

lemma not_relayed [simp]: "\<not> relayed m \<Longrightarrow> msgBytes m = []"
  by (cases m) auto

lemma enlarge_simps [simp]:
  "dr_client (enlarge n s) = dr_client s" "dr_msg (enlarge n s) = dr_msg s" "dr_rdOn (enlarge n s) = dr_rdOn s"
  "dr_target (enlarge n s) = dr_target s" "dr_chunk (enlarge n s) = dr_chunk s" "dr_tgOn (enlarge n s) = dr_tgOn s"
  "dr_connOut (enlarge n s) = dr_connOut s" "dr_txOut (enlarge n s) = dr_txOut s" "dr_chErr (enlarge n s) = dr_chErr s"
  "dr_main (enlarge n s) = dr_main s"
  by (simp_all add: enlarge_def Let_def)

lemma enlarge_size:
  assumes "k \<le> 7" and "dr_bufSize s = DEFAULT_BUFFER_SIZE * 2 ^ k"
  shows "\<exists>k\<le>7. dr_bufSize (enlarge n s) = DEFAULT_BUFFER_SIZE * 2 ^ k"
proof -
  have "dr_bufSize (enlarge n s) = dr_bufSize s \<or> dr_bufSize (enlarge n s) = dr_bufSize s * 2 \<and> dr_bufSize s < MAX_BUFFER_SIZE"
    by (simp add: enlarge_def Let_def)
  then consider "dr_bufSize (enlarge n s) = dr_bufSize s" | "dr_bufSize (enlarge n s) = dr_bufSize s * 2" "dr_bufSize s < MAX_BUFFER_SIZE"
    by blast
  then show ?thesis
  proof cases
    case 1
    with assms show ?thesis
      by auto
  next
    case 2
    have "MAX_BUFFER_SIZE = DEFAULT_BUFFER_SIZE * 2 ^ 7"
      by (simp add: MAX_BUFFER_SIZE_def DEFAULT_BUFFER_SIZE_def)
    with 2 assms have "k \<noteq> 7"
      by auto
    with 2 assms show ?thesis
      by (intro exI [of _ "Suc k"]) simp
  qed
qed

lemma downInv_step: "dial_step connId s s' \<Longrightarrow> downInv connId tg s \<Longrightarrow> downInv connId tg s'"
  by (induction rule: dial_step.induct) (auto simp: downInv_def intro: kept_weaken kept_drop)

lemma upInv_step: "dial_step connId s s' \<Longrightarrow> upInv cs s \<Longrightarrow> upInv cs s'"
  by (induction rule: dial_step.induct) (auto simp: upInv_def intro: kept_weaken kept_drop)

lemma boundInv_step: "dial_step connId s s' \<Longrightarrow> boundInv s \<Longrightarrow> boundInv s'"
  by (induction rule: dial_step.induct) (auto simp: boundInv_def intro: enlarge_size)

lemma dial_reach:
  assumes "(dial_step connId)\<^sup>*\<^sup>* (dialStart cs tg) s"
  shows "downInv connId tg s \<and> upInv cs s \<and> boundInv s"
  using assms
proof (induction rule: rtranclp_induct)
  case base
  have "\<exists>k\<le>7. DEFAULT_BUFFER_SIZE = DEFAULT_BUFFER_SIZE * 2 ^ k"
    by (rule exI [of _ 0]) simp
  then show ?case
    by (simp add: downInv_def upInv_def boundInv_def dialStart_def)
next
  case (step s s')
  then show ?case
    using downInv_step upInv_step boundInv_step by blast
qed

text \<open>C18. The relay of a dialled connection, in every interleaving of its goroutines: while its loop runs, the data
  messages written to the client carry the connection's id and, together with what is still to be
  forwarded, exactly the bytes of the target, and the target has received exactly the data of the
  client's messages up to the one in flight; when the loop has ended both are prefixes. Once the
  target has ended its stream nothing of it is held back, so with the loop running all of it has been
  sent. The buffer never exceeds 8 MiB and the error channel never blocks.\<close>

theorem tunnel_relay_in_order:
  assumes "(dial_step connId)\<^sup>*\<^sup>* (dialStart cs tg) s"
  shows "prefix (concat (map msgBytes (dr_txOut s))) tg \<and> prefix (dr_connOut s) (concat (map msgBytes cs)) \<and>
    list_all (\<lambda>m. m = dataMessage connId (msgBytes m)) (dr_txOut s) \<and>
    (dr_main s \<longrightarrow>
      concat (map msgBytes (dr_txOut s)) @ pending id (dr_chunk s) @ dr_target s = tg \<and>
      dr_connOut s @ pending msgBytes (dr_msg s) @ concat (map msgBytes (dr_client s)) = concat (map msgBytes cs) \<and>
      (\<not> dr_tgOn s \<longrightarrow> concat (map msgBytes (dr_txOut s)) @ dr_target s = tg)) \<and>
    dr_bufSize s \<le> MAX_BUFFER_SIZE \<and> length (dr_chErr s) \<le> 2"
proof -
  have inv: "downInv connId tg s" "upInv cs s" "boundInv s"
    using dial_reach [OF assms] by simp_all
  have "DEFAULT_BUFFER_SIZE * 2 ^ k \<le> MAX_BUFFER_SIZE" if "k \<le> 7" for k
    using power_increasing [OF that, of "2 :: nat"] by (simp add: DEFAULT_BUFFER_SIZE_def MAX_BUFFER_SIZE_def)
  with inv(3) have "dr_bufSize s \<le> MAX_BUFFER_SIZE" "length (dr_chErr s) \<le> 2"
    by (auto simp: boundInv_def split: if_splits)
  moreover have "dr_main s \<longrightarrow> concat (map msgBytes (dr_txOut s)) @ pending id (dr_chunk s) @ dr_target s = tg \<and>
      (\<not> dr_tgOn s \<longrightarrow> concat (map msgBytes (dr_txOut s)) @ dr_target s = tg)"
    using inv(1) by (auto simp: downInv_def)
  moreover have "dr_main s \<longrightarrow> dr_connOut s @ pending msgBytes (dr_msg s) @ concat (map msgBytes (dr_client s)) = concat (map msgBytes cs)"
    using inv(2) by (auto simp: upInv_def)
  ultimately show ?thesis
    using inv(1,2) by (auto simp: downInv_def upInv_def dest: kept_prefix)
qed

theorem tunnel_relay_in_order_witness:
  "\<exists>s. (dial_step ''c'')\<^sup>*\<^sup>* (dialStart [dataMessage ''c'' [1]] [8, 9]) s \<and> dr_connOut s = [1] \<and>
    prefix (concat (map msgBytes (dr_txOut s))) [8, 9] \<and> dr_txOut s = [dataMessage ''c'' [8]]"
proof -
  define s0 where "s0 = dialStart [dataMessage ''c'' [1]] [8, 9]"
  define s1 where "s1 = s0\<lparr>dr_chunk := Some [8], dr_target := [9]\<rparr>"
  define s2 where "s2 = enlarge 1 (s1\<lparr>dr_chunk := None, dr_txOut := [dataMessage ''c'' [8]]\<rparr>)"
  define s3 where "s3 = s2\<lparr>dr_client := [], dr_msg := Some (dataMessage ''c'' [1])\<rparr>"
  define s4 where "s4 = s3\<lparr>dr_msg := None, dr_connOut := [1]\<rparr>"
  note defs = s0_def s1_def s2_def s3_def s4_def dialStart_def dataMessage_def DEFAULT_BUFFER_SIZE_def
  have "dial_step ''c'' s0 s1"
    unfolding s1_def by (rule dial_step.target_read) (simp_all add: defs)
  moreover have "dial_step ''c'' s1 s2"
    using dial_step.take_down [of s1 "[8]" "''c''"] by (simp add: defs)
  moreover have "dial_step ''c'' s2 s3"
    using dial_step.client_read [of s2 "dataMessage ''c'' [1]" "[]" "''c''"] by (simp add: defs)
  moreover have "dial_step ''c'' s3 s4"
    using dial_step.take_data [of s3 "\<lparr>data_Id = 0, data_Ack = 0, data_ConnectionId = ''c'', data_Data = [1]\<rparr>" "''c''"] by (simp add: defs)
  ultimately have "(dial_step ''c'')\<^sup>*\<^sup>* (dialStart [dataMessage ''c'' [1]] [8, 9]) s4"
    unfolding s0_def [symmetric] by (meson rtranclp.rtrancl_into_rtrancl rtranclp.rtrancl_refl)
  moreover from tunnel_relay_in_order [OF this] have "prefix (concat (map msgBytes (dr_txOut s4))) [8, 9]"
    by blast
  moreover have "dr_connOut s4 = [1]" "dr_txOut s4 = [dataMessage ''c'' [8]]"
    by (simp_all add: defs)
  ultimately show ?thesis
    by blast
qed

end
