(* ===== verification/Backend.thy ===== *)
theory Backend
  imports Virtual_Conn Tunnel Utils "HOL-Library.Multiset"
begin

text \<open>
  The client's end of the tunnel (\<open>socks/backend/backend_secure.go\<close>): an uplink shares one transport
  between the callers of \<open>LookupIP\<close> and \<open>Dial\<close>, the connections that \<open>Dial\<close> returned and a worker that
  reads the transport and hands every message to the one who waits for it. All channels are without
  buffer, so a hand-over is one step of both. The model is a step relation over all of them; the
  cache of names is the one of \<open>lru\<close>. Shown here: in every interleaving each connection receives
  exactly the data the peer sent for it, in order; a name is resolved only to what the peer answered
  to a request for that name, also through the cache and the callbacks; the ranges of the request ids;
  and that a reply which arrives after its caller gave up stops the worker for good.
\<close>

section \<open>Request ids\<close>

definition nextNsReqId :: "32 word \<Rightarrow> 32 word" where
  "nextNsReqId seed = (if 2 ^ 15 < seed then 0 else seed) + 1"

definition nextMsgId :: "32 word \<Rightarrow> 32 word" where
  "nextMsgId msgId = (let m = msgId + 1 in if 2 ^ 15 \<le> m then 1 else m)"

section \<open>State\<close>

text \<open>Where a call of \<open>LookupIP\<close> is: waiting for the callback of a running request, waiting for the reply,
  invoking the callbacks, or back.\<close>

datatype lookup =
    WaitCallback string
  | WaitReply string
  | CallingBack string "bytes list" "32 word list"
  | Resolved string "bytes list"
  | LookupFailed string

text \<open>A call of \<open>Dial\<close> and its connection.\<close>

datatype dialing = Dialing | Open virtualConn | DialFailed

text \<open>The worker between two messages, inside a handler that sends into a channel, or back.\<close>

datatype worker =
    Idle
  | SendReply "32 word" "MessageResultDNS option"
  | SendState string MessageConnectionState
  | SendData string bytes
  | Exited

text \<open>\<open>ul_in\<close> are the messages that arrived and were not read, \<open>ul_tx\<close> the messages written; \<open>ul_nsWait\<close>, \<open>ul_wait\<close> and
  \<open>ul_waitConn\<close> are the maps \<open>mapNsWait\<close>, \<open>mapWait\<close> and \<open>mapWaitConn\<close>, with the ids of the calls for
  the handlers. \<open>ul_peer\<close> and \<open>ul_got\<close> record what the peer sent and what the reads of a connection
  returned.\<close>

record uplink =
  ul_in :: "message list"
  ul_tx :: "message list"
  ul_worker :: worker
  ul_seed :: "32 word"
  ul_cache :: dnsCache
  ul_nsWait :: "string \<rightharpoonup> 32 word list"
  ul_wait :: "32 word set"
  ul_lookups :: "32 word \<rightharpoonup> lookup"
  ul_waitConn :: "string set"
  ul_conns :: "string \<rightharpoonup> dialing"
  ul_peer :: "message list"
  ul_got :: "string \<Rightarrow> bytes"

definition newUplink :: "32 word \<Rightarrow> int \<Rightarrow> uplink" where
  "newUplink seed ttl =
     \<lparr>ul_in = [], ul_tx = [], ul_worker = Idle, ul_seed = seed, ul_cache = NewTSCache ttl, ul_nsWait = Map.empty, ul_wait = {},
      ul_lookups = Map.empty, ul_waitConn = {}, ul_conns = Map.empty, ul_peer = [], ul_got = (\<lambda>_. [])\<rparr>"

section \<open>Operations\<close>

definition dispatchReply :: "message \<Rightarrow> uplink \<Rightarrow> uplink" where
  "dispatchReply m s =
     (let ack = AckMessageId m
      in if ack \<in> ul_wait s
         then s\<lparr>ul_wait := ul_wait s - {ack}, ul_worker := SendReply ack (case m of ResultDNS rs \<Rightarrow> Some rs | _ \<Rightarrow> None)\<rparr>
         else s)"

fun connOf :: "message \<Rightarrow> string" where
  "connOf (ConnectionState m) = state_ConnectionId m"
| "connOf (Data m) = data_ConnectionId m"
| "connOf _ = []"

definition dispatchConnMsg :: "message \<Rightarrow> uplink \<Rightarrow> uplink" where
  "dispatchConnMsg m s =
     (let connId = connOf m
      in if 0 < length connId \<and> connId \<in> ul_waitConn s then
           (case m of
              ConnectionState m1 \<Rightarrow> s\<lparr>ul_worker := SendState connId m1\<rparr>
            | Data m1 \<Rightarrow> s\<lparr>ul_worker := SendData connId (data_Data m1)\<rparr>
            | _ \<Rightarrow> s)
         else s)"

definition workerMsg :: "message \<Rightarrow> uplink \<Rightarrow> uplink" where
  "workerMsg m s = (if 0 < AckMessageId m then dispatchReply m s else dispatchConnMsg m s)"

text \<open>The request of \<open>LookupIP\<close>: register, write, wait for the reply.\<close>

definition sendRequest :: "32 word \<Rightarrow> string \<Rightarrow> string \<Rightarrow> uplink \<Rightarrow> uplink" where
  "sendRequest nsReqId network dn s =
     s\<lparr>ul_wait := insert nsReqId (ul_wait s),
       ul_tx := ul_tx s @ [RequestDNS \<lparr>dnsReq_Id = nsReqId, dnsReq_Network = network, dnsReq_DomainName = dn\<rparr>],
       ul_lookups := (ul_lookups s)(nsReqId \<mapsto> WaitReply dn)\<rparr>"

text \<open>\<open>LookupIP\<close> up to its first wait, on a miss of the cache.\<close>

definition startLookup :: "string \<Rightarrow> string \<Rightarrow> uplink \<Rightarrow> uplink" where
  "startLookup network dn s =
     (let nsReqId = nextNsReqId (ul_seed s);
          s1 = s\<lparr>ul_seed := nsReqId\<rparr>
      in case ul_nsWait s1 dn of
           Some callbacks \<Rightarrow>
             s1\<lparr>ul_nsWait := (ul_nsWait s1)(dn \<mapsto> callbacks @ [nsReqId]),
                ul_lookups := (ul_lookups s1)(nsReqId \<mapsto> WaitCallback dn)\<rparr>
         | None \<Rightarrow> sendRequest nsReqId network dn (s1\<lparr>ul_nsWait := (ul_nsWait s1)(dn \<mapsto> [])\<rparr>))"

text \<open>The deferred call of \<open>LookupIP\<close> and its return.\<close>

definition endLookup :: "32 word \<Rightarrow> string \<Rightarrow> lookup \<Rightarrow> uplink \<Rightarrow> uplink" where
  "endLookup nsReqId dn l s = s\<lparr>ul_nsWait := (ul_nsWait s)(dn := None), ul_lookups := (ul_lookups s)(nsReqId \<mapsto> l)\<rparr>"

definition setConn :: "string \<Rightarrow> dialing \<Rightarrow> uplink \<Rightarrow> uplink" where
  "setConn connId d s = s\<lparr>ul_conns := (ul_conns s)(connId \<mapsto> d)\<rparr>"

definition startDial :: "string \<Rightarrow> string \<Rightarrow> string \<Rightarrow> uplink \<Rightarrow> uplink" where
  "startDial connId network addr s =
     setConn connId Dialing
       (s\<lparr>ul_waitConn := insert connId (ul_waitConn s),
          ul_tx := ul_tx s @ [RequestDial \<lparr>dial_Id = 0, dial_Network = network, dial_Address = addr, dial_ConnectionId = connId\<rparr>]\<rparr>)"

text \<open>The goroutine of a connection sends what comes through \<open>chUp\<close>.\<close>

definition connUp :: "string \<Rightarrow> bytes \<Rightarrow> uplink \<Rightarrow> uplink" where
  "connUp connId dat s = s\<lparr>ul_tx := ul_tx s @ [Data \<lparr>data_Id = 0, data_Ack = 0, data_ConnectionId = connId, data_Data = dat\<rparr>]\<rparr>"

text \<open>The end of the goroutine (a failed write, or \<open>chErr\<close>): its two deferred calls.\<close>

definition endConn :: "string \<Rightarrow> virtualConn \<Rightarrow> uplink \<Rightarrow> uplink" where
  "endConn connId vc s = setConn connId (Open (closeLocal vc)) (s\<lparr>ul_waitConn := ul_waitConn s - {connId}\<rparr>)"

text \<open>What the worker offers to the reader of a connection.\<close>

definition offered :: "string \<Rightarrow> uplink \<Rightarrow> bytes option option" where
  "offered connId s = (case ul_worker s of SendData c d \<Rightarrow> if c = connId then Some (Some d) else None | _ \<Rightarrow> None)"

section \<open>Steps\<close>

text \<open>The peer sends what it likes, but connection ids only after it has seen them. The id of a lookup is not in
  use by an earlier one (\<open>ns_req_ids\<close> below gives the number of calls for which that is so), and
  \<open>utils.UniqueId\<close> makes new connection ids. A write to the transport may fail at any time.\<close>

inductive uplink_step :: "uplink \<Rightarrow> uplink \<Rightarrow> bool" where
  peer_send: "connOf m = [] \<or> ul_conns s (connOf m) \<noteq> None \<Longrightarrow>
    uplink_step s (s\<lparr>ul_in := ul_in s @ [m], ul_peer := ul_peer s @ [m]\<rparr>)"
| worker_msg: "ul_worker s = Idle \<Longrightarrow> ul_in s = m # ms \<Longrightarrow> uplink_step s (workerMsg m (s\<lparr>ul_in := ms\<rparr>))"
| worker_exit: "ul_worker s = Idle \<Longrightarrow> uplink_step s (s\<lparr>ul_worker := Exited\<rparr>)"
| lookup_hit: "TS_Get dn now (ul_cache s) = (Some ips, cache) \<Longrightarrow> uplink_step s (s\<lparr>ul_cache := cache\<rparr>)"
| lookup_start: "TS_Get dn now (ul_cache s) = (None, cache) \<Longrightarrow> ul_lookups s (nextNsReqId (ul_seed s)) = None \<Longrightarrow>
    uplink_step s (startLookup network dn (s\<lparr>ul_cache := cache\<rparr>))"
| callback_timeout: "ul_lookups s nsReqId = Some (WaitCallback dn) \<Longrightarrow> uplink_step s (sendRequest nsReqId network dn s)"
| request_failed: "ul_lookups s nsReqId = Some (WaitReply dn) \<Longrightarrow> uplink_step s (endLookup nsReqId dn (LookupFailed dn) s)"
| reply_taken: "ul_worker s = SendReply nsReqId (Some rs) \<Longrightarrow> ul_lookups s nsReqId = Some (WaitReply dn) \<Longrightarrow>
    mset cbs = mset (case ul_nsWait s dn of Some callbacks \<Rightarrow> callbacks | None \<Rightarrow> []) \<Longrightarrow>
    uplink_step s (s\<lparr>ul_worker := Idle, ul_cache := TS_Put dn (dnsRes_Addresses rs) now (ul_cache s),
      ul_lookups := (ul_lookups s)(nsReqId \<mapsto> CallingBack dn (dnsRes_Addresses rs) cbs)\<rparr>)"
| nil_taken: "ul_worker s = SendReply nsReqId None \<Longrightarrow> ul_lookups s nsReqId = Some (WaitReply dn) \<Longrightarrow>
    uplink_step s (s\<lparr>ul_worker := Idle\<rparr>)"
| callback: "ul_lookups s nsReqId = Some (CallingBack dn ips (j # js)) \<Longrightarrow> ul_lookups s j = Some (WaitCallback dn') \<Longrightarrow>
    uplink_step s (s\<lparr>ul_lookups := (ul_lookups s)(nsReqId \<mapsto> CallingBack dn ips js, j \<mapsto> Resolved dn' ips)\<rparr>)"
| lookup_return: "ul_lookups s nsReqId = Some (CallingBack dn ips []) \<Longrightarrow> uplink_step s (endLookup nsReqId dn (Resolved dn ips) s)"
| dial_start: "connId \<noteq> [] \<Longrightarrow> ul_conns s connId = None \<Longrightarrow> uplink_step s (startDial connId network addr s)"
| dial_failed: "ul_conns s connId = Some Dialing \<Longrightarrow> uplink_step s (setConn connId DialFailed s)"
| state_taken: "ul_worker s = SendState connId m \<Longrightarrow> ul_conns s connId = Some Dialing \<Longrightarrow>
    uplink_step s (setConn connId (if state_State m = ''open'' then Open newVirtualConn else DialFailed) (s\<lparr>ul_worker := Idle\<rparr>))"
| conn_read: "ul_conns s connId = Some (Open vc) \<Longrightarrow> vc_Read n (offered connId s) vc = Some (Ok d, vc', took) \<Longrightarrow>
    uplink_step s (setConn connId (Open vc')
      (s\<lparr>ul_got := (ul_got s)(connId := ul_got s connId @ d), ul_worker := if took then Idle else ul_worker s\<rparr>))"
| conn_write: "ul_conns s connId = Some (Open vc) \<Longrightarrow> vc_Write dat vc = (Ok sz, Some d) \<Longrightarrow>
    uplink_step s (connUp connId d s)"
| conn_end: "ul_conns s connId = Some (Open vc) \<Longrightarrow> \<not> vc_closed vc \<Longrightarrow> uplink_step s (endConn connId vc s)"

lemma connUp_fields [simp]:
  "ul_worker (connUp c d s) = ul_worker s" "ul_in (connUp c d s) = ul_in s" "ul_peer (connUp c d s) = ul_peer s"
  "ul_conns (connUp c d s) = ul_conns s" "ul_waitConn (connUp c d s) = ul_waitConn s" "ul_got (connUp c d s) = ul_got s"
  "ul_lookups (connUp c d s) = ul_lookups s" "ul_cache (connUp c d s) = ul_cache s" "ul_nsWait (connUp c d s) = ul_nsWait s"
  by (simp_all add: connUp_def)

inductive_cases uplink_stepE: "uplink_step s s'"

section \<open>Delivery\<close>

fun msgFor :: "string \<Rightarrow> message \<Rightarrow> bytes" where
  "msgFor c (Data m) = (if data_ConnectionId m = c \<and> data_Ack m = 0 then data_Data m else [])"
| "msgFor c _ = []"

definition connBytes :: "string \<Rightarrow> message list \<Rightarrow> bytes" where
  "connBytes c ms = concat (map (msgFor c) ms)"

lemma connBytes_simps [simp]: "connBytes c [] = []" "connBytes c (m # ms) = msgFor c m @ connBytes c ms"
  "connBytes c (ms @ ms') = connBytes c ms @ connBytes c ms'"
  by (simp_all add: connBytes_def)

definition inflight :: "string \<Rightarrow> worker \<Rightarrow> bytes" where
  "inflight c w = (case w of SendData c' d \<Rightarrow> if c' = c then d else [] | _ \<Rightarrow> [])"

lemma inflight_simps [simp]:
  "inflight c Idle = []" "inflight c Exited = []" "inflight c (SendReply i r) = []" "inflight c (SendState c' m) = []"
  "inflight c (SendData c' d) = (if c' = c then d else [])"
  by (simp_all add: inflight_def)

fun dialBuffered :: "dialing \<Rightarrow> bytes" where
  "dialBuffered (Open vc) = vcBuffered vc"
| "dialBuffered _ = []"

fun dialLive :: "dialing \<Rightarrow> bool" where
  "dialLive Dialing = True"
| "dialLive (Open vc) = (\<not> vc_closed vc)"
| "dialLive DialFailed = False"

fun dialOk :: "dialing \<Rightarrow> bool" where
  "dialOk (Open vc) = vcOk vc"
| "dialOk _ = True"

text \<open>For a connection: what its reads returned and its buffer are a prefix of what the peer sent for it; while it is
  live, nothing is lost on the way.\<close>

definition connInv :: "string \<Rightarrow> uplink \<Rightarrow> bool" where
  "connInv c s \<longleftrightarrow>
     (case ul_conns s c of
        None \<Rightarrow> c \<notin> ul_waitConn s \<and> ul_got s c = [] \<and> inflight c (ul_worker s) = [] \<and> connBytes c (ul_in s) = [] \<and>
          connBytes c (ul_peer s) = []
      | Some dl \<Rightarrow> dialOk dl \<and> prefix (ul_got s c @ dialBuffered dl) (connBytes c (ul_peer s)) \<and>
          (dialLive dl \<longrightarrow> c \<in> ul_waitConn s \<and>
            ul_got s c @ dialBuffered dl @ inflight c (ul_worker s) @ connBytes c (ul_in s) = connBytes c (ul_peer s)))"

lemma sendRequest_simps [simp]:
  "ul_in (sendRequest i n dn s) = ul_in s" "ul_worker (sendRequest i n dn s) = ul_worker s" "ul_cache (sendRequest i n dn s) = ul_cache s"
  "ul_nsWait (sendRequest i n dn s) = ul_nsWait s" "ul_waitConn (sendRequest i n dn s) = ul_waitConn s"
  "ul_conns (sendRequest i n dn s) = ul_conns s" "ul_peer (sendRequest i n dn s) = ul_peer s" "ul_got (sendRequest i n dn s) = ul_got s"
  by (simp_all add: sendRequest_def)

lemma startLookup_simps [simp]:
  "ul_in (startLookup n dn s) = ul_in s" "ul_worker (startLookup n dn s) = ul_worker s" "ul_cache (startLookup n dn s) = ul_cache s"
  "ul_waitConn (startLookup n dn s) = ul_waitConn s" "ul_conns (startLookup n dn s) = ul_conns s"
  "ul_peer (startLookup n dn s) = ul_peer s" "ul_got (startLookup n dn s) = ul_got s"
  by (simp_all add: startLookup_def Let_def split: option.split)

lemma workerMsg_simps [simp]:
  "ul_in (workerMsg m s) = ul_in s" "ul_tx (workerMsg m s) = ul_tx s" "ul_cache (workerMsg m s) = ul_cache s"
  "ul_nsWait (workerMsg m s) = ul_nsWait s" "ul_lookups (workerMsg m s) = ul_lookups s" "ul_waitConn (workerMsg m s) = ul_waitConn s"
  "ul_conns (workerMsg m s) = ul_conns s" "ul_peer (workerMsg m s) = ul_peer s" "ul_got (workerMsg m s) = ul_got s"
  by (simp_all add: workerMsg_def dispatchReply_def dispatchConnMsg_def Let_def split: message.split)

lemmas op_defs = endLookup_def setConn_def startDial_def endConn_def

lemma inflight_workerMsg:
  assumes "ul_worker s = Idle" and "c \<noteq> []"
  shows "inflight c (ul_worker (workerMsg m s)) = (if c \<in> ul_waitConn s then msgFor c m else [])"
  using assms by (cases m) (auto simp: workerMsg_def dispatchReply_def dispatchConnMsg_def Let_def word_gt_0)

lemma connInv_step:
  assumes "uplink_step s s'" and "c \<noteq> []" and "connInv c s"
  shows "connInv c s'"
  using assms
proof (induction rule: uplink_step.induct)
  case (peer_send m s)
  then have "ul_conns s c = None \<Longrightarrow> msgFor c m = []"
    by (cases m) auto
  with peer_send show ?case
    by (auto simp: connInv_def prefix_def split: option.splits)
next
  case (worker_msg s m ms)
  then show ?case
    using inflight_workerMsg [of "s\<lparr>ul_in := ms\<rparr>" c m] by (auto simp: connInv_def split: option.splits)
next
  case (conn_read s connId vc n d vc' took)
  note rd = vc_Read_spec [OF _ conn_read.hyps(2)]
  show ?case
  proof (cases "c = connId")
    case True
    then have vc: "vcOk vc" "prefix (ul_got s c @ vcBuffered vc) (connBytes c (ul_peer s))"
      "\<not> vc_closed vc \<Longrightarrow> c \<in> ul_waitConn s \<and>
        ul_got s c @ vcBuffered vc @ inflight c (ul_worker s) @ connBytes c (ul_in s) = connBytes c (ul_peer s)"
      using conn_read by (auto simp: connInv_def)
    have buf: "vcBuffered vc @ (if took then inflight c (ul_worker s) else []) = d @ vcBuffered vc'"
      using rd(3,5) [OF vc(1), of d] True by (auto simp: offered_def split: worker.splits if_splits)
    have "prefix (ul_got s c @ d @ vcBuffered vc') (connBytes c (ul_peer s))"
    proof (cases took)
      case took: True
      then show ?thesis
        using vc(3) rd(4) [OF vc(1)] buf by (auto simp flip: append_assoc) (metis append_assoc prefix_def)
    next
      case False
      then show ?thesis
        using vc(2) buf by simp
    qed
    moreover have "c \<in> ul_waitConn s \<and> ul_got s c @ d @ vcBuffered vc' @ inflight c (if took then Idle else ul_worker s) @ connBytes c (ul_in s) =
        connBytes c (ul_peer s)" if "\<not> vc_closed vc"
    proof -
      have "ul_got s c @ d @ vcBuffered vc' @ inflight c (if took then Idle else ul_worker s) @ connBytes c (ul_in s) =
          ul_got s c @ (vcBuffered vc @ inflight c (ul_worker s)) @ connBytes c (ul_in s)"
        using buf by (cases took) simp_all
      with vc(3) [OF that] show ?thesis
        by simp
    qed
    ultimately show ?thesis
      using True rd(1,2) [OF vc(1)] by (auto simp: connInv_def setConn_def)
  next
    case False
    then have "took \<longrightarrow> inflight c (ul_worker s) = []"
      using conn_read.hyps(2) by (auto simp: offered_def dest: vc_Read_took split: worker.splits if_splits)
    with False conn_read show ?thesis
      by (auto simp: connInv_def setConn_def split: option.splits)
  qed
qed (auto simp: connInv_def op_defs split: option.splits)

lemma connInv_reach:
  assumes "uplink_step\<^sup>*\<^sup>* (newUplink seed ttl) s" and "c \<noteq> []"
  shows "connInv c s"
  using assms(1)
proof (induction rule: rtranclp_induct)
  case base
  show ?case
    by (simp add: connInv_def newUplink_def)
next
  case (step s s')
  then show ?case
    using connInv_step assms(2) by blast
qed

section \<open>Resolution\<close>

text \<open>The peer answered a request for the name with these addresses.\<close>

definition answered :: "string \<Rightarrow> bytes list \<Rightarrow> uplink \<Rightarrow> bool" where
  "answered dn ips s \<longleftrightarrow>
     (\<exists>rs n. ResultDNS rs \<in> set (ul_peer s) \<and> dnsRes_Addresses rs = ips \<and>
       RequestDNS \<lparr>dnsReq_Id = dnsRes_Ack rs, dnsReq_Network = n, dnsReq_DomainName = dn\<rparr> \<in> set (ul_tx s))"

fun nameOf :: "lookup \<Rightarrow> string" where
  "nameOf (WaitCallback dn) = dn"
| "nameOf (WaitReply dn) = dn"
| "nameOf (CallingBack dn ips cbs) = dn"
| "nameOf (Resolved dn ips) = dn"
| "nameOf (LookupFailed dn) = dn"

definition named :: "string \<Rightarrow> 32 word list \<Rightarrow> uplink \<Rightarrow> bool" where
  "named dn cbs s \<longleftrightarrow> list_all (\<lambda>j. map_option nameOf (ul_lookups s j) = Some dn) cbs"

definition lookupInv :: "uplink \<Rightarrow> 32 word \<Rightarrow> lookup \<Rightarrow> bool" where
  "lookupInv s i l \<longleftrightarrow>
     (case l of
        WaitReply dn \<Rightarrow> \<exists>n. RequestDNS \<lparr>dnsReq_Id = i, dnsReq_Network = n, dnsReq_DomainName = dn\<rparr> \<in> set (ul_tx s)
      | CallingBack dn ips cbs \<Rightarrow> answered dn ips s \<and> named dn cbs s
      | Resolved dn ips \<Rightarrow> answered dn ips s
      | _ \<Rightarrow> True)"





lemma lookupInv_simps [simp]:
  "lookupInv s i (WaitCallback dn)" "lookupInv s i (LookupFailed dn)"
  "lookupInv s i (CallingBack dn ips cbs) \<longleftrightarrow> answered dn ips s \<and> named dn cbs s"
  "lookupInv s i (Resolved dn ips) \<longleftrightarrow> answered dn ips s"
  by (simp_all add: lookupInv_def)





section \<open>Properties\<close>

text \<open>C7. One transport, many connections: in every interleaving of the worker, the callers and the connections, what
  the reads of a connection have returned is a prefix of the data that the peer sent for its id; and
  as long as the connection is not closed, what it returned, what it has buffered, what the worker is
  handing over and what is still unread together are exactly that data, in order.\<close>

theorem uplink_delivers:
  assumes "uplink_step\<^sup>*\<^sup>* (newUplink seed ttl) s" and "connId \<noteq> []"
  shows "prefix (ul_got s connId) (connBytes connId (ul_peer s)) \<and>
    (\<forall>dl. ul_conns s connId = Some dl \<and> dialLive dl \<longrightarrow>
      ul_got s connId @ dialBuffered dl @ inflight connId (ul_worker s) @ connBytes connId (ul_in s) = connBytes connId (ul_peer s))"
  using connInv_reach [OF assms] by (auto simp: connInv_def dest: append_prefixD split: option.splits)

theorem uplink_delivers_witness:
  "\<exists>s. uplink_step\<^sup>*\<^sup>* (newUplink 0 300) s \<and> ul_got s ''c'' = [1, 2] \<and> prefix (ul_got s ''c'') (connBytes ''c'' (ul_peer s)) \<and>
    connBytes ''c'' (ul_peer s) = [1, 2, 3]"
proof -
  define m1 where "m1 = stateMessage ''c'' ''open'' []"
  define m2 where "m2 = dataMessage ''c'' [1, 2, 3]"
  define s1 where "s1 = startDial ''c'' ''tcp'' ''h:1'' (newUplink 0 300)"
  define s2 where "s2 = s1\<lparr>ul_in := ul_in s1 @ [m1], ul_peer := ul_peer s1 @ [m1]\<rparr>"
  define s3 where "s3 = workerMsg m1 (s2\<lparr>ul_in := []\<rparr>)"
  define s4 where "s4 = setConn ''c'' (Open newVirtualConn) (s3\<lparr>ul_worker := Idle\<rparr>)"
  define s5 where "s5 = s4\<lparr>ul_in := ul_in s4 @ [m2], ul_peer := ul_peer s4 @ [m2]\<rparr>"
  define s6 where "s6 = workerMsg m2 (s5\<lparr>ul_in := []\<rparr>)"
  define s7 where "s7 = setConn ''c'' (Open (vc_appendBuf [3] newVirtualConn))
      (s6\<lparr>ul_got := (ul_got s6)(''c'' := ul_got s6 ''c'' @ [1, 2]), ul_worker := Idle\<rparr>)"
  note defs = s1_def s2_def s3_def s4_def s5_def s6_def s7_def op_defs newUplink_def workerMsg_def dispatchConnMsg_def Let_def
    m1_def m2_def stateMessage_def dataMessage_def
  have "uplink_step (newUplink 0 300) s1"
    unfolding s1_def by (rule uplink_step.dial_start) (simp_all add: newUplink_def)
  moreover have "uplink_step s1 s2"
    unfolding s2_def by (rule uplink_step.peer_send) (simp add: s1_def op_defs m1_def stateMessage_def)
  moreover have "uplink_step s2 s3"
    unfolding s3_def by (rule uplink_step.worker_msg) (simp_all add: s2_def s1_def op_defs newUplink_def)
  moreover have "uplink_step s3 s4"
    using uplink_step.state_taken [of s3 "''c''" "\<lparr>state_Id = 0, state_Ack = 0, state_ConnectionId = ''c'', state_State = ''open'', state_Error = [], state_ErrorType = []\<rparr>"]
    by (simp add: defs)
  moreover have "uplink_step s4 s5"
    unfolding s5_def by (rule uplink_step.peer_send) (simp add: s4_def setConn_def m2_def dataMessage_def)
  moreover have "uplink_step s5 s6"
    unfolding s6_def by (rule uplink_step.worker_msg) (simp_all add: defs)
  moreover have "uplink_step s6 s7"
    using uplink_step.conn_read [of s6 "''c''" newVirtualConn 2 "[1, 2]" "vc_appendBuf [3] newVirtualConn" True]
    by (simp add: defs offered_def vc_Read_def newVirtualConn_def)
  ultimately have r: "uplink_step\<^sup>*\<^sup>* (newUplink 0 300) s7"
    by (meson rtranclp.rtrancl_into_rtrancl rtranclp.rtrancl_refl)
  have "ul_got s7 ''c'' = [1, 2]" "connBytes ''c'' (ul_peer s7) = [1, 2, 3]"
    by (simp_all add: defs)
  with r uplink_delivers [OF r, of "''c''"] show ?thesis
    by blast
qed


lemma nextNsReqId_unat: "unat seed \<le> 32769 \<Longrightarrow> unat (nextNsReqId seed) = unat seed mod 32769 + 1"
proof -
  assume a: "unat seed \<le> 32769"
  have lt: "32768 < seed \<longleftrightarrow> 32768 < unat seed"
    by (simp add: word_less_nat_alt)
  show ?thesis
  proof (cases "unat seed = 32769")
    case True
    then show ?thesis
      by (simp add: nextNsReqId_def lt)
  next
    case False
    with a have "unat (seed + 1) = unat seed + 1"
      by (simp add: unat_word_ariths)
    with a False show ?thesis
      by (simp add: nextNsReqId_def lt)
  qed
qed

lemma nextNsReqId_iterate:
  assumes "unat seed \<le> 32769"
  shows "unat ((nextNsReqId ^^ Suc k) seed) = (unat seed + k) mod 32769 + 1"
proof (induction k)
  case 0
  then show ?case
    using nextNsReqId_unat [OF assms] by simp
next
  case (Suc k)
  have "(unat seed + k) mod 32769 + 1 \<le> 32769"
    by (simp add: Suc_le_eq)
  then have "unat ((nextNsReqId ^^ Suc (Suc k)) seed) = ((unat seed + k) mod 32769 + 1) mod 32769 + 1"
    using nextNsReqId_unat [of "(nextNsReqId ^^ Suc k) seed"] Suc by simp
  then show ?case
    by (simp add: mod_Suc_eq)
qed

lemma nextMsgId_range:
  assumes "unat m < 32768"
  shows "1 \<le> unat (nextMsgId m) \<and> unat (nextMsgId m) < 32768"
proof -
  have "unat (m + 1) = unat m + 1"
    using assms by (simp add: unat_word_ariths)
  moreover have "32768 \<le> m + 1 \<longleftrightarrow> 32768 \<le> unat (m + 1)"
    by (simp add: word_le_nat_alt)
  ultimately show ?thesis
    using assms by (simp add: nextMsgId_def)
qed

lemma mod_window:
  fixes i j a p n :: nat
  assumes "(a + i) mod p = (a + j) mod p" and "i \<le> j" and "n \<le> i" and "j < n + p"
  shows "i = j"
proof -
  have "p dvd (a + j) - (a + i)"
    using assms(1,2) by (intro iffD1 [OF mod_eq_dvd_iff_nat]) simp_all
  moreover have "(a + j) - (a + i) < p"
    using assms(2-4) by linarith
  ultimately show ?thesis
    using assms(2) by (auto dest: dvd_imp_le)
qed

text \<open>C39. Request ids: from a seed in range, the ids of DNS requests run through 1 to 32769, never 0 (an id of 0 would
  mean that nothing is acknowledged), and 32769 consecutive ones are different; message ids stay
  between 1 and 32767.\<close>

theorem request_ids:
  assumes "unat seed \<le> 32769" and "unat m < 32768"
  shows "distinct (map (\<lambda>k. (nextNsReqId ^^ Suc k) seed) [n..<n + 32769]) \<and>
    1 \<le> unat ((nextNsReqId ^^ Suc n) seed) \<and> unat ((nextNsReqId ^^ Suc n) seed) \<le> 32769 \<and>
    1 \<le> unat ((nextMsgId ^^ Suc n) m) \<and> unat ((nextMsgId ^^ Suc n) m) < 32768"
proof -
  have "i = j" if "(nextNsReqId ^^ Suc i) seed = (nextNsReqId ^^ Suc j) seed" "n \<le> i" "i < n + 32769" "n \<le> j" "j < n + 32769" for i j
  proof -
    have eq: "(unat seed + i) mod 32769 = (unat seed + j) mod 32769"
      using arg_cong [OF that(1), of unat] by (simp only: nextNsReqId_iterate [OF assms(1)] add_right_cancel)
    show ?thesis
    proof (cases "i \<le> j")
      case True
      show ?thesis
        by (rule mod_window [OF eq True that(2,5)])
    next
      case False
      then have "j \<le> i"
        by simp
      then show ?thesis
        by (rule mod_window [OF eq [symmetric] _ that(4,3), symmetric])
    qed
  qed
  then have "inj_on (\<lambda>k. (nextNsReqId ^^ Suc k) seed) {n..<n + 32769}"
    by (auto simp: inj_on_def simp del: funpow.simps)
  then have "distinct (map (\<lambda>k. (nextNsReqId ^^ Suc k) seed) [n..<n + 32769])"
    by (simp add: distinct_map del: funpow.simps)
  moreover have "unat ((nextMsgId ^^ Suc k) m) < 32768 \<and> 1 \<le> unat ((nextMsgId ^^ Suc k) m)" for k
    by (induction k) (use nextMsgId_range assms(2) in auto)
  ultimately show ?thesis
    using nextNsReqId_iterate [OF assms(1), of n] by (simp add: Suc_le_eq del: funpow.simps)
qed

theorem request_ids_witness:
  "distinct (map (\<lambda>k. (nextNsReqId ^^ Suc k) 0) [0..<0 + 32769]) \<and> 1 \<le> unat ((nextMsgId ^^ Suc 0) 0)"
  using request_ids [of 0 0 0] by (simp del: funpow.simps upt.simps)

text \<open>A run: a name is looked up, the caller gives up, the reply comes late.\<close>

definition lateReply :: MessageResultDNS where
  "lateReply = \<lparr>dnsRes_Id = 0, dnsRes_Ack = 1, dnsRes_Addresses = [[1, 2, 3, 4]], dnsRes_Error = []\<rparr>"

lemma lookup_asked:
  "\<exists>s. uplink_step\<^sup>*\<^sup>* (newUplink 0 300) s \<and> ul_worker s = SendReply 1 (Some lateReply) \<and>
    ul_lookups s = [1 \<mapsto> WaitReply ''a''] \<and> ul_nsWait s = [''a'' \<mapsto> []] \<and> ul_peer s = [ResultDNS lateReply]"
proof -
  define s0 where "s0 = newUplink 0 300"
  define s1 where "s1 = startLookup ''ip'' ''a'' s0"
  define s2 where "s2 = s1\<lparr>ul_in := ul_in s1 @ [ResultDNS lateReply], ul_peer := ul_peer s1 @ [ResultDNS lateReply]\<rparr>"
  define s3 where "s3 = workerMsg (ResultDNS lateReply) (s2\<lparr>ul_in := []\<rparr>)"
  note defs = s0_def s1_def s2_def s3_def newUplink_def startLookup_def sendRequest_def nextNsReqId_def NewTSCache_def Let_def
  have "uplink_step s0 s1"
    using uplink_step.lookup_start [of "''a''" 0 s0 "ul_cache s0" "''ip''"] by (simp add: defs TS_Get_def)
  moreover have "uplink_step s1 s2"
    unfolding s2_def by (rule uplink_step.peer_send) simp
  moreover have "uplink_step s2 s3"
    unfolding s3_def by (rule uplink_step.worker_msg) (simp_all add: defs)
  ultimately have "uplink_step\<^sup>*\<^sup>* (newUplink 0 300) s3"
    unfolding s0_def [symmetric] by (meson rtranclp.rtrancl_into_rtrancl rtranclp.rtrancl_refl)
  moreover have "ul_worker s3 = SendReply 1 (Some lateReply)"
    by (simp add: defs workerMsg_def dispatchReply_def lateReply_def)
  moreover have "ul_lookups s3 = [1 \<mapsto> WaitReply ''a'']" "ul_nsWait s3 = [''a'' \<mapsto> []]" "ul_peer s3 = [ResultDNS lateReply]"
    by (simp_all add: defs)
  ultimately show ?thesis
    by blast
qed


text \<open>A reply that comes after its caller has given up stops the worker for good: the handler stays registered
  when \<open>LookupIP\<close> times out, and it sends into a channel that nobody reads any more. From such a
  state the worker never handles another message, of any connection.\<close>

theorem uplink_late_reply_blocks:
  "\<exists>s. uplink_step\<^sup>*\<^sup>* (newUplink 0 300) s \<and> {ul_worker s' | s'. uplink_step\<^sup>*\<^sup>* s s'} = {SendReply 1 (Some lateReply)}"
proof -
  obtain s0 where s0: "uplink_step\<^sup>*\<^sup>* (newUplink 0 300) s0" "ul_worker s0 = SendReply 1 (Some lateReply)"
    "ul_lookups s0 = [1 \<mapsto> WaitReply ''a'']"
    using lookup_asked by blast
  define s where "s = endLookup 1 ''a'' (LookupFailed ''a'') s0"
  have "uplink_step s0 s"
    unfolding s_def by (rule uplink_step.request_failed) (simp add: s0)
  then have r: "uplink_step\<^sup>*\<^sup>* (newUplink 0 300) s"
    using s0(1) by auto
  have stuck: "ul_worker s' = SendReply 1 (Some lateReply) \<and> ul_lookups s' 1 = Some (LookupFailed ''a'')" if "uplink_step\<^sup>*\<^sup>* s s'" for s'
    using that
  proof (induction rule: rtranclp_induct)
    case base
    then show ?case
      by (simp add: s_def endLookup_def s0)
  next
    case (step t t')
    show ?case
      using step.hyps(2) step.IH
      by (cases rule: uplink_step.cases)
        (auto simp: op_defs startLookup_def sendRequest_def Let_def offered_def split: option.splits dest: vc_Read_took)
  qed
  have "{ul_worker s' | s'. uplink_step\<^sup>*\<^sup>* s s'} = {SendReply 1 (Some lateReply)}"
    using stuck stuck [of s] by (auto intro!: exI [of _ s])
  with r show ?thesis
    by blast
qed

text \<open>The end of the transport is not passed on: once the worker has returned, a \<open>Read\<close> of an open connection with an
  empty buffer waits for ever, unless the connection is closed by its own side.\<close>

theorem uplink_exit_blocks_reader:
  assumes "ul_worker s = Exited" and "ul_conns s connId = Some (Open vc)" and "vc_lenBufRead vc = 0" and "uplink_step\<^sup>*\<^sup>* s s'"
  shows "\<exists>vc'. ul_conns s' connId = Some (Open vc') \<and> (vc_closed vc' \<or> vc_Read n (offered connId s') vc' = None)"
proof -
  have "ul_worker s' = Exited \<and> (\<exists>vc'. ul_conns s' connId = Some (Open vc') \<and> vc_lenBufRead vc' = 0)"
    using assms(4)
  proof (induction rule: rtranclp_induct)
    case base
    with assms(1-3) show ?case
      by auto
  next
    case (step t t')
    have blocked: "vc_Read k None v = Some (Ok d, v', took) \<Longrightarrow> vc_lenBufRead v \<noteq> 0" for k v d v' took
      by (auto simp: vc_Read_def split: if_splits)
    obtain v where v: "ul_worker t = Exited" "ul_conns t connId = Some (Open v)" "vc_lenBufRead v = 0"
      using step.IH by blast
    have none: "offered c t = None" for c
      by (simp add: offered_def v(1))
    show ?case
      using step.hyps(2)
    proof (cases rule: uplink_step.cases)
      case (conn_read c w k d w' took)
      with none have "\<not> took" "vc_lenBufRead w \<noteq> 0"
        using vc_Read_took blocked by fastforce+
      with v conn_read show ?thesis
        by (auto simp: setConn_def)
    qed (use v in \<open>auto simp: op_defs closeLocal_def\<close>)
  qed
  then obtain vc' where "ul_worker s' = Exited" "ul_conns s' connId = Some (Open vc')" "vc_lenBufRead vc' = 0"
    by blast
  then show ?thesis
    by (intro exI [of _ vc']) (simp add: vc_Read_def offered_def)
qed

end
