(* ===== verification/Bufio.thy ===== *)
theory Bufio
  imports Duplex
begin

text \<open>
  \<open>bufio.Reader\<close> with its default buffer of 4096 bytes, as the socks5 server uses it on a connection.
  It reads ahead, so the stream it stands for is its buffer followed by what the connection still has.
  Shown here: on a source whose reads deliver something, \<open>ReadByte\<close> takes the next byte and \<open>Read\<close> is a
  reader of the same stream.
\<close>

record 's bufio =
  bio_rd :: 's
  bio_buf :: bytes

definition NewReader :: "'s \<Rightarrow> 's bufio" where
  "NewReader s = \<lparr>bio_rd = s, bio_buf = []\<rparr>"

text \<open>\<open>fill\<close>, on an empty buffer: it gives up after 100 reads without data.\<close>

fun bio_fill :: "nat \<Rightarrow> 's reader \<Rightarrow> (unit, 's bufio) io" where
  "bio_fill 0 rd r = throw (Errorf ''multiple Read calls return no data or error'') r"
| "bio_fill (Suc n) rd r =
     (case rd 4096 (bio_rd r) of
        None \<Rightarrow> None
      | Some (Ok d, s) \<Rightarrow> if d = [] then bio_fill n rd (r\<lparr>bio_rd := s\<rparr>) else ret () (r\<lparr>bio_rd := s, bio_buf := d\<rparr>)
      | Some (Err e, s) \<Rightarrow> throw e (r\<lparr>bio_rd := s\<rparr>)
      | Some (Panic, s) \<Rightarrow> panic (r\<lparr>bio_rd := s\<rparr>))"

definition bio_need :: "'s reader \<Rightarrow> (unit, 's bufio) io" where
  "bio_need rd r = (if bio_buf r = [] then bio_fill 100 rd r else ret () r)"

definition bio_ReadByte :: "'s reader \<Rightarrow> (byte, 's bufio) io" where
  "bio_ReadByte rd = bind (bio_need rd) (\<lambda>_ r. ret (hd (bio_buf r)) (r\<lparr>bio_buf := tl (bio_buf r)\<rparr>))"

text \<open>\<open>Peek(1)\<close>\<close>

definition bio_Peek1 :: "'s reader \<Rightarrow> (byte, 's bufio) io" where
  "bio_Peek1 rd = bind (bio_need rd) (\<lambda>_ r. ret (hd (bio_buf r)) r)"

definition bio_Read :: "'s reader \<Rightarrow> 's bufio reader" where
  "bio_Read rd n r =
     (if n = 0 then ret [] r
      else if bio_buf r \<noteq> [] then ret (take n (bio_buf r)) (r\<lparr>bio_buf := drop n (bio_buf r)\<rparr>)
      else case rd (if 4096 \<le> n then n else 4096) (bio_rd r) of
             None \<Rightarrow> None
           | Some (Ok d, s) \<Rightarrow>
               if 4096 \<le> n then ret d (r\<lparr>bio_rd := s\<rparr>)
               else ret (take n d) (r\<lparr>bio_rd := s, bio_buf := drop n d\<rparr>)
           | Some (Err e, s) \<Rightarrow> throw e (r\<lparr>bio_rd := s\<rparr>)
           | Some (Panic, s) \<Rightarrow> panic (r\<lparr>bio_rd := s\<rparr>))"

text \<open>A write to the connection beneath the reader, and the same with its error ignored.\<close>

definition bioWrite :: "'s writer \<Rightarrow> 's bufio writer" where
  "bioWrite wr d r = (case wr d (bio_rd r) of None \<Rightarrow> None | Some (x, s) \<Rightarrow> Some (x, r\<lparr>bio_rd := s\<rparr>))"

definition ignoreErr :: "('a, 's) io \<Rightarrow> (unit, 's) io" where
  "ignoreErr m s =
     (case m s of
        None \<Rightarrow> None
      | Some (Panic, s') \<Rightarrow> Some (Panic, s')
      | Some (x, s') \<Rightarrow> Some (Ok (), s'))"

section \<open>The stream of a buffered reader\<close>

definition bioContent :: "('s \<Rightarrow> bytes) \<Rightarrow> 's bufio \<Rightarrow> bytes" where
  "bioContent content r = bio_buf r @ content (bio_rd r)"

lemma bioContent_NewReader [simp]: "bioContent content (NewReader s) = content s" "bio_rd (NewReader s) = s"
  by (simp_all add: bioContent_def NewReader_def)

locale bufio_source = live_source
begin

lemma bio_need_spec:
  assumes "good (bio_rd r)"
  shows "\<exists>r'. bio_need rd r = Some (if bioContent content r = [] then Err EOF else Ok (), r') \<and> good (bio_rd r') \<and>
    bioContent content r' = bioContent content r \<and> (bioContent content r \<noteq> [] \<longrightarrow> bio_buf r' \<noteq> [])"
proof (cases "bio_buf r = []")
  case True
  obtain x s where x: "rd 4096 (bio_rd r) = Some (x, s)" "source_step content good (\<lambda>_. 0) 4096 (bio_rd r) x s"
    using rd_step [OF assms, of 4096] by auto
  have "bio_need rd r = bio_fill (Suc 99) rd r"
    using True by (simp add: bio_need_def del: bio_fill.simps)
  then have "bio_need rd r =
     (case rd 4096 (bio_rd r) of
        None \<Rightarrow> None
      | Some (Ok d, s) \<Rightarrow> if d = [] then bio_fill 99 rd (r\<lparr>bio_rd := s\<rparr>) else ret () (r\<lparr>bio_rd := s, bio_buf := d\<rparr>)
      | Some (Err e, s) \<Rightarrow> throw e (r\<lparr>bio_rd := s\<rparr>)
      | Some (Panic, s) \<Rightarrow> panic (r\<lparr>bio_rd := s\<rparr>))"
    by (simp only: bio_fill.simps)
  with True x show ?thesis
    by (cases x) (auto simp: source_step_def bioContent_def io_simps)
next
  case False
  with assms show ?thesis
    by (simp add: bio_need_def bioContent_def io_simps)
qed

lemma ReadByte_spec:
  assumes "good (bio_rd r)"
  shows "\<exists>r'. bio_ReadByte rd r = Some (case bioContent content r of [] \<Rightarrow> Err EOF | b # bs \<Rightarrow> Ok b, r') \<and> good (bio_rd r') \<and>
    bioContent content r' = drop 1 (bioContent content r)"
proof -
  obtain r1 where r1: "bio_need rd r = Some (if bioContent content r = [] then Err EOF else Ok (), r1)" "good (bio_rd r1)"
    "bioContent content r1 = bioContent content r" "bioContent content r \<noteq> [] \<Longrightarrow> bio_buf r1 \<noteq> []"
    using bio_need_spec [OF assms] by blast
  show ?thesis
  proof (cases "bioContent content r")
    case Nil
    with r1 show ?thesis
      by (simp add: bio_ReadByte_def bind_def)
  next
    case (Cons b bs)
    then have "bio_buf r1 \<noteq> []"
      by (intro r1(4)) simp
    with Cons r1(3) obtain rest where "bio_buf r1 = b # rest" "rest @ content (bio_rd r1) = bs"
      by (cases "bio_buf r1") (auto simp: bioContent_def)
    with Cons r1 show ?thesis
      by (simp add: bio_ReadByte_def bind_def io_simps bioContent_def)
  qed
qed

lemma Peek1_spec:
  assumes "good (bio_rd r)"
  shows "\<exists>r'. bio_Peek1 rd r = Some (case bioContent content r of [] \<Rightarrow> Err EOF | b # bs \<Rightarrow> Ok b, r') \<and> good (bio_rd r') \<and>
    bioContent content r' = bioContent content r"
proof -
  obtain r1 where r1: "bio_need rd r = Some (if bioContent content r = [] then Err EOF else Ok (), r1)" "good (bio_rd r1)"
    "bioContent content r1 = bioContent content r" "bioContent content r \<noteq> [] \<Longrightarrow> bio_buf r1 \<noteq> []"
    using bio_need_spec [OF assms] by blast
  show ?thesis
  proof (cases "bioContent content r")
    case Nil
    with r1 show ?thesis
      by (simp add: bio_Peek1_def bind_def)
  next
    case (Cons b bs)
    then have "bio_buf r1 \<noteq> []"
      by (intro r1(4)) simp
    with Cons r1(3) obtain rest where "bio_buf r1 = b # rest"
      by (cases "bio_buf r1") (auto simp: bioContent_def)
    with Cons r1 show ?thesis
      by (simp add: bio_Peek1_def bind_def io_simps)
  qed
qed

end

sublocale bufio_source \<subseteq> bio: byte_source "bio_Read rd" "bioContent content" "\<lambda>r. good (bio_rd r)" "\<lambda>_. 0"
proof
  fix r :: "'a bufio" and k :: nat
  assume r: "good (bio_rd r)" and k: "0 < k"
  show "\<exists>x r'. bio_Read rd k r = Some (x, r') \<and>
      source_step (bioContent content) (\<lambda>r. good (bio_rd r)) (\<lambda>_. 0) k r x r'"
  proof (cases "bio_buf r = []")
    case False
    with r k show ?thesis
      by (simp add: bio_Read_def io_simps source_step_def bioContent_def)
  next
    case True
    let ?n = "if 4096 \<le> k then k else 4096"
    have "0 < ?n"
      using k by simp
    from rd_step [OF r this]
    obtain x s where x: "rd ?n (bio_rd r) = Some (x, s)" "source_step content good (\<lambda>_. 0) ?n (bio_rd r) x s"
      by blast
    with True k show ?thesis
      by (cases x) (auto simp: bio_Read_def source_step_def bioContent_def io_simps)
  qed
qed

interpretation bconn: bufio_source connRead concat "\<lambda>segs. [] \<notin> set segs" ..

interpretation bdup: bufio_source duplexRead "\<lambda>s. concat (fst s)" "\<lambda>s. [] \<notin> set (fst s) \<and> snd s = out" for out ..

end
