(* ===== verification/Socks5.thy ===== *)
theory Socks5
  imports Bufio Go_Net Conf
begin

text \<open>
  The socks5 proxy (\<open>socks/socks5/socks5.go\<close>, \<open>server.go\<close>) and its client (\<open>client.go\<close>). The server reads
  through a buffered reader and writes to the connection beneath it. A request ends with an error or
  with the call of \<open>utils.Proxy\<close> on the connection to the target; that call is the relay of theory
  \<open>Relay\<close>, and the model returns the connection it would be started with.

  What is dialled is a \<open>Backend\<close>: \<open>getBackend suit params\<close>, \<open>direct\<close> and \<open>dial b network addr\<close> are
  arguments of the operations (\<open>backend.GetBackend\<close>, \<open>backendDirect\<close> and the method \<open>Dial\<close>).
\<close>

section \<open>Server\<close>

text \<open>The option \<open>BackendProvider\<close>: nil, or a function that returns a backend or nil, or panics.\<close>

datatype 'b provider = NoProvider | Provides "'b option" | ProviderPanics

record 'b Options =
  op_Port :: int
  op_ProtocolSuit :: string
  op_ProtocolParams :: Values
  op_BackendProvider :: "'b provider"

fun readAuths :: "'s reader \<Rightarrow> nat \<Rightarrow> (unit, 's bufio) io" where
  "readAuths rd 0 = ret ()"
| "readAuths rd (Suc n) = bind (bio_ReadByte rd) (\<lambda>auth. readAuths rd n)"

definition Handshake :: "'s reader \<Rightarrow> 's writer \<Rightarrow> (unit, 's bufio) io" where
  "Handshake rd wr =
     bind (bio_ReadByte rd) (\<lambda>ver.
     if ver \<noteq> 5 then throw (Errorf ''wrong version.'')
     else
       bind (bio_ReadByte rd) (\<lambda>nauth.
       bind (readAuths rd (unat nauth)) (\<lambda>_.
       ignoreErr (bioWrite wr [ver, 0]))))"

text \<open>The host and whether it is an address that is not proxied.\<close>

definition readAddr :: "'s reader \<Rightarrow> byte \<Rightarrow> (string \<times> bool, 's bufio) io" where
  "readAddr rd addrTyp =
     (if addrTyp = 1 then
        bind (readFull (bio_Read rd) 4) (\<lambda>ip. ret (ipString (Some ip), \<not> IsLegitProxiableIP (Some ip)))
      else if addrTyp = 3 then
        bind (bio_ReadByte rd) (\<lambda>sizeb.
        bind (readFull (bio_Read rd) (unat sizeb)) (\<lambda>nameb. ret (string_of nameb, False)))
      else if addrTyp = 4 then
        bind (readFull (bio_Read rd) 16) (\<lambda>ip. ret (ipString (Some ip), \<not> IsLegitProxiableIP (Some ip)))
      else ret ([], False))"

definition chooseLinker :: "(string \<Rightarrow> Values \<Rightarrow> 'b res) \<Rightarrow> 'b \<Rightarrow> 'b Options \<Rightarrow> bool \<Rightarrow> 'b res" where
  "chooseLinker getBackend direct options isHostLocal =
     (case op_BackendProvider options of
        ProviderPanics \<Rightarrow> Panic
      | Provides (Some b) \<Rightarrow> Ok b
      | _ \<Rightarrow> if \<not> isHostLocal then getBackend (op_ProtocolSuit options) (op_ProtocolParams options) else Ok direct)"

text \<open>The end of \<open>HandleRequest\<close>, after the port was read.\<close>

definition serveTarget :: "(string \<Rightarrow> Values \<Rightarrow> 'b res) \<Rightarrow> 'b \<Rightarrow> ('b \<Rightarrow> string \<Rightarrow> string \<Rightarrow> 'c res) \<Rightarrow> 'b Options \<Rightarrow>
    's writer \<Rightarrow> byte \<Rightarrow> string \<times> bool \<Rightarrow> bytes \<Rightarrow> ('c, 's bufio) io" where
  "serveTarget getBackend direct dial options wr ver dst portb =
     (let (hostDst, isHostLocal) = dst;
          portDst = unat (portb ! 0) * 256 + unat (portb ! 1);
          addrDst = hostDst @ '':'' @ showNat portDst
      in bind (lift (chooseLinker getBackend direct options isHostLocal)) (\<lambda>linker.
         case dial linker ''tcp'' addrDst of
           Panic \<Rightarrow> panic
         | Err e \<Rightarrow> bind (ignoreErr (bioWrite wr [ver, 4, 0, 0, 0, 0])) (\<lambda>_. throw e)
         | Ok upConn \<Rightarrow> bind (bioWrite wr [ver, 0, 0, 1, 0, 0, 0, 0, 0, 0]) (\<lambda>_. ret upConn)))"

definition HandleRequest :: "(string \<Rightarrow> Values \<Rightarrow> 'b res) \<Rightarrow> 'b \<Rightarrow> ('b \<Rightarrow> string \<Rightarrow> string \<Rightarrow> 'c res) \<Rightarrow> 'b Options \<Rightarrow>
    's reader \<Rightarrow> 's writer \<Rightarrow> ('c, 's bufio) io" where
  "HandleRequest getBackend direct dial options rd wr =
     bind (bio_ReadByte rd) (\<lambda>ver.
     if ver \<noteq> 5 then throw (Errorf ''incompatible version.'')
     else
       bind (bio_ReadByte rd) (\<lambda>cmd.
       if cmd \<noteq> 1 then
         bind (ignoreErr (bioWrite wr [ver, 7, 0, 0, 0, 0])) (\<lambda>_. throw (Errorf ''unsupported cmd''))
       else
         bind (bio_ReadByte rd) (\<lambda>_.
         bind (bio_ReadByte rd) (\<lambda>addrTyp.
         bind (readAddr rd addrTyp) (\<lambda>dst.
         bind (readFull (bio_Read rd) 2) (\<lambda>portb.
         serveTarget getBackend direct dial options wr ver dst portb))))))"

text \<open>\<open>handleConn\<close>: the connection to the target that is proxied, or \<open>None\<close> when it returns before that.\<close>

definition handleConn :: "(string \<Rightarrow> Values \<Rightarrow> 'b res) \<Rightarrow> 'b \<Rightarrow> ('b \<Rightarrow> string \<Rightarrow> string \<Rightarrow> 'c res) \<Rightarrow> 'b Options \<Rightarrow>
    's reader \<Rightarrow> 's writer \<Rightarrow> 's \<Rightarrow> ('c option res \<times> 's bufio) option" where
  "handleConn getBackend direct dial options rd wr conn =
     (case bind (bio_Peek1 rd) (\<lambda>ver.
             if ver \<noteq> 5 then throw (Errorf ''incompatible version'')
             else
               bind (Handshake rd wr) (\<lambda>_. HandleRequest getBackend direct dial options rd wr)) (NewReader conn) of
        None \<Rightarrow> None
      | Some (Ok upConn, r) \<Rightarrow> Some (Ok (Some upConn), r)
      | Some (Err e, r) \<Rightarrow> Some (Ok None, r)
      | Some (Panic, r) \<Rightarrow> Some (Panic, r))"

section \<open>Client\<close>

text \<open>The request: header, address or name, and the port in the last two bytes.\<close>

definition s5Request :: "string \<Rightarrow> int \<Rightarrow> bytes" where
  "s5Request host port =
     (let ip = ParseIP host;
          iplen = (case ip of None \<Rightarrow> 0 | Some b \<Rightarrow> length b);
          addrTyp = (if iplen = 4 then 1 else if iplen = 16 then 4 else 3 :: byte);
          lenS5Req = (if ip = None then 4 + 1 + length host else 4 + iplen) + 2;
          hdr = (zeros lenS5Req)[0 := 5, 1 := 1, 3 := addrTyp];
          req = (case ip of
                   Some b \<Rightarrow> copyAt 4 b hdr
                 | None \<Rightarrow> copyAt 5 (bytes_of host) (hdr[4 := of_nat (length host)]));
          portb = putUint16 (of_int port)
      in copyAt (lenS5Req - 2) portb req)"

definition Socks5Connect :: "(string \<Rightarrow> 's res) \<Rightarrow> 's reader \<Rightarrow> 's writer \<Rightarrow> string \<Rightarrow> string \<Rightarrow> ('s res) option" where
  "Socks5Connect dial rd wr proxyAddr addr =
     (case net_SplitHostPort addr of
        Panic \<Rightarrow> Some Panic
      | Err e \<Rightarrow> Some (Err e)
      | Ok (host, portStr) \<Rightarrow>
          (case parseInt64 portStr of
             None \<Rightarrow> Some (Err (Errorf ''strconv.Atoi''))
           | Some port \<Rightarrow>
               (case dial proxyAddr of
                  Panic \<Rightarrow> Some Panic
                | Err e \<Rightarrow> Some (Err e)
                | Ok conn \<Rightarrow>
                    (case bind (wr [5, 0]) (\<lambda>_.
                          bind (readFull rd 2) (\<lambda>hsAck.
                          if hsAck ! 0 \<noteq> 5 \<or> hsAck ! 1 \<noteq> 0 then throw (Errorf ''socks5 handshake failed.'')
                          else
                            bind (wr (s5Request host port)) (\<lambda>_.
                            bind (readFull rd 10) (\<lambda>s5reqAck.
                            if s5reqAck ! 0 \<noteq> 5 then throw (Errorf ''wrong version.'')
                            else if s5reqAck ! 3 \<noteq> 1 then throw (Errorf ''server side failed.'')
                            else ret ())))) conn of
                       None \<Rightarrow> None
                     | Some (Ok u, conn') \<Rightarrow> Some (Ok conn')
                     | Some (Err e, conn') \<Rightarrow> Some (Err e)
                     | Some (Panic, conn') \<Rightarrow> Some Panic))))"

section \<open>Runs over a connection\<close>

text \<open>\<open>runs m c out x c' out'\<close>: on every connection, whatever its segments, whose stream is \<open>c\<close> and to which
  \<open>out\<close> was written, \<open>m\<close> returns \<open>x\<close> and leaves the stream \<open>c'\<close> and the output \<open>out'\<close>.\<close>

abbreviation duplexIn :: "duplex \<Rightarrow> bytes" where
  "duplexIn s \<equiv> concat (fst s)"

definition stands :: "duplex bufio \<Rightarrow> bytes \<Rightarrow> bytes \<Rightarrow> bool" where
  "stands r c out \<longleftrightarrow> [] \<notin> set (fst (bio_rd r)) \<and> snd (bio_rd r) = out \<and> bioContent duplexIn r = c"

definition runs :: "('a, duplex bufio) io \<Rightarrow> bytes \<Rightarrow> bytes \<Rightarrow> 'a res \<Rightarrow> bytes \<Rightarrow> bytes \<Rightarrow> bool" where
  "runs m c out x c' out' \<longleftrightarrow> (\<forall>r. stands r c out \<longrightarrow> (\<exists>r'. m r = Some (x, r') \<and> stands r' c' out'))"

lemma runsI: "(\<And>r. stands r c out \<Longrightarrow> \<exists>r'. m r = Some (x, r') \<and> stands r' c' out') \<Longrightarrow> runs m c out x c' out'"
  by (simp add: runs_def)

lemma runsE:
  assumes "runs m c out x c' out'" and "stands r c out"
  obtains r' where "m r = Some (x, r')" and "stands r' c' out'"
  using assms unfolding runs_def by blast

lemma runs_ret: "runs (ret x) c out (Ok x) c out"
  by (rule runsI) (simp add: io_simps)

lemma runs_throw: "runs (throw e) c out (Err e) c out"
  by (rule runsI) (simp add: io_simps)

lemma runs_panic: "runs panic c out Panic c out"
  by (rule runsI) (simp add: io_simps)

lemma runs_lift: "runs (lift x) c out x c out"
  by (rule runsI) (simp add: io_simps)

lemma runs_bind:
  assumes "runs m c out (Ok x) c1 out1" and "runs (k x) c1 out1 y c2 out2"
  shows "runs (bind m k) c out y c2 out2"
  using assms unfolding runs_def by (metis bind_Ok)

lemma runs_bind_err:
  assumes "runs m c out (Err e) c1 out1"
  shows "runs (bind m k) c out (Err e) c1 out1"
  using assms unfolding runs_def by (metis bind_Err)

lemma runs_bind_panic:
  assumes "runs m c out Panic c1 out1"
  shows "runs (bind m k) c out Panic c1 out1"
  using assms unfolding runs_def by (metis bind_Panic)

lemma runs_readByte: "runs (bio_ReadByte duplexRead) c out (case c of [] \<Rightarrow> Err EOF | b # bs \<Rightarrow> Ok b) (drop 1 c) out"
proof (rule runsI)
  fix r
  assume "stands r c out"
  then have r: "[] \<notin> set (fst (bio_rd r)) \<and> snd (bio_rd r) = out" "bioContent duplexIn r = c"
    by (simp_all add: stands_def)
  from bdup.ReadByte_spec [OF r(1)] r(2)
  show "\<exists>r'. bio_ReadByte duplexRead r = Some (case c of [] \<Rightarrow> Err EOF | b # bs \<Rightarrow> Ok b, r') \<and> stands r' (drop 1 c) out"
    by (auto simp: stands_def)
qed

lemma runs_peek: "runs (bio_Peek1 duplexRead) c out (case c of [] \<Rightarrow> Err EOF | b # bs \<Rightarrow> Ok b) c out"
proof (rule runsI)
  fix r
  assume "stands r c out"
  then have r: "[] \<notin> set (fst (bio_rd r)) \<and> snd (bio_rd r) = out" "bioContent duplexIn r = c"
    by (simp_all add: stands_def)
  from bdup.Peek1_spec [OF r(1)] r(2)
  show "\<exists>r'. bio_Peek1 duplexRead r = Some (case c of [] \<Rightarrow> Err EOF | b # bs \<Rightarrow> Ok b, r') \<and> stands r' c out"
    by (auto simp: stands_def)
qed

lemma runs_readFull: "runs (readFull (bio_Read duplexRead) n) c out (fullSpec n c) (drop n c) out"
proof (rule runsI)
  fix r
  assume "stands r c out"
  then have r: "[] \<notin> set (fst (bio_rd r)) \<and> snd (bio_rd r) = out" "bioContent duplexIn r = c"
    by (simp_all add: stands_def)
  from bdup.bio.full.rf_spec [OF r(1), of n] r(2)
  show "\<exists>r'. readFull (bio_Read duplexRead) n r = Some (fullSpec n c, r') \<and> stands r' (drop n c) out"
    by (auto simp: stands_def)
qed

lemma runs_write: "runs (bioWrite duplexWrite d) c out (Ok (length d)) c (out @ d)"
  by (rule runsI) (auto simp: stands_def bioWrite_def duplexWrite_def bioContent_def)

lemma runs_ignoreErr: "runs (ignoreErr (bioWrite duplexWrite d)) c out (Ok ()) c (out @ d)"
  by (rule runsI) (auto simp: ignoreErr_def stands_def bioWrite_def duplexWrite_def bioContent_def)

text \<open>The same on streams of a known shape.\<close>

lemma runs_next: "runs (bio_ReadByte duplexRead) (b # c) out (Ok b) c out"
  using runs_readByte [of "b # c" out] by simp

lemma runs_take: "length d = n \<Longrightarrow> runs (readFull (bio_Read duplexRead) n) (d @ c) out (Ok d) c out"
  using runs_readFull [of n "d @ c" out] by (simp add: fullSpec_def)

section \<open>Every input\<close>

text \<open>An operation that, whatever the stream, returns a result that depends on the stream only, and that panics
  only if \<open>q\<close>.\<close>

definition steady :: "bool \<Rightarrow> ('a, duplex bufio) io \<Rightarrow> bool" where
  "steady q m \<longleftrightarrow> (\<forall>c out. \<exists>x c' out'. runs m c out x c' out' \<and> (x = Panic \<longrightarrow> q))"

lemma steadyI: "(\<And>c out. runs m c out (f c) (g c) (h out)) \<Longrightarrow> (\<And>c. f c \<noteq> Panic) \<Longrightarrow> steady q m"
  unfolding steady_def by metis

lemma steady_bind:
  assumes "steady q m" and "\<And>x. steady q (k x)"
  shows "steady q (bind m k)"
  unfolding steady_def
proof (intro allI)
  fix c out
  obtain x c1 out1 where m: "runs m c out x c1 out1" "x = Panic \<Longrightarrow> q"
    using assms(1) unfolding steady_def by blast
  show "\<exists>y c' out'. runs (bind m k) c out y c' out' \<and> (y = Panic \<longrightarrow> q)"
  proof (cases x)
    case (Ok v)
    obtain y c2 out2 where y: "runs (k v) c1 out1 y c2 out2" "y = Panic \<longrightarrow> q"
      using assms(2) [of v] unfolding steady_def by blast
    from runs_bind [where k = k, OF m(1) [unfolded Ok] y(1)] y(2) show ?thesis
      by blast
  qed (use m runs_bind_err runs_bind_panic in blast)+
qed

lemma steady_ops:
  "steady q (bio_ReadByte duplexRead)" "steady q (bio_Peek1 duplexRead)" "steady q (readFull (bio_Read duplexRead) n)"
  "steady q (bioWrite duplexWrite d)" "steady q (ignoreErr (bioWrite duplexWrite d))" "steady q (ret v)" "steady q (throw e)"
  by (rule steadyI, rule runs_readByte runs_peek runs_readFull runs_write runs_ignoreErr runs_ret runs_throw,
      simp add: fullSpec_def split: list.split)+

lemma steady_panic: "q \<Longrightarrow> steady q panic"
  unfolding steady_def using runs_panic by blast

lemma steady_lift: "(x = Panic \<Longrightarrow> q) \<Longrightarrow> steady q (lift x)"
  unfolding steady_def using runs_lift by blast

lemma steady_readAuths: "steady q (readAuths duplexRead n)"
  by (induction n) (auto intro!: steady_bind steady_ops)

lemma steady_Handshake: "steady q (Handshake duplexRead duplexWrite)"
  unfolding Handshake_def by (auto intro!: steady_bind steady_readAuths steady_ops)

lemma steady_readAddr: "steady q (readAddr duplexRead atyp)"
  unfolding readAddr_def by (auto intro!: steady_bind steady_ops)

definition backendPanics :: "(string \<Rightarrow> Values \<Rightarrow> 'b res) \<Rightarrow> ('b \<Rightarrow> string \<Rightarrow> string \<Rightarrow> 'c res) \<Rightarrow> 'b Options \<Rightarrow> bool" where
  "backendPanics getBackend dial options \<longleftrightarrow> op_BackendProvider options = ProviderPanics \<or> (\<exists>suit params. getBackend suit params = Panic) \<or> (\<exists>b n a. dial b n a = Panic)"

lemma steady_serveTarget:
  "steady (backendPanics getBackend dial options) (serveTarget getBackend direct dial options duplexWrite ver dst portb)"
proof -
  have "backendPanics getBackend dial options" if "chooseLinker getBackend direct options isLocal = Panic" for isLocal
    using that unfolding chooseLinker_def backendPanics_def by (auto split: provider.splits option.splits if_splits)
  moreover have "backendPanics getBackend dial options" if "dial b n a = Panic" for b n a
    using that unfolding backendPanics_def by blast
  ultimately show ?thesis
    unfolding serveTarget_def Let_def
    by (auto intro!: steady_bind steady_ops steady_lift steady_panic split: prod.split res.split)
qed

lemma steady_HandleRequest:
  "steady (backendPanics getBackend dial options) (HandleRequest getBackend direct dial options duplexRead duplexWrite)"
  unfolding HandleRequest_def by (auto intro!: steady_bind steady_readAddr steady_serveTarget steady_ops)

lemma stands_NewReader: "[] \<notin> set segs \<Longrightarrow> stands (NewReader (segs, out)) (concat segs) out"
  by (simp add: stands_def)

section \<open>Requests\<close>

text \<open>The address field of a request: host, and whether it is an address that is not proxied.\<close>

definition s5Addr :: "byte \<Rightarrow> bytes \<Rightarrow> (string \<times> bool) option" where
  "s5Addr atyp a =
     (if (atyp = 1 \<and> length a = 4) \<or> (atyp = 4 \<and> length a = 16)
      then Some (ipString (Some a), \<not> IsLegitProxiableIP (Some a))
      else if atyp = 3 \<and> a \<noteq> [] \<and> length (tl a) = unat (hd a) then Some (string_of (tl a), False)
      else None)"

text \<open>What a complete request leads to, and the reply: a provider decides, or else whether the host is local.\<close>

definition s5Linker :: "(string \<Rightarrow> Values \<Rightarrow> 'b res) \<Rightarrow> 'b \<Rightarrow> 'b Options \<Rightarrow> bool \<Rightarrow> 'b res" where
  "s5Linker getBackend direct options isLocal =
     (case op_BackendProvider options of
        ProviderPanics \<Rightarrow> Panic
      | Provides (Some b) \<Rightarrow> Ok b
      | _ \<Rightarrow> if isLocal then Ok direct else getBackend (op_ProtocolSuit options) (op_ProtocolParams options))"

lemma chooseLinker_spec: "chooseLinker getBackend direct options isLocal = s5Linker getBackend direct options isLocal"
  by (simp add: chooseLinker_def s5Linker_def split: provider.split option.split)

definition s5Outcome :: "(string \<Rightarrow> Values \<Rightarrow> 'b res) \<Rightarrow> 'b \<Rightarrow> ('b \<Rightarrow> string \<Rightarrow> string \<Rightarrow> 'c res) \<Rightarrow> 'b Options \<Rightarrow>
    string \<times> bool \<Rightarrow> nat \<Rightarrow> 'c res \<times> bytes" where
  "s5Outcome getBackend direct dial options hl port =
     (case s5Linker getBackend direct options (snd hl) of
        Panic \<Rightarrow> (Panic, [])
      | Err e \<Rightarrow> (Err e, [])
      | Ok linker \<Rightarrow>
          (case dial linker ''tcp'' (fst hl @ '':'' @ showNat port) of
             Panic \<Rightarrow> (Panic, [])
           | Err e \<Rightarrow> (Err e, [5, 4, 0, 0, 0, 0])
           | Ok up \<Rightarrow> (Ok up, [5, 0, 0, 1, 0, 0, 0, 0, 0, 0])))"

definition s5Served :: "'c res \<Rightarrow> 'c option res" where
  "s5Served x = (case x of Ok up \<Rightarrow> Ok (Some up) | Err e \<Rightarrow> Ok None | Panic \<Rightarrow> Panic)"

lemma runs_readAddr:
  assumes "s5Addr atyp a = Some hl"
  shows "runs (readAddr duplexRead atyp) (a @ c) out (Ok hl) c out"
proof (cases "atyp = 3")
  case True
  with assms obtain l d where a: "a = l # d" "length d = unat l" "hl = (string_of d, False)"
    by (cases a) (auto simp: s5Addr_def split: if_splits)
  have "runs (bind (bio_ReadByte duplexRead) (\<lambda>sizeb.
      bind (readFull (bio_Read duplexRead) (unat sizeb)) (\<lambda>nameb. ret (string_of nameb, False)))) (l # d @ c) out (Ok hl) c out"
    by (rule runs_bind [OF runs_next runs_bind [OF runs_take]]) (use a runs_ret in auto)
  with a True show ?thesis
    by (simp add: readAddr_def)
next
  case False
  with assms have a: "(atyp = 1 \<and> length a = 4) \<or> (atyp = 4 \<and> length a = 16)" "hl = (ipString (Some a), \<not> IsLegitProxiableIP (Some a))"
    by (auto simp: s5Addr_def split: if_splits)
  have "runs (bind (readFull (bio_Read duplexRead) (length a)) (\<lambda>ip. ret (ipString (Some ip), \<not> IsLegitProxiableIP (Some ip))))
      (a @ c) out (Ok hl) c out"
    using runs_bind [OF runs_take [OF refl] runs_ret] a(2) by fastforce
  with a(1) show ?thesis
    by (auto simp: readAddr_def)
qed

lemma runs_readAuths: "runs (readAuths duplexRead (length auths)) (auths @ c) out (Ok ()) c out"
proof (induction auths)
  case Nil
  then show ?case by (simp add: runs_ret)
next
  case (Cons b auths)
  from runs_bind [OF runs_next Cons.IH] show ?case
    by simp
qed

lemma runs_Handshake:
  assumes "length auths < 256"
  shows "runs (Handshake duplexRead duplexWrite) ([5, of_nat (length auths)] @ auths @ c) out (Ok ()) c (out @ [5, 0])"
proof -
  have "runs (bind (readAuths duplexRead (length auths)) (\<lambda>_. ignoreErr (bioWrite duplexWrite [5, 0]))) (auths @ c) out (Ok ()) c (out @ [5, 0])"
    by (rule runs_bind [OF runs_readAuths runs_ignoreErr])
  then have "runs (bind (bio_ReadByte duplexRead) (\<lambda>nauth. bind (readAuths duplexRead (unat nauth)) (\<lambda>_. ignoreErr (bioWrite duplexWrite [5, 0]))))
      (of_nat (length auths) # auths @ c) out (Ok ()) c (out @ [5, 0])"
    by (intro runs_bind [OF runs_next]) (simp add: unat_of_nat8 assms)
  then show ?thesis
    unfolding Handshake_def append_Cons append_Nil by (intro runs_bind [OF runs_next]) simp
qed

lemma runs_serveTarget:
  "runs (serveTarget getBackend direct dial options duplexWrite 5 hl [p1, p0]) c out
    (fst (s5Outcome getBackend direct dial options hl (unat p1 * 256 + unat p0))) c
    (out @ snd (s5Outcome getBackend direct dial options hl (unat p1 * 256 + unat p0)))"
proof -
  let ?p = "unat p1 * 256 + unat p0"
  have ok: "runs (bind (bioWrite duplexWrite d) (\<lambda>_. ret u)) c out (Ok u) c (out @ d)" for d and u :: 'c
    by (rule runs_bind [OF runs_write runs_ret])
  have err: "runs (bind (ignoreErr (bioWrite duplexWrite d)) (\<lambda>_. throw e)) c out (Err e :: 'c res) c (out @ d)" for d e
    by (rule runs_bind [OF runs_ignoreErr runs_throw])
  obtain host local where hl: "hl = (host, local)"
    by fastforce
  show ?thesis
  proof (cases "s5Linker getBackend direct options local")
    case (Ok l)
    show ?thesis
      by (cases "dial l ''tcp'' (host @ '':'' @ showNat ?p)")
        (use Ok ok err runs_panic in \<open>simp_all add: hl serveTarget_def s5Outcome_def chooseLinker_spec\<close>)
  next
    case (Err e)
    then show ?thesis
      by (auto simp: hl serveTarget_def s5Outcome_def chooseLinker_spec intro: runs_bind_err runs_lift)
  next
    case Panic
    then show ?thesis
      by (auto simp: hl serveTarget_def s5Outcome_def chooseLinker_spec intro: runs_bind_panic runs_lift)
  qed
qed

lemma runs_HandleRequest:
  assumes "s5Addr atyp a = Some hl"
  shows "runs (HandleRequest getBackend direct dial options duplexRead duplexWrite) (5 # 1 # rsv # atyp # a @ [p1, p0] @ c) out
    (fst (s5Outcome getBackend direct dial options hl (unat p1 * 256 + unat p0))) c
    (out @ snd (s5Outcome getBackend direct dial options hl (unat p1 * 256 + unat p0)))"
proof -
  have port: "runs (readFull (bio_Read duplexRead) 2) ([p1, p0] @ c) out (Ok [p1, p0]) c out"
    by (rule runs_take) simp
  show ?thesis
    unfolding HandleRequest_def
    by (rule runs_bind [OF runs_next], simp only: simp_thms if_False, rule runs_bind [OF runs_next], simp only: simp_thms if_False,
      rule runs_bind [OF runs_next], rule runs_bind [OF runs_next], rule runs_bind [OF runs_readAddr [OF assms]],
      rule runs_bind [OF port], rule runs_serveTarget)
qed

text \<open>A whole connection.\<close>

lemma handleConn_runs:
  assumes "[] \<notin> set segs" and "concat segs = 5 # c"
    and "runs (Handshake duplexRead duplexWrite) (5 # c) [] (Ok ()) c1 out1"
    and "runs (HandleRequest getBackend direct dial options duplexRead duplexWrite) c1 out1 x c2 out2"
  shows "\<exists>r. handleConn getBackend direct dial options duplexRead duplexWrite (segs, []) = Some (s5Served x, r) \<and> stands r c2 out2"
proof -
  have "runs (bind (bio_Peek1 duplexRead) (\<lambda>ver.
      if ver \<noteq> 5 then throw (Errorf ''incompatible version'')
      else bind (Handshake duplexRead duplexWrite) (\<lambda>_. HandleRequest getBackend direct dial options duplexRead duplexWrite)))
      (5 # c) [] x c2 out2"
    by (rule runs_bind [OF runs_peek [of "5 # c", simplified]], simp only: simp_thms if_False, rule runs_bind [OF assms(3,4)])
  moreover have "stands (NewReader (segs, [])) (5 # c) []"
    using stands_NewReader [OF assms(1), of "[]"] assms(2) by simp
  ultimately obtain r where "bind (bio_Peek1 duplexRead) (\<lambda>ver.
      if ver \<noteq> 5 then throw (Errorf ''incompatible version'')
      else bind (Handshake duplexRead duplexWrite) (\<lambda>_. HandleRequest getBackend direct dial options duplexRead duplexWrite))
      (NewReader (segs, [])) = Some (x, r)" "stands r c2 out2"
    by (rule runsE)
  then show ?thesis
    unfolding handleConn_def by (cases x) (simp_all add: s5Served_def)
qed

lemma handleConn_request:
  assumes "[] \<notin> set segs" and "length auths < 256" and "s5Addr atyp a = Some hl"
    and "concat segs = [5, of_nat (length auths)] @ auths @ [5, 1, rsv, atyp] @ a @ [p1, p0] @ rest"
  shows "\<exists>r. handleConn getBackend direct dial options duplexRead duplexWrite (segs, []) =
      Some (s5Served (fst (s5Outcome getBackend direct dial options hl (unat p1 * 256 + unat p0))), r) \<and>
    stands r rest ([5, 0] @ snd (s5Outcome getBackend direct dial options hl (unat p1 * 256 + unat p0)))"
proof (rule handleConn_runs [OF assms(1)])
  show "concat segs = 5 # of_nat (length auths) # auths @ 5 # 1 # rsv # atyp # a @ [p1, p0] @ rest"
    using assms(4) by simp
  show "runs (Handshake duplexRead duplexWrite) (5 # of_nat (length auths) # auths @ 5 # 1 # rsv # atyp # a @ [p1, p0] @ rest) [] (Ok ())
      (5 # 1 # rsv # atyp # a @ [p1, p0] @ rest) [5, 0]"
    using runs_Handshake [OF assms(2), of "5 # 1 # rsv # atyp # a @ [p1, p0] @ rest" "[]"] by simp
  show "runs (HandleRequest getBackend direct dial options duplexRead duplexWrite) (5 # 1 # rsv # atyp # a @ [p1, p0] @ rest) [5, 0]
      (fst (s5Outcome getBackend direct dial options hl (unat p1 * 256 + unat p0))) rest
      ([5, 0] @ snd (s5Outcome getBackend direct dial options hl (unat p1 * 256 + unat p0)))"
    by (rule runs_HandleRequest [OF assms(3)])
qed

section \<open>The client's request\<close>

lemma s5Request_bytes:
  "s5Request host port =
    (case ParseIP host of
       Some ip \<Rightarrow> [5, 1, 0, 4] @ ip @ putUint16 (of_int port)
     | None \<Rightarrow> [5, 1, 0, 3] @ (of_nat (length host) # bytes_of host) @ putUint16 (of_int port))"
proof (cases "ParseIP host")
  case None
  have t5: "take (5 + n) (b0 # b1 # b2 # b3 # b4 # d) = b0 # b1 # b2 # b3 # b4 # take n d" for n and b0 b1 b2 b3 b4 :: byte and d
    by (simp add: eval_nat_numeral)
  have z: "zeros (4 + 1 + length host + 2) = 0 # 0 # 0 # 0 # 0 # zeros (length host + 2)"
    by (simp add: zeros_def eval_nat_numeral)
  show ?thesis
    by (simp only: s5Request_def None option.case Let_def simp_thms if_True if_False z)
      (simp add: copyAt_def gocopy_def zeros_def t5)
next
  case (Some ip)
  then have ip: "length ip = 16"
    by (rule ParseIP_length)
  have z: "zeros (4 + length ip + 2) = 0 # 0 # 0 # 0 # zeros (length ip + 2)"
    by (simp add: zeros_def eval_nat_numeral)
  show ?thesis
    by (simp only: s5Request_def Some option.case option.distinct Let_def simp_thms if_True if_False z)
      (simp add: copyAt_def gocopy_def zeros_def ip)
qed

text \<open>The host that the server makes of the request of the client.\<close>

definition s5Target :: "string \<Rightarrow> string \<times> bool" where
  "s5Target host =
     (case ParseIP host of
        Some ip \<Rightarrow> (ipString (Some ip), \<not> IsLegitProxiableIP (Some ip))
      | None \<Rightarrow> (host, False))"

lemma putUint16_bytes:
  assumes "0 \<le> port" and "port < 65536"
  obtains p1 p0 where "putUint16 (of_int port) = [p1, p0]" and "unat p1 * 256 + unat p0 = nat port"
proof -
  define n where "n = nat port"
  have n: "port = int n" "n < 65536"
    using assms by (simp_all add: n_def nat_less_iff)
  have "unat (of_nat (n div 256) :: byte) * 256 + unat (of_nat n :: byte) = n"
    using n(2) by (simp add: unat_of_nat div_less_iff_less_mult)
  then show thesis
    using that [of "of_nat (n div 256)" "of_nat n"] n by (simp add: putUint16_def be_2 unat_of_nat16)
qed

lemma s5Request_shape:
  assumes "length host < 256" and "0 \<le> port" and "port < 65536"
  obtains atyp a p1 p0 where "s5Request host port = [5, 1, 0, atyp] @ a @ [p1, p0]" and "s5Addr atyp a = Some (s5Target host)"
    and "unat p1 * 256 + unat p0 = nat port"
proof -
  obtain p1 p0 where p: "putUint16 (of_int port) = [p1, p0]" "unat p1 * 256 + unat p0 = nat port"
    using putUint16_bytes [OF assms(2,3)] .
  show thesis
  proof (cases "ParseIP host")
    case None
    with p assms(1) show thesis
      by (intro that [of 3 "of_nat (length host) # bytes_of host" p1 p0])
        (simp_all add: s5Request_bytes s5Addr_def s5Target_def unat_of_nat8)
  next
    case (Some ip)
    with p ParseIP_length [OF Some] show thesis
      by (intro that [of 4 ip p1 p0]) (simp_all add: s5Request_bytes s5Addr_def s5Target_def)
  qed
qed

lemma duplex_readFull:
  assumes "concat segs = d @ c" and "length d = n"
  obtains segs' where "readFull duplexRead n (segs, out) = Some (Ok d, (segs', out))" and "concat segs' = c"
  using dup.full.rf_spec [where n = n and s = "(segs, out)" and out = out] assms by (auto simp: fullSpec_def)

section \<open>Properties\<close>

definition sampleProxy :: "string Options" where
  "sampleProxy = \<lparr>op_Port = 1080, op_ProtocolSuit = ''h1'', op_ProtocolParams = Map.empty, op_BackendProvider = NoProvider\<rparr>"


text \<open>C13. A socks5 request means what RFC 1928 says: for every list of authentication methods, every address form
  and every segmentation of the connection, the server answers the greeting with \<open>5 0\<close>, dials host
  and port of the request through the chosen backend (an address that must not be proxied goes to the
  direct one), reports success or failure with the reply of the outcome, and has consumed exactly
  the request.\<close>

theorem socks5_request:
  assumes "[] \<notin> set segs" and "length auths < 256" and "s5Addr atyp a = Some (host, isLocal)"
    and "concat segs = [5, of_nat (length auths)] @ auths @ [5, 1, rsv, atyp] @ a @ [p1, p0] @ rest"
  shows "\<exists>r. handleConn getBackend direct dial options duplexRead duplexWrite (segs, []) =
      Some (s5Served (fst (s5Outcome getBackend direct dial options (host, isLocal) (unat p1 * 256 + unat p0))), r) \<and>
    snd (bio_rd r) = [5, 0] @ snd (s5Outcome getBackend direct dial options (host, isLocal) (unat p1 * 256 + unat p0)) \<and>
    bio_buf r @ concat (fst (bio_rd r)) = rest"
  using handleConn_request [OF assms, of getBackend direct dial options] by (auto simp: stands_def bioContent_def)

theorem socks5_request_witness:
  "\<exists>r. handleConn (\<lambda>suit params. Ok suit) ''direct'' (\<lambda>b n a. Ok (b, n, a))
      sampleProxy duplexRead duplexWrite
      ([[5, 1], [0, 5, 1, 0, 1, 10], [0, 0, 1, 0, 80, 7]], []) = Some (Ok (Some (''direct'', ''tcp'', ''10.0.0.1:80'')), r) \<and>
    snd (bio_rd r) = [5, 0, 5, 0, 0, 1, 0, 0, 0, 0, 0, 0] \<and> bio_buf r @ concat (fst (bio_rd r)) = [7]"
proof -
  have a: "s5Addr 1 [10, 0, 0, 1] = Some (''10.0.0.1'', True)"
    by code_simp
  have "showNat 80 = ''80''"
    by code_simp
  then have o: "s5Outcome (\<lambda>suit params. Ok suit) ''direct'' (\<lambda>b n a. Ok (b, n, a)) sampleProxy (''10.0.0.1'', True) 80 =
      (Ok (''direct'', ''tcp'', ''10.0.0.1:80''), [5, 0, 0, 1, 0, 0, 0, 0, 0, 0])"
    by (simp add: s5Outcome_def s5Linker_def sampleProxy_def)
  have "concat [[5, 1], [0, 5, 1, 0, 1, 10], [0, 0, 1, 0, 80, 7]] =
      [5, of_nat (length [0 :: byte])] @ [0] @ [5, 1, 0, 1] @ [10, 0, 0, 1] @ [0, 80] @ [7 :: byte]"
    by simp
  from socks5_request [OF _ _ a this, of "\<lambda>suit params. Ok suit" "''direct''" "\<lambda>b n a. Ok (b, n, a)" sampleProxy]
  show ?thesis
    by (simp add: o s5Served_def)
qed

lemma connect_serves:
  assumes "net_SplitHostPort addr = Ok (host, portStr)" and "parseInt64 portStr = Some port"
    and "0 \<le> port" and "port < 65536" and "length host < 256"
    and "s5Linker getBackend direct options (snd (s5Target host)) = Ok linker"
    and "dial linker ''tcp'' (fst (s5Target host) @ '':'' @ showNat (nat port)) = Ok upConn"
  shows "\<exists>req resp. (\<forall>segs. concat segs = req \<and> [] \<notin> set segs \<longrightarrow>
      (\<exists>r. handleConn getBackend direct dial options duplexRead duplexWrite (segs, []) = Some (Ok (Some upConn), r) \<and>
        snd (bio_rd r) = resp \<and> bio_buf r @ concat (fst (bio_rd r)) = [])) \<and>
    (\<forall>segs. concat segs = resp \<longrightarrow>
      (\<exists>left. Socks5Connect (\<lambda>_. Ok (segs, [])) duplexRead duplexWrite proxyAddr addr = Some (Ok (left, req)) \<and> concat left = []))"
proof -
  obtain atyp a p1 p0 where q: "s5Request host port = [5, 1, 0, atyp] @ a @ [p1, p0]" "s5Addr atyp a = Some (s5Target host)"
    "unat p1 * 256 + unat p0 = nat port"
    using s5Request_shape [OF assms(5,3,4)] by blast
  define resp where "resp = [5, 0] @ [5, 0, 0, 1, 0, 0, 0, 0, 0, 0 :: byte]"
  have outcome: "s5Outcome getBackend direct dial options (s5Target host) (unat p1 * 256 + unat p0) =
      (Ok upConn, [5, 0, 0, 1, 0, 0, 0, 0, 0, 0])"
    by (simp only: q(3) s5Outcome_def assms(6,7) res.case)
  have "\<exists>r. handleConn getBackend direct dial options duplexRead duplexWrite (segs, []) = Some (Ok (Some upConn), r) \<and>
      snd (bio_rd r) = resp \<and> bio_buf r @ concat (fst (bio_rd r)) = []"
    if "concat segs = [5, 0] @ s5Request host port" "[] \<notin> set segs" for segs
  proof -
    have c: "concat segs = [5, of_nat (length ([] :: bytes))] @ [] @ [5, 1, 0, atyp] @ a @ [p1, p0] @ []"
      using that(1) q(1) by simp
    from handleConn_request [OF that(2) _ q(2) c, of getBackend direct dial options] outcome show ?thesis
      by (auto simp: stands_def bioContent_def resp_def s5Served_def)
  qed
  moreover have "\<exists>left. Socks5Connect (\<lambda>_. Ok (segs, [])) duplexRead duplexWrite proxyAddr addr =
      Some (Ok (left, [5, 0] @ s5Request host port)) \<and> concat left = []" if "concat segs = resp" for segs
  proof -
    have c: "concat segs = [5, 0] @ [5, 0, 0, 1, 0, 0, 0, 0, 0, 0]"
      using that by (simp add: resp_def)
    obtain segs1 where s1: "readFull duplexRead 2 (segs, [5, 0]) = Some (Ok [5, 0], (segs1, [5, 0]))"
      "concat segs1 = [5, 0, 0, 1, 0, 0, 0, 0, 0, 0] @ []"
      by (rule duplex_readFull [OF c, of 2]) simp_all
    obtain segs2 where "readFull duplexRead 10 (segs1, [5, 0] @ s5Request host port) =
        Some (Ok [5, 0, 0, 1, 0, 0, 0, 0, 0, 0], (segs2, [5, 0] @ s5Request host port))" "concat segs2 = []"
      by (rule duplex_readFull [OF s1(2), of 10]) simp_all
    with s1(1) show ?thesis
      by (simp add: Socks5Connect_def assms(1,2) bind_def duplexWrite_def io_simps)
  qed
  ultimately show ?thesis
    by blast
qed

text \<open>C23. The connector and the server fit: for a target with a host of at most 255 bytes and a port, the server
  dials the host (an IP address in its canonical form) and the port, whatever the segmentation of the
  connector's bytes; and when that succeeds the connector returns its connection, having written
  exactly the bytes the server read, whatever the segmentation of the server's answer.\<close>

theorem socks5_connect:
  assumes "net_SplitHostPort addr = Ok (host, portStr)" and "parseInt64 portStr = Some port"
    and "0 \<le> port" and "port < 65536" and "length host < 256"
    and "s5Linker getBackend direct options (snd (s5Target host)) = Ok linker"
    and "dial linker ''tcp'' (fst (s5Target host) @ '':'' @ showNat (nat port)) = Ok upConn"
  shows "\<exists>req resp. (\<forall>segs. concat segs = req \<and> [] \<notin> set segs \<longrightarrow>
      (\<exists>r. handleConn getBackend direct dial options duplexRead duplexWrite (segs, []) = Some (Ok (Some upConn), r) \<and>
        snd (bio_rd r) = resp \<and> bio_buf r @ concat (fst (bio_rd r)) = [])) \<and>
    (\<forall>segs. concat segs = resp \<longrightarrow>
      (\<exists>left. Socks5Connect (\<lambda>_. Ok (segs, [])) duplexRead duplexWrite proxyAddr addr = Some (Ok (left, req)) \<and> concat left = []))"
  using assms by (intro connect_serves [where dial = dial])

theorem socks5_connect_witness:
  "\<exists>req resp. (\<forall>segs. concat segs = req \<and> [] \<notin> set segs \<longrightarrow>
      (\<exists>r. handleConn (\<lambda>suit params. Ok suit) ''direct'' (\<lambda>b n a. Ok (b, n, a))
          sampleProxy
          duplexRead duplexWrite (segs, []) = Some (Ok (Some (''h1'', ''tcp'', ''example.com:443'')), r) \<and>
        snd (bio_rd r) = resp \<and> bio_buf r @ concat (fst (bio_rd r)) = [])) \<and>
    (\<forall>segs. concat segs = resp \<longrightarrow>
      (\<exists>left. Socks5Connect (\<lambda>_. Ok (segs, [])) duplexRead duplexWrite ''proxy:1080'' ''example.com:443'' = Some (Ok (left, req)) \<and>
        concat left = []))"
proof (rule socks5_connect)
  show "net_SplitHostPort ''example.com:443'' = Ok (''example.com'', ''443'')"
    by code_simp
  show "parseInt64 ''443'' = Some 443"
    by (simp add: parseInt64_def parseDigits_def isDigit_def)
  have t: "s5Target ''example.com'' = (''example.com'', False)"
    by code_simp
  show "s5Linker (\<lambda>suit params. Ok suit) ''direct''
      sampleProxy
      (snd (s5Target ''example.com'')) = Ok ''h1''"
    by (simp add: t s5Linker_def sampleProxy_def)
  have "showNat (nat 443) = ''443''"
    by code_simp
  then show "Ok (''h1'', ''tcp'', fst (s5Target ''example.com'') @ '':'' @ showNat (nat 443)) = Ok (''h1'', ''tcp'', ''example.com:443'')"
    by (simp add: t)
qed simp_all

text \<open>C26. On every input, well-formed or not, the server returns, with a result, an output and an unread rest that
  depend on the bytes of the client only and not on how the network cuts them; it panics only when a
  backend does.\<close>

theorem socks5_total:
  assumes "[] \<notin> set segs" and "[] \<notin> set segs'" and "concat segs = concat segs'"
  shows "\<exists>x r r'. handleConn getBackend direct dial options duplexRead duplexWrite (segs, []) = Some (x, r) \<and>
    handleConn getBackend direct dial options duplexRead duplexWrite (segs', []) = Some (x, r') \<and>
    snd (bio_rd r) = snd (bio_rd r') \<and> bio_buf r @ concat (fst (bio_rd r)) = bio_buf r' @ concat (fst (bio_rd r')) \<and>
    (x = Panic \<longrightarrow> backendPanics getBackend dial options)"
proof -
  let ?m = "bind (bio_Peek1 duplexRead) (\<lambda>ver.
      if ver \<noteq> 5 then throw (Errorf ''incompatible version'')
      else bind (Handshake duplexRead duplexWrite) (\<lambda>_. HandleRequest getBackend direct dial options duplexRead duplexWrite))"
  have "steady (backendPanics getBackend dial options) ?m"
    by (auto intro!: steady_bind steady_Handshake steady_HandleRequest steady_ops)
  then obtain x c out where m: "runs ?m (concat segs) [] x c out" and q: "x = Panic \<longrightarrow> backendPanics getBackend dial options"
    unfolding steady_def by blast
  obtain r where r: "?m (NewReader (segs, [])) = Some (x, r)" "stands r c out"
    by (rule runsE [OF m stands_NewReader [OF assms(1)]])
  obtain r' where r': "?m (NewReader (segs', [])) = Some (x, r')" "stands r' c out"
    by (rule runsE [OF m [unfolded assms(3)] stands_NewReader [OF assms(2)]])
  from r r' q show ?thesis
    by (cases x) (auto simp: handleConn_def stands_def bioContent_def)
qed

theorem socks5_total_witness:
  "\<exists>x r r'. handleConn (\<lambda>suit params. Ok suit) ''direct'' (\<lambda>b n a. Ok a) sampleProxy duplexRead duplexWrite ([[5, 1, 0, 5, 2]], []) = Some (x, r) \<and>
    handleConn (\<lambda>suit params. Ok suit) ''direct'' (\<lambda>b n a. Ok a) sampleProxy duplexRead duplexWrite ([[5], [1, 0], [5, 2]], []) = Some (x, r') \<and>
    snd (bio_rd r) = snd (bio_rd r')"
proof -
  have "[] \<notin> set [[5, 1, 0, 5, 2 :: byte]]" "[] \<notin> set [[5], [1, 0], [5, 2 :: byte]]" "concat [[5, 1, 0, 5, 2 :: byte]] = concat [[5], [1, 0], [5, 2]]"
    by simp_all
  from socks5_total [OF this, of "\<lambda>suit params. Ok suit" "''direct''" "\<lambda>b n a. Ok a" sampleProxy] show ?thesis
    by blast
qed

end
