(* ===== verification/H2s.thy ===== *)
theory H2s
  imports Socks5
begin

text \<open>
  The http(s) proxy (\<open>h2s/server.go\<close>, \<open>h2s/conf.go\<close>): it reads a request, connects to the host of its URL
  through a socks5 proxy, and answers \<open>CONNECT\<close> or passes the request on. It ends with the call of
  \<open>utils.Proxy\<close>, which is the relay of theory \<open>Relay\<close>; the model returns the connection it is started
  with. \<open>http.ReadRequest\<close> and \<open>Request.Write\<close>, the codec of HTTP requests, are arguments; the URL that
  a request line gives is \<open>requestURL\<close>. Shown here: the proxy and the socks5 server behind it dial
  the host and port of the request, and hosts that are IPv6 addresses are never reached.
\<close>

section \<open>Requests\<close>

record h2sConf =
  h_Port :: int
  h_ProxyAddr :: string

text \<open>The fields of \<open>http.Request\<close> that the proxy reads.\<close>

record request =
  rq_Method :: string
  rq_URL :: URL
  rq_Host :: string

text \<open>The URL of a request line in \<open>http.ReadRequest\<close>: the target of \<open>CONNECT\<close> may be an authority alone.\<close>

definition requestURL :: "string \<Rightarrow> string \<Rightarrow> URL option" where
  "requestURL meth rawurl =
     (let justAuthority = (meth = ''CONNECT'' \<and> \<not> hasPrefix ''/'' rawurl)
      in if justAuthority
         then map_option (\<lambda>u. u\<lparr>u_Scheme := []\<rparr>) (url_ParseRequestURI (''http://'' @ rawurl))
         else url_ParseRequestURI rawurl)"

section \<open>Connections\<close>

text \<open>Schemes of parsed URLs are ASCII.\<close>

definition targetPort :: "request \<Rightarrow> string" where
  "targetPort req =
     (let port = port_of (rq_URL req);
          port = (if length port \<le> 0
                  then (if map toLowerChar (u_Scheme (rq_URL req)) = ''https'' then ''443'' else ''80'')
                  else port)
      in if length port \<le> 0
         then (case net_SplitHostPort (rq_Host req) of Ok (h, p) \<Rightarrow> p | _ \<Rightarrow> port)
         else port)"

definition targetHostPort :: "request \<Rightarrow> string" where
  "targetHostPort req = hostname (rq_URL req) @ '':'' @ targetPort req"

definition okResponse :: bytes where
  "okResponse = bytes_of ''HTTP/1.1 200 OK'' @ [13, 10, 13, 10]"

text \<open>What follows the request: the connection to the proxy that is relayed, or \<open>None\<close> when the function returns
  before that.\<close>

definition serveRequest :: "(request \<Rightarrow> (unit, 'c) io) \<Rightarrow> (string \<Rightarrow> string \<Rightarrow> 'c res option) \<Rightarrow> 's writer \<Rightarrow>
    h2sConf \<Rightarrow> request \<Rightarrow> ('c option, 's bufio) io" where
  "serveRequest reqWrite s5Connect wr cfg req r =
     (if length (targetPort req) \<le> 0 then Some (Ok None, r)
      else case s5Connect (h_ProxyAddr cfg) (targetHostPort req) of
             None \<Rightarrow> None
           | Some Panic \<Rightarrow> Some (Panic, r)
           | Some (Err e) \<Rightarrow> Some (Ok None, r)
           | Some (Ok s5conn) \<Rightarrow>
               if equalFold (rq_Method req) ''connect'' then
                 (case bioWrite wr okResponse r of
                    None \<Rightarrow> None
                  | Some (Ok n, r') \<Rightarrow> Some (Ok (Some s5conn), r')
                  | Some (Err e, r') \<Rightarrow> Some (Ok None, r')
                  | Some (Panic, r') \<Rightarrow> Some (Panic, r'))
               else
                 (case reqWrite req s5conn of
                    None \<Rightarrow> None
                  | Some (Ok u, s5conn') \<Rightarrow> Some (Ok (Some s5conn'), r)
                  | Some (Err e, s5conn') \<Rightarrow> Some (Ok None, r)
                  | Some (Panic, s5conn') \<Rightarrow> Some (Panic, r)))"

definition h2s_handleConn :: "(request, 's bufio) io \<Rightarrow> (request \<Rightarrow> (unit, 'c) io) \<Rightarrow> (string \<Rightarrow> string \<Rightarrow> 'c res option) \<Rightarrow>
    's writer \<Rightarrow> h2sConf \<Rightarrow> 's \<Rightarrow> ('c option res \<times> 's bufio) option" where
  "h2s_handleConn readRequest reqWrite s5Connect wr cfg conn =
     (case readRequest (NewReader conn) of
        None \<Rightarrow> None
      | Some (Ok req, r) \<Rightarrow> serveRequest reqWrite s5Connect wr cfg req r
      | Some (Err e, r) \<Rightarrow> Some (Ok None, r)
      | Some (Panic, r) \<Rightarrow> Some (Panic, r))"

section \<open>The target of a request\<close>

text \<open>The host and port that the authority of a URL stands for: the port may be missing.\<close>

definition stdPort :: "URL \<Rightarrow> string" where
  "stdPort u = (if map toLowerChar (u_Scheme u) = ''https'' then ''443'' else ''80'')"

definition authorityOf :: "URL \<Rightarrow> string \<Rightarrow> string \<Rightarrow> bool" where
  "authorityOf u h p \<longleftrightarrow> (u_Host u = h @ '':'' @ p \<and> p \<noteq> []) \<or> (u_Host u \<in> {h, h @ '':''} \<and> p = stdPort u)"

lemma splitHostPort_colon:
  assumes "list_all isDigit p"
  shows "splitHostPort (b @ CHR '':'' # p) = (if hasPrefix ''['' b \<and> hasSuffix '']'' b then butlast (tl b) else b, p)"
proof -
  have "CHR '':'' \<notin> set p"
    using assms by (auto simp: list_all_iff isDigit_def)
  with assms show ?thesis
    by (simp add: splitHostPort_def lastIndex_last validOptionalPort_def)
qed

lemma splitHostPort_join:
  assumes "CHR '':'' \<notin> set h" and "CHR ''['' \<notin> set h" and "list_all isDigit p"
  shows "splitHostPort (h @ CHR '':'' # p) = (h, p)" "splitHostPort h = (h, [])"
proof -
  have "\<not> hasPrefix ''['' h"
    using assms(2) by (cases h) (auto simp: hasPrefix_def)
  then show "splitHostPort (h @ CHR '':'' # p) = (h, p)" "splitHostPort h = (h, [])"
    using assms by (simp_all add: splitHostPort_colon) (simp add: splitHostPort_def lastIndex_None)
qed

lemma brackets:
  fixes h :: string
  defines "b \<equiv> CHR ''['' # h @ '']''"
  shows "hasPrefix ''['' b" "hasSuffix '']'' b" "butlast (tl b) = h"
  by (simp_all add: b_def hasPrefix_def hasSuffix_def butlast_append)

lemma lastIndex_nth: "lastIndex c s = Some i \<Longrightarrow> i < length s \<and> s ! i = c"
  by (induction s arbitrary: i) (auto split: option.splits if_splits)

lemma splitHostPort_brackets:
  assumes "list_all isDigit p"
  shows "splitHostPort ((CHR ''['' # h @ '']'') @ CHR '':'' # p) = (h, p)" "splitHostPort (CHR ''['' # h @ '']'') = (h, [])"
proof -
  show "splitHostPort ((CHR ''['' # h @ '']'') @ CHR '':'' # p) = (h, p)"
    by (simp only: splitHostPort_colon [OF assms] brackets simp_thms if_True)
  let ?b = "CHR ''['' # h @ '']''"
  have "\<not> validOptionalPort (drop i ?b)" if "lastIndex (CHR '':'') ?b = Some i" for i
  proof -
    have i: "i < length ?b" "?b ! i = CHR '':''"
      using lastIndex_nth [OF that] by auto
    have "i \<le> length h"
      using i by (cases "i = Suc (length h)") auto
    then have "CHR '']'' \<in> set (drop (Suc i) ?b)"
      by (cases i) auto
    then have "CHR '']'' \<in> set (tl (drop i ?b))"
      by (simp only: drop_Suc tl_drop)
    then show ?thesis
      by (cases "drop i ?b") (auto simp: validOptionalPort_def list_all_iff isDigit_def intro!: bexI [of _ "CHR '']''"])
  qed
  then show "splitHostPort ?b = (h, [])"
    unfolding splitHostPort_def by (cases "lastIndex (CHR '':'') ?b") (simp_all only: option.case if_False prod.case Let_def brackets simp_thms if_True)
qed

lemma authority_target:
  assumes "authorityOf (rq_URL req) h p" and "CHR '':'' \<notin> set h" and "CHR ''['' \<notin> set h" and "list_all isDigit p"
  shows "hostname (rq_URL req) = h" "targetPort req = p"
proof -
  have "splitHostPort (h @ '':'') = (h, [])"
    using splitHostPort_join(1) [OF assms(2,3), of "[]"] by simp
  with splitHostPort_join [OF assms(2-4)] assms(1) show "hostname (rq_URL req) = h" "targetPort req = p"
    by (auto simp: authorityOf_def stdPort_def hostname_def port_of_def targetPort_def Let_def)
qed

lemma bioWrite_duplex: "bioWrite duplexWrite d r = Some (Ok (length d), r\<lparr>bio_rd := (fst (bio_rd r), snd (bio_rd r) @ d)\<rparr>)"
  by (simp add: bioWrite_def duplexWrite_def)

section \<open>Properties\<close>

text \<open>C24. The HTTP proxy and the socks5 proxy behind it reach the target of the request: for a URL with a host name
  and a port, or none, in which case it is the standard one of the scheme, the socks5 server dials that
  host and port whatever the segmentation of the bytes between the two proxies; then \<open>CONNECT\<close> is
  answered with status 200 and the connection is relayed, and any other request is written to the
  connection before that.\<close>

theorem h2s_connects:
  assumes "readRequest (NewReader conn) = Some (Ok req, r)"
    and "authorityOf (rq_URL req) host p" and "plainHost host" and "list_all isDigit p" and "parseInt64 p = Some port"
    and "0 \<le> port" and "port < 65536" and "length host < 256"
    and "s5Linker getBackend direct options (snd (s5Target host)) = Ok linker"
    and "dial linker ''tcp'' (fst (s5Target host) @ '':'' @ showNat (nat port)) = Ok upConn"
  shows "\<exists>up down. (\<forall>segs. concat segs = up \<and> [] \<notin> set segs \<longrightarrow>
      (\<exists>r5. handleConn getBackend direct dial options duplexRead duplexWrite (segs, []) = Some (Ok (Some upConn), r5) \<and>
        snd (bio_rd r5) = down \<and> bio_buf r5 @ concat (fst (bio_rd r5)) = [])) \<and>
    (\<forall>segs. concat segs = down \<longrightarrow>
      (\<exists>left. concat left = [] \<and>
        h2s_handleConn readRequest reqWrite (Socks5Connect (\<lambda>_. Ok (segs, [])) duplexRead duplexWrite) duplexWrite cfg conn =
          (if equalFold (rq_Method req) ''connect''
           then Some (Ok (Some (left, up)), r\<lparr>bio_rd := (fst (bio_rd r), snd (bio_rd r) @ okResponse)\<rparr>)
           else case reqWrite req (left, up) of
                  None \<Rightarrow> None
                | Some (res, s5conn) \<Rightarrow> Some (case res of Ok u \<Rightarrow> Ok (Some s5conn) | Err e \<Rightarrow> Ok None | Panic \<Rightarrow> Panic, r))))"
proof -
  have t: "hostname (rq_URL req) = host" "targetPort req = p"
    using authority_target [OF assms(2) _ _ assms(4)] assms(3) by (simp_all add: plainHost_def)
  have "p \<noteq> []"
    using assms(2) by (auto simp: authorityOf_def stdPort_def split: if_splits)
  have "net_SplitHostPort (targetHostPort req) = Ok (host, p)"
    using SplitHostPort_join [OF assms(3) digits_plain [OF assms(4)]] by (simp add: targetHostPort_def t)
  from connect_serves [where getBackend = getBackend and direct = direct and options = options and dial = dial
      and proxyAddr = "h_ProxyAddr cfg", OF this assms(5-10)]
  obtain up down where c:
    "\<forall>segs. concat segs = up \<and> [] \<notin> set segs \<longrightarrow>
      (\<exists>r5. handleConn getBackend direct dial options duplexRead duplexWrite (segs, []) = Some (Ok (Some upConn), r5) \<and>
        snd (bio_rd r5) = down \<and> bio_buf r5 @ concat (fst (bio_rd r5)) = [])"
    "\<forall>segs. concat segs = down \<longrightarrow>
      (\<exists>left. Socks5Connect (\<lambda>_. Ok (segs, [])) duplexRead duplexWrite (h_ProxyAddr cfg) (targetHostPort req) = Some (Ok (left, up)) \<and>
        concat left = [])"
    by blast
  have "h2s_handleConn readRequest reqWrite s5 duplexWrite cfg conn =
      (if equalFold (rq_Method req) ''connect''
       then Some (Ok (Some s5conn), r\<lparr>bio_rd := (fst (bio_rd r), snd (bio_rd r) @ okResponse)\<rparr>)
       else case reqWrite req s5conn of
              None \<Rightarrow> None
            | Some (res, s5conn') \<Rightarrow> Some (case res of Ok u \<Rightarrow> Ok (Some s5conn') | Err e \<Rightarrow> Ok None | Panic \<Rightarrow> Panic, r))"
    if "s5 (h_ProxyAddr cfg) (targetHostPort req) = Some (Ok s5conn)" for s5 s5conn
    using that \<open>p \<noteq> []\<close>
    by (simp add: h2s_handleConn_def serveRequest_def assms(1) t(2) bioWrite_duplex split: option.split prod.split res.split)
  with c show ?thesis
    by blast
qed

text \<open>A request for \<open>example.com:443\<close>, with a reader that stands for \<open>http.ReadRequest\<close> after the request.\<close>

definition sampleRequest :: request where
  "sampleRequest = \<lparr>rq_Method = ''CONNECT'', rq_URL = the (requestURL ''CONNECT'' ''example.com:443''), rq_Host = ''example.com:443''\<rparr>"

lemma sampleRequest_host: "u_Host (rq_URL sampleRequest) = ''example.com:443''"
  by code_simp

theorem h2s_connects_witness:
  "\<exists>up down. (\<forall>segs. concat segs = up \<and> [] \<notin> set segs \<longrightarrow>
      (\<exists>r5. handleConn (\<lambda>suit params. Ok suit) ''direct'' (\<lambda>b n a. Ok (b, n, a)) sampleProxy duplexRead duplexWrite (segs, []) =
          Some (Ok (Some (''h1'', ''tcp'', ''example.com:443'')), r5) \<and> snd (bio_rd r5) = down \<and> bio_buf r5 @ concat (fst (bio_rd r5)) = [])) \<and>
    (\<forall>segs. concat segs = down \<longrightarrow>
      (\<exists>left. concat left = [] \<and>
        h2s_handleConn (\<lambda>r. Some (Ok sampleRequest, r)) (\<lambda>rq c. Some (Ok (), c))
          (Socks5Connect (\<lambda>_. Ok (segs, [])) duplexRead duplexWrite) duplexWrite \<lparr>h_Port = 8080, h_ProxyAddr = ''proxy:1080''\<rparr> ([], []) =
        Some (Ok (Some (left, up)), (NewReader ([], []))\<lparr>bio_rd := ([], okResponse)\<rparr>)))"
proof -
  have h: "authorityOf (rq_URL sampleRequest) ''example.com'' ''443''" "plainHost ''example.com''" "list_all isDigit ''443''"
    by (simp_all add: authorityOf_def sampleRequest_host plainHost_def isDigit_def)
  have n: "parseInt64 ''443'' = Some 443"
    by (simp add: parseInt64_def parseDigits_def isDigit_def)
  have t: "s5Target ''example.com'' = (''example.com'', False)"
    by code_simp
  have l: "s5Linker (\<lambda>suit params. Ok suit) ''direct'' sampleProxy (snd (s5Target ''example.com'')) = Ok ''h1''"
    by (simp add: t s5Linker_def sampleProxy_def)
  have "showNat (nat 443) = ''443''"
    by code_simp
  then have d: "Ok (''h1'', ''tcp'', fst (s5Target ''example.com'') @ '':'' @ showNat (nat 443)) = Ok (''h1'', ''tcp'', ''example.com:443'')"
    by (simp add: t)
  have "equalFold ''CONNECT'' ''connect''"
    by code_simp
  then have e: "equalFold (rq_Method sampleRequest) ''connect''"
    by (simp add: sampleRequest_def)
  have "fst (bio_rd (NewReader ([], []))) = []" "snd (bio_rd (NewReader ([], []))) @ okResponse = okResponse"
    by simp_all
  then show ?thesis
    using h2s_connects [where readRequest = "\<lambda>r. Some (Ok sampleRequest, r)" and conn = "([], [])" and reqWrite = "\<lambda>rq c. Some (Ok (), c)"
        and cfg = "\<lparr>h_Port = 8080, h_ProxyAddr = ''proxy:1080''\<rparr>" and dial = "\<lambda>b n a. Ok (b, n, a)", OF refl h n _ _ _ l d]
    by (simp only: e if_True) simp
qed

text \<open>A host that is an IPv6 address is never reached: the brackets of the URL are removed and not put back, so
  that the address has too many colons; the function returns without dialling the proxy and without
  an answer to the client.\<close>

theorem h2s_v6_refused:
  assumes "readRequest (NewReader conn) = Some (Ok req, r)"
    and "u_Host (rq_URL req) \<in> {CHR ''['' # h @ '']'', (CHR ''['' # h @ '']'') @ CHR '':'' # p}"
    and "CHR '':'' \<in> set h" and "CHR ''['' \<notin> set h" and "list_all isDigit p"
  shows "h2s_handleConn readRequest reqWrite (Socks5Connect dial rd wr) wr cfg conn = Some (Ok None, r)"
proof -
  have h: "hostname (rq_URL req) = h" and d: "list_all isDigit (targetPort req)" and n: "targetPort req \<noteq> []"
    using assms(2,5) splitHostPort_brackets [OF assms(5), of h]
    by (auto simp: hostname_def targetPort_def port_of_def Let_def isDigit_def split: if_splits)
  have "CHR '':'' \<notin> set (targetPort req)"
    using digits_plain [OF d] by (simp add: plainHost_def)
  from SplitHostPort_colons [OF assms(3,4) this]
  have "Socks5Connect dial rd wr (h_ProxyAddr cfg) (targetHostPort req) = Some (Err (Errorf ''too many colons in address''))"
    by (simp add: Socks5Connect_def targetHostPort_def h)
  with n show ?thesis
    by (simp add: h2s_handleConn_def serveRequest_def assms(1))
qed

theorem h2s_v6_refused_witness:
  "h2s_handleConn (\<lambda>r. Some (Ok (sampleRequest\<lparr>rq_URL := the (requestURL ''CONNECT'' ''[::1]:443'')\<rparr>), r)) (\<lambda>rq c. Some (Ok (), c))
     (Socks5Connect (\<lambda>_. Ok ([], [])) duplexRead duplexWrite) duplexWrite \<lparr>h_Port = 8080, h_ProxyAddr = ''proxy:1080''\<rparr> ([], []) =
   Some (Ok None, NewReader ([], []))"
proof (rule h2s_v6_refused [where h = "''::1''" and p = "''443''"])
  have "u_Host (the (requestURL ''CONNECT'' ''[::1]:443'')) = ''[::1]:443''"
    by code_simp
  then show "u_Host (rq_URL (sampleRequest\<lparr>rq_URL := the (requestURL ''CONNECT'' ''[::1]:443'')\<rparr>))
      \<in> {CHR ''['' # ''::1'' @ '']'', (CHR ''['' # ''::1'' @ '']'') @ CHR '':'' # ''443''}"
    by simp
qed (simp_all add: isDigit_def)

end
