(* ===== verification/Servers.thy ===== *)
theory Servers
  imports H2s H1
begin

text \<open>
  The loops that accept connections: \<open>Server\<close> of \<open>transport/h1/server.go\<close>, \<open>socks/socks5/server.go\<close> and
  \<open>h2s/server.go\<close>, and the loop of \<open>transport/d1/server.go\<close> that receives datagrams. What happens to a
  listener is a list of events; a connection that is accepted gets a goroutine of its own, which runs
  the handler of theories \<open>H1\<close>, \<open>Socks5\<close> or \<open>H2s\<close>. Shown here: which connections are served, when the
  loops return, that cancelling the context stops \<open>h1\<close> only, and that \<open>d1\<close> drops every datagram.
\<close>

section \<open>Listeners\<close>

text \<open>A connection arrives, \<open>Accept\<close> fails, or the context is done.\<close>

datatype 'c lnEvent = Incoming 'c | AcceptError goerr | CtxDone

text \<open>After the events so far the function still serves, or it has returned.\<close>

datatype ending = Serving | Stopped "goerr option"

text \<open>The connections handed to a goroutine, the end, and whether the listener is still open.\<close>

record 'c run =
  rn_conns :: "'c list"
  rn_end :: ending
  rn_open :: bool

definition errClosed :: goerr where
  "errClosed = OpError ''use of closed network connection''"

text \<open>\<open>net.Listen\<close> is an argument: its error for a network and an address.\<close>

type_synonym listenFun = "string \<Rightarrow> string \<Rightarrow> goerr option"

definition refused :: "goerr option \<Rightarrow> 'c run" where
  "refused e = \<lparr>rn_conns = [], rn_end = Stopped e, rn_open = False\<rparr>"

definition portAddr :: "int \<Rightarrow> string" where
  "portAddr port = CHR '':'' # showInt port"

section \<open>The servers\<close>

text \<open>\<open>h1.Server\<close>: a goroutine closes the listener when the context is done, and then \<open>Accept\<close> fails. When
  \<open>Accept\<close> fails otherwise, nobody closes the listener before the context is done.\<close>

fun h1_acceptLoop :: "'c lnEvent list \<Rightarrow> 'c run" where
  "h1_acceptLoop [] = \<lparr>rn_conns = [], rn_end = Serving, rn_open = True\<rparr>"
| "h1_acceptLoop (Incoming conn # evs) = (let r = h1_acceptLoop evs in r\<lparr>rn_conns := conn # rn_conns r\<rparr>)"
| "h1_acceptLoop (AcceptError e # evs) =
     \<lparr>rn_conns = [], rn_end = Stopped (Some e), rn_open = list_all (\<lambda>ev. case ev of CtxDone \<Rightarrow> False | _ \<Rightarrow> True) evs\<rparr>"
| "h1_acceptLoop (CtxDone # evs) = refused (Some errClosed)"

definition h1_Server :: "listenFun \<Rightarrow> ServerOptions \<Rightarrow> 'c lnEvent list \<Rightarrow> 'c run" where
  "h1_Server listen options evs =
     (case listen ''tcp4'' (portAddr (so_Port options)) of
        Some err \<Rightarrow> refused (Some err)
      | None \<Rightarrow> h1_acceptLoop evs)"

text \<open>\<open>socks5.Server\<close>: the context is only passed to the handler; the listener is closed on return.\<close>

fun socks5_acceptLoop :: "'c lnEvent list \<Rightarrow> 'c run" where
  "socks5_acceptLoop [] = \<lparr>rn_conns = [], rn_end = Serving, rn_open = True\<rparr>"
| "socks5_acceptLoop (Incoming conn # evs) = (let r = socks5_acceptLoop evs in r\<lparr>rn_conns := conn # rn_conns r\<rparr>)"
| "socks5_acceptLoop (AcceptError e # evs) = refused (Some e)"
| "socks5_acceptLoop (CtxDone # evs) = socks5_acceptLoop evs"

definition socks5_Server :: "listenFun \<Rightarrow> 'b Options \<Rightarrow> 'c lnEvent list \<Rightarrow> 'c run" where
  "socks5_Server listen options evs =
     (case listen ''tcp'' (portAddr (op_Port options)) of
        Some err \<Rightarrow> refused (Some err)
      | None \<Rightarrow> socks5_acceptLoop evs)"

text \<open>\<open>h2s.Server\<close>: a failing \<open>Accept\<close> is logged and the loop goes on. \<open>None\<close> is the nil configuration.\<close>

fun h2s_acceptLoop :: "'c lnEvent list \<Rightarrow> 'c run" where
  "h2s_acceptLoop [] = \<lparr>rn_conns = [], rn_end = Serving, rn_open = True\<rparr>"
| "h2s_acceptLoop (Incoming conn # evs) = (let r = h2s_acceptLoop evs in r\<lparr>rn_conns := conn # rn_conns r\<rparr>)"
| "h2s_acceptLoop (AcceptError e # evs) = h2s_acceptLoop evs"
| "h2s_acceptLoop (CtxDone # evs) = h2s_acceptLoop evs"

definition h2s_Server :: "listenFun \<Rightarrow> h2sConf option \<Rightarrow> 'c lnEvent list \<Rightarrow> 'c run" where
  "h2s_Server listen cfg evs =
     (case cfg of
        None \<Rightarrow> refused None
      | Some cfg \<Rightarrow>
          if h_Port cfg \<le> 0 then refused None
          else case listen ''tcp'' (portAddr (h_Port cfg)) of
                 Some err \<Rightarrow> refused (Some (Errorf ''net.Listen''))
               | None \<Rightarrow> h2s_acceptLoop evs)"

section \<open>Datagrams\<close>

text \<open>\<open>d1\<close>: a datagram with the address of its sender, or the read fails.\<close>

datatype udpEvent = Datagram string bytes | ReadError goerr | UdpCtxDone

record packetConn =
  pc_createdAt :: int
  pc_lastActiveTime :: int
  pc_remoteAddr :: string
  pc_chR :: "bytes list"

text \<open>The map \<open>idx\<close> of the connections, how often \<open>print(c)\<close> ran, and the end. The buffer has 16 KB, and
  what does not fit is cut off. The chunk that is copied out of it is not used.\<close>

record d1State =
  d1_idx :: "string \<rightharpoonup> packetConn"
  d1_prints :: nat
  d1_end :: ending

definition d1_receive :: "string \<Rightarrow> bytes \<Rightarrow> d1State \<Rightarrow> d1State" where
  "d1_receive remoteAddr dat s =
     (let size = min (length dat) (1024 * 16); chunk = take size dat
      in if size \<le> 0 then s
         else case d1_idx s remoteAddr of
                None \<Rightarrow> s\<lparr>d1_prints := d1_prints s + 1\<rparr>
              | Some c \<Rightarrow> s)"

fun d1_loop :: "udpEvent list \<Rightarrow> d1State \<Rightarrow> d1State" where
  "d1_loop [] s = s"
| "d1_loop (Datagram remoteAddr dat # evs) s = d1_loop evs (d1_receive remoteAddr dat s)"
| "d1_loop (ReadError e # evs) s = s\<lparr>d1_end := Stopped (Some e)\<rparr>"
| "d1_loop (UdpCtxDone # evs) s = s\<lparr>d1_end := Stopped (Some errClosed)\<rparr>"

text \<open>\<open>resolve\<close> and \<open>listen\<close> are the errors of \<open>net.ResolveUDPAddr\<close> and \<open>net.ListenUDP\<close>.\<close>

definition d1_Server :: "listenFun \<Rightarrow> listenFun \<Rightarrow> ServerOptions \<Rightarrow> udpEvent list \<Rightarrow> d1State" where
  "d1_Server resolve listen options evs =
     (let s = \<lparr>d1_idx = Map.empty, d1_prints = 0, d1_end = Serving\<rparr>; addr = portAddr (so_Port options)
      in case resolve ''udp'' addr of
           Some err \<Rightarrow> s\<lparr>d1_end := Stopped (Some err)\<rparr>
         | None \<Rightarrow>
             (case listen ''udp'' addr of
                Some err \<Rightarrow> s\<lparr>d1_end := Stopped (Some err)\<rparr>
              | None \<Rightarrow> d1_loop evs s))"

section \<open>What is accepted\<close>

text \<open>The connections among events, and the events before the first that stops a loop.\<close>

definition incoming :: "'c lnEvent list \<Rightarrow> 'c list" where
  "incoming evs = List.map_filter (\<lambda>ev. case ev of Incoming c \<Rightarrow> Some c | _ \<Rightarrow> None) evs"

definition isIncoming :: "'c lnEvent \<Rightarrow> bool" where
  "isIncoming ev = (case ev of Incoming c \<Rightarrow> True | _ \<Rightarrow> False)"

definition notError :: "'c lnEvent \<Rightarrow> bool" where
  "notError ev = (case ev of AcceptError e \<Rightarrow> False | _ \<Rightarrow> True)"

lemma incoming_simps [simp]:
  "incoming [] = []" "incoming (Incoming c # evs) = c # incoming evs" "incoming (AcceptError e # evs) = incoming evs"
  "incoming (CtxDone # evs) = incoming evs"
  by (simp_all add: incoming_def map_filter_def)

lemma event_simps [simp]:
  "isIncoming (Incoming c)" "\<not> isIncoming (AcceptError e)" "\<not> isIncoming CtxDone"
  "notError (Incoming c)" "\<not> notError (AcceptError e)" "notError CtxDone"
  by (simp_all add: isIncoming_def notError_def)

lemma refused_simps [simp]: "rn_conns (refused e) = []" "rn_end (refused e) = Stopped e" "\<not> rn_open (refused e)"
  by (simp_all add: refused_def)

lemma h1_acceptLoop_conns:
  "rn_conns (h1_acceptLoop evs) = incoming (takeWhile isIncoming evs)"
  "rn_end (h1_acceptLoop evs) = Serving \<longleftrightarrow> list_all isIncoming evs"
  by (induction evs rule: h1_acceptLoop.induct) (simp_all add: Let_def)

lemma socks5_acceptLoop_conns:
  "rn_conns (socks5_acceptLoop evs) = incoming (takeWhile notError evs)"
  "rn_end (socks5_acceptLoop evs) = Serving \<longleftrightarrow> list_all notError evs"
  by (induction evs rule: socks5_acceptLoop.induct) (simp_all add: Let_def)

lemma h2s_acceptLoop_conns:
  "rn_conns (h2s_acceptLoop evs) = incoming evs" "rn_end (h2s_acceptLoop evs) = Serving"
  by (induction evs rule: h2s_acceptLoop.induct) (simp_all add: Let_def)

lemma d1_loop_idx: "d1_idx s = Map.empty \<Longrightarrow> d1_idx (d1_loop evs s) = Map.empty"
  by (induction evs s rule: d1_loop.induct) (simp_all add: d1_receive_def Let_def)

lemma d1_loop_ends:
  "d1_end s = Serving \<Longrightarrow> d1_end (d1_loop evs s) = Serving \<longleftrightarrow> list_all (\<lambda>ev. case ev of Datagram a d \<Rightarrow> True | _ \<Rightarrow> False) evs"
  by (induction evs s rule: d1_loop.induct) (simp_all add: d1_receive_def Let_def split: option.split)

section \<open>Properties\<close>

text \<open>When the servers stop. Once they listen, \<open>h1\<close> serves the connections before the first failing
  \<open>Accept\<close> or the end of its context and then returns; \<open>socks5\<close> serves everything before the first
  failing \<open>Accept\<close>, so that cancelling the context it is given changes nothing; \<open>h2s\<close> serves every
  connection and never returns.\<close>

theorem servers_stop:
  assumes "\<And>network addr. listen network addr = None" and "cfg = Some conf" and "0 < h_Port conf"
  shows "rn_conns (h1_Server listen opts evs) = incoming (takeWhile isIncoming evs) \<and>
      (rn_end (h1_Server listen opts evs) = Serving \<longleftrightarrow> list_all isIncoming evs) \<and>
    rn_conns (socks5_Server listen options evs) = incoming (takeWhile notError evs) \<and>
      (rn_end (socks5_Server listen options evs) = Serving \<longleftrightarrow> list_all notError evs) \<and>
    rn_conns (h2s_Server listen cfg evs) = incoming evs \<and> rn_end (h2s_Server listen cfg evs) = Serving"
  using assms by (simp add: h1_Server_def socks5_Server_def h2s_Server_def h1_acceptLoop_conns socks5_acceptLoop_conns h2s_acceptLoop_conns)

definition sampleEvents :: "nat lnEvent list" where
  "sampleEvents = [Incoming 1, CtxDone, Incoming 2, AcceptError (OpError ''too many open files''), Incoming 3]"

theorem servers_stop_witness:
  "rn_conns (h1_Server (\<lambda>_ _. None) \<lparr>so_Port = 80, so_ProtocolParams = Map.empty, so_Handler = True\<rparr> sampleEvents) = [1] \<and>
   rn_conns (socks5_Server (\<lambda>_ _. None) \<lparr>op_Port = 1080, op_ProtocolSuit = [], op_ProtocolParams = Map.empty, op_BackendProvider = NoProvider :: string provider\<rparr> sampleEvents) = [1, 2] \<and>
   rn_conns (h2s_Server (\<lambda>_ _. None) (Some \<lparr>h_Port = 3128, h_ProxyAddr = ''localhost:1080''\<rparr>) sampleEvents) = [1, 2, 3]"
  using servers_stop [of "\<lambda>_ _. None" "Some \<lparr>h_Port = 3128, h_ProxyAddr = ''localhost:1080''\<rparr>" "\<lparr>h_Port = 3128, h_ProxyAddr = ''localhost:1080''\<rparr>"
      "\<lparr>so_Port = 80, so_ProtocolParams = Map.empty, so_Handler = True\<rparr>" sampleEvents
      "\<lparr>op_Port = 1080, op_ProtocolSuit = [], op_ProtocolParams = Map.empty, op_BackendProvider = NoProvider :: string provider\<rparr>"]
  by (simp add: sampleEvents_def)

text \<open>The transport \<open>d1\<close> is not there yet: whatever datagrams arrive, its server makes no connection for any
  sender, and it returns exactly when a read fails or its context is done.\<close>

theorem d1_drops:
  "d1_idx (d1_Server resolve listen options evs) = Map.empty \<and>
   (resolve ''udp'' (portAddr (so_Port options)) = None \<and> listen ''udp'' (portAddr (so_Port options)) = None \<longrightarrow>
     (d1_end (d1_Server resolve listen options evs) = Serving \<longleftrightarrow> list_all (\<lambda>ev. case ev of Datagram a d \<Rightarrow> True | _ \<Rightarrow> False) evs))"
  by (simp add: d1_Server_def Let_def d1_loop_idx d1_loop_ends split: option.split)

theorem d1_drops_witness:
  "d1_idx (d1_Server (\<lambda>_ _. None) (\<lambda>_ _. None) \<lparr>so_Port = 80, so_ProtocolParams = Map.empty, so_Handler = True\<rparr> [Datagram ''1.2.3.4:5'' [1]]) = Map.empty \<and>
   d1_end (d1_Server (\<lambda>_ _. None) (\<lambda>_ _. None) \<lparr>so_Port = 80, so_ProtocolParams = Map.empty, so_Handler = True\<rparr> [Datagram ''1.2.3.4:5'' [1]]) = Serving"
  using d1_drops [of "\<lambda>_ _. None" "\<lambda>_ _. None" "\<lparr>so_Port = 80, so_ProtocolParams = Map.empty, so_Handler = True\<rparr>" "[Datagram ''1.2.3.4:5'' [1]]"]
  by simp

end
