(* ===== verification/Suits.thy ===== *)
theory Suits
  imports Socks5 Pool_Client
begin

text \<open>
  The registry of transports (\<open>transport/transport.go\<close>), the three suits that register themselves (\<open>h1\<close>,
  \<open>h1pool\<close>, \<open>d1\<close>) and the choice of a backend by the name of a suit (\<open>socks/backend/backend.go\<close>,
  \<open>BackendSecure\<close>, \<open>backend_direct.go\<close>). The method \<open>Client\<close> of a suit may change the package variables of
  the pool. Shown here: what is found under a name does not depend on the order in which packages are
  initialised, which backend a configuration gives and when asking for one panics, and that such a
  panic ends the handling of a socks5 request.
\<close>

section \<open>Registry\<close>

text \<open>A suit: its methods \<open>Name\<close>, \<open>Enabled\<close> and \<open>Client\<close>; \<open>Server\<close> gives the options it serves with.\<close>

record 't suit =
  su_Name :: string
  su_Enabled :: bool
  su_Server :: "Values \<Rightarrow> ServerOptions res"
  su_Client :: "Values \<Rightarrow> string \<Rightarrow> pool \<Rightarrow> 't res \<times> pool"

type_synonym 't registry = "string \<rightharpoonup> 't suit"

definition Register :: "'t suit \<Rightarrow> 't registry \<Rightarrow> 't registry" where
  "Register suit reg = reg(su_Name suit \<mapsto> suit)"

definition GetSuit :: "'t registry \<Rightarrow> string \<Rightarrow> 't suit option" where
  "GetSuit reg name = (case reg name of Some v \<Rightarrow> Some v | None \<Rightarrow> None)"

section \<open>Suits\<close>

text \<open>The transports that the clients of the suits are.\<close>

datatype clientTx = H1Tx Client | PoolTx string

text \<open>\<open>h1.CreateClient\<close>: the goroutine it starts is the client's side of theories \<open>H1\<close> and \<open>H1_Relay\<close>.\<close>

definition CreateClient :: "Values \<Rightarrow> string \<Rightarrow> Client res" where
  "CreateClient cfg clientId =
     (case NewClient cfg clientId of
        Ok c \<Rightarrow> Ok c
      | Err e \<Rightarrow> Err e
      | Panic \<Rightarrow> Panic)"

definition h1Suit :: "clientTx suit" where
  "h1Suit =
     \<lparr>su_Name = ''h1'', su_Enabled = True, su_Server = h1Suit_Server,
      su_Client = (\<lambda>cfg clientId s.
        case CreateClient cfg clientId of Ok c \<Rightarrow> (Ok (H1Tx c), s) | Err e \<Rightarrow> (Err e, s) | Panic \<Rightarrow> (Panic, s))\<rparr>"

text \<open>\<open>prefix\<close> is the package variable of the pool, \<open>uid\<close> and \<open>now\<close> are the random id and the time of the call.\<close>

definition h1poolSuit :: "string \<Rightarrow> string \<Rightarrow> int \<Rightarrow> clientTx suit" where
  "h1poolSuit prefix uid now =
     \<lparr>su_Name = ''h1pool'', su_Enabled = True,
      su_Server = (\<lambda>cfg.
        let port = GetInt cfg PORT
        in if port \<le> 0 \<or> 65535 < port then Err (Errorf ''invalid serving port.'')
           else Ok \<lparr>so_Port = port, so_ProtocolParams = cfg, so_Handler = True\<rparr>),
      su_Client = (\<lambda>cfg clientId s.
        case getClient cfg prefix uid now clientId s of
          (Some e, s') \<Rightarrow> (Err e, s')
        | (None, s') \<Rightarrow> (Ok (PoolTx clientId), s'))\<rparr>"

definition d1_CreateClient :: "Values \<Rightarrow> string \<Rightarrow> clientTx res" where
  "d1_CreateClient cfg clientId = Err (Errorf ''not implemented.'')"

definition d1Suit :: "clientTx suit" where
  "d1Suit =
     \<lparr>su_Name = ''d1'', su_Enabled = True,
      su_Server = (\<lambda>cfg.
        let port = GetInt cfg PORT
        in if port \<le> 0 \<or> 65535 < port then Err (Errorf ''invalid serving port.'')
           else Ok \<lparr>so_Port = port, so_ProtocolParams = cfg, so_Handler = True\<rparr>),
      su_Client = (\<lambda>cfg clientId s. (d1_CreateClient cfg clientId, s))\<rparr>"

section \<open>Backends\<close>

text \<open>\<open>uplinkDirect\<close> and \<open>uplinkSecure\<close> with its id and transport.\<close>

datatype 't backend = UplinkDirect | UplinkSecure string 't

definition BackendSecure :: "'t registry \<Rightarrow> string \<Rightarrow> string \<Rightarrow> Values \<Rightarrow> pool \<Rightarrow> 't backend res \<times> pool" where
  "BackendSecure reg uid suitName params s =
     (case GetSuit reg suitName of
        None \<Rightarrow> (Panic, s)
      | Some protoSuit \<Rightarrow>
          (case su_Client protoSuit (Clone params) uid s of
             (Ok cl, s') \<Rightarrow> (Ok (UplinkSecure uid cl), s')
           | (Err e, s') \<Rightarrow> (Panic, s')
           | (Panic, s') \<Rightarrow> (Panic, s')))"

definition Direct :: "'t backend" where
  "Direct = UplinkDirect"

definition GetBackend :: "'t registry \<Rightarrow> string \<Rightarrow> string \<Rightarrow> Values \<Rightarrow> pool \<Rightarrow> 't backend res \<times> pool" where
  "GetBackend reg uid suitName params s =
     (if 0 < length suitName then BackendSecure reg uid suitName params s else (Ok Direct, s))"

text \<open>\<open>Dial\<close> of both kinds: \<open>net.Dial\<close>, and the dial of the uplink.\<close>

definition backendDial :: "(string \<Rightarrow> string \<Rightarrow> 'c res) \<Rightarrow> ('t \<Rightarrow> string \<Rightarrow> string \<Rightarrow> 'c res) \<Rightarrow>
    't backend \<Rightarrow> string \<Rightarrow> string \<Rightarrow> 'c res" where
  "backendDial netDial secureDial b network addr =
     (case b of UplinkDirect \<Rightarrow> netDial network addr | UplinkSecure uid tx \<Rightarrow> secureDial tx network addr)"

text \<open>\<open>LookupIP\<close> and \<open>Close\<close>. Closing an uplink closes its transport: the client of \<open>h1\<close>, or the divided client of the
  pool, whose last packet goes to the shared client \<open>sc\<close>.\<close>

definition backendLookupIP :: "(string \<Rightarrow> bytes list res) \<Rightarrow> ('t \<Rightarrow> string \<Rightarrow> string \<Rightarrow> bytes list res) \<Rightarrow>
    't backend \<Rightarrow> string \<Rightarrow> string \<Rightarrow> bytes list res" where
  "backendLookupIP netLookupIP secureLookupIP b network dn =
     (case b of UplinkDirect \<Rightarrow> netLookupIP dn | UplinkSecure uid tx \<Rightarrow> secureLookupIP tx network dn)"



section \<open>What is registered\<close>

lemma GetSuit_eq [simp]: "GetSuit reg name = reg name"
  by (simp add: GetSuit_def split: option.split)

lemma Register_fold:
  "distinct (map su_Name suits) \<Longrightarrow>
    fold Register suits reg name = (case find (\<lambda>x. su_Name x = name) suits of Some x \<Rightarrow> Some x | None \<Rightarrow> reg name)"
proof (induction suits arbitrary: reg)
  case (Cons a suits)
  have "find (\<lambda>x. su_Name x = name) suits = None" if "su_Name a = name"
    using Cons.prems that unfolding find_None_iff by (metis distinct.simps(2) imageI list.set_map list.simps(9))
  with Cons show ?case
    by (auto simp: Register_def split: option.split)
qed simp

lemma find_unique: "distinct (map f xs) \<Longrightarrow> x \<in> set xs \<Longrightarrow> find (\<lambda>y. f y = f x) xs = Some x"
  by (induction xs) (auto simp: image_iff)

lemma registered:
  assumes "mset inits = mset suits" and "distinct (map su_Name suits)"
  shows "GetSuit (fold Register inits Map.empty) name = find (\<lambda>x. su_Name x = name) suits"
proof -
  have d: "distinct (map su_Name inits)"
    using assms by (metis mset_eq_imp_distinct_iff mset_map)
  have "find (\<lambda>x. su_Name x = name) inits = find (\<lambda>x. su_Name x = name) suits"
  proof (cases "\<exists>x \<in> set suits. su_Name x = name")
    case True
    then obtain x where "x \<in> set suits" "x \<in> set inits" "su_Name x = name"
      using assms(1) mset_eq_setD by blast
    with find_unique [OF d, of x] find_unique [OF assms(2), of x] show ?thesis
      by simp
  next
    case False
    with assms(1) mset_eq_setD show ?thesis
      by (metis (mono_tags) find_None_iff)
  qed
  with Register_fold [OF d] show ?thesis
    by (simp split: option.split)
qed

definition allSuits :: "string \<Rightarrow> string \<Rightarrow> int \<Rightarrow> clientTx suit list" where
  "allSuits prefix uid now = [h1Suit, h1poolSuit prefix uid now, d1Suit]"

lemma allSuits_registered:
  assumes "mset inits = mset (allSuits prefix uid now)"
  shows "fold Register inits Map.empty =
    [''h1'' \<mapsto> h1Suit, ''h1pool'' \<mapsto> h1poolSuit prefix uid now, ''d1'' \<mapsto> d1Suit]"
proof
  fix name
  have "distinct (map su_Name (allSuits prefix uid now))"
    by (simp add: allSuits_def h1Suit_def h1poolSuit_def d1Suit_def)
  from registered [OF assms this, of name] show "fold Register inits Map.empty name =
      [''h1'' \<mapsto> h1Suit, ''h1pool'' \<mapsto> h1poolSuit prefix uid now, ''d1'' \<mapsto> d1Suit] name"
    by (auto simp: allSuits_def h1Suit_def h1poolSuit_def d1Suit_def)
qed

text \<open>The pool makes a new trunk when it is not full and has none younger than five minutes.\<close>

definition renews :: "int \<Rightarrow> pool \<Rightarrow> bool" where
  "renews now s \<longleftrightarrow> length (po_sharedClients s) < 5 \<and> list_all (\<lambda>(k, sc). cl_createdAt sc \<le> now - 300) (po_sharedClients s)"

lemma NewClient_cases:
  "cid \<noteq> [] \<Longrightarrow> NewClient cfg cid =
    (if Get cfg SERVER_URL = [] then Err (Errorf ''invalid server_url.'')
     else Ok \<lparr>c_cfg = cfg, c_id = cid, c_serverUrl = Get cfg SERVER_URL, c_closed = False, c_connected = False,
       c_chClose = 0, c_bufRead = NewReadWriteBuffer\<rparr>)"
  by (simp add: NewClient_def Let_def)

lemma getClient_outcome:
  "fst (getClient cfg prefix uid now cid s) = (if renews now s \<and> Get cfg SERVER_URL = [] then Some (Errorf ''invalid server_url.'') else None)"
  "fst (getClient cfg prefix uid now cid s) = None \<Longrightarrow> po_clients (snd (getClient cfg prefix uid now cid s)) cid = Some (newDividedClient cid)"
proof -
  have young: "filter (\<lambda>(k, sc). now - 300 < cl_createdAt sc) xs = [] \<longleftrightarrow> list_all (\<lambda>(k, sc). cl_createdAt sc \<le> now - 300) xs" for xs :: "(string \<times> client) list"
    by (auto simp: filter_empty_conv list_all_iff not_less)
  show "fst (getClient cfg prefix uid now cid s) = (if renews now s \<and> Get cfg SERVER_URL = [] then Some (Errorf ''invalid server_url.'') else None)"
    "fst (getClient cfg prefix uid now cid s) = None \<Longrightarrow> po_clients (snd (getClient cfg prefix uid now cid s)) cid = Some (newDividedClient cid)"
    by (auto simp: getClient_def tryAddNewSharedClient_def Let_def NewClient_cases renews_def young split: if_splits)
qed

lemma Clone_id [simp]: "Clone v = v"
  by (simp add: Clone_def)

lemma GetBackend_all:
  assumes "mset inits = mset (allSuits prefix tid now)" and "uid \<noteq> []"
  shows "GetBackend (fold Register inits Map.empty) uid [] params s = (Ok UplinkDirect, s)"
    and "GetBackend (fold Register inits Map.empty) uid ''h1'' params s =
      (case NewClient params uid of Ok c \<Rightarrow> Ok (UplinkSecure uid (H1Tx c)) | _ \<Rightarrow> Panic, s)"
    and "GetBackend (fold Register inits Map.empty) uid ''h1pool'' params s =
      (if fst (getClient params prefix tid now uid s) = None then Ok (UplinkSecure uid (PoolTx uid)) else Panic,
       snd (getClient params prefix tid now uid s))"
    and "suitName \<noteq> [] \<Longrightarrow> suitName \<noteq> ''h1'' \<Longrightarrow> suitName \<noteq> ''h1pool'' \<Longrightarrow>
      GetBackend (fold Register inits Map.empty) uid suitName params s = (Panic, s)"
  unfolding allSuits_registered [OF assms(1)] GetBackend_def BackendSecure_def
  by (auto simp: Direct_def h1Suit_def h1poolSuit_def d1Suit_def CreateClient_def d1_CreateClient_def
      split: res.split prod.split option.split)

section \<open>Properties\<close>

text \<open>C32. The backend of a configuration, in whatever order the packages of the three transports are
  initialised: without a suit name connections are direct; \<open>h1\<close> gives a client of its own for the
  server URL; \<open>h1pool\<close> gives a new client of the pool, registered under the id of the backend; and the
  call panics exactly for an unknown name, for \<open>d1\<close>, and when a client has to be made without a
  server URL (which \<open>h1pool\<close> does only when a new trunk is due).\<close>

theorem backend_of_suit:
  assumes "mset inits = mset (allSuits prefix tid now)" and "uid \<noteq> []"
    and "GetBackend (fold Register inits Map.empty) uid suitName params s = (b, s')"
  shows "(b = Panic \<longleftrightarrow> suitName \<noteq> [] \<and>
      (suitName \<in> {''h1'', ''h1pool''} \<longrightarrow> Get params SERVER_URL = [] \<and> (suitName = ''h1'' \<or> renews now s))) \<and>
    (b \<noteq> Panic \<longrightarrow>
      (suitName = [] \<and> b = Ok UplinkDirect \<and> s' = s) \<or>
      (suitName = ''h1'' \<and> s' = s \<and> (\<exists>c. b = Ok (UplinkSecure uid (H1Tx c)) \<and> c_serverUrl c = Get params SERVER_URL \<and> c_id c = uid)) \<or>
      (suitName = ''h1pool'' \<and> b = Ok (UplinkSecure uid (PoolTx uid)) \<and> po_clients s' uid = Some (newDividedClient uid)))"
proof -
  note backends = GetBackend_all [OF assms(1,2)]
  consider "suitName = []" | "suitName = ''h1''" | "suitName = ''h1pool''" | "suitName \<noteq> []" "suitName \<noteq> ''h1''" "suitName \<noteq> ''h1pool''"
    by blast
  then show ?thesis
  proof cases
    case 1
    with backends(1) assms(3) show ?thesis
      by auto
  next
    case 2
    with backends(2) assms(2,3) show ?thesis
      by (auto simp: NewClient_cases split: if_splits)
  next
    case 3
    with backends(3) assms(3) getClient_outcome [of params prefix tid now uid s] show ?thesis
      by (auto split: if_splits)
  next
    case 4
    with backends(4) assms(3) show ?thesis
      by auto
  qed
qed

definition sampleOptions :: "string \<Rightarrow> 'b Options" where
  "sampleOptions suit = \<lparr>op_Port = 1080, op_ProtocolSuit = suit, op_ProtocolParams = Map.empty, op_BackendProvider = NoProvider\<rparr>"

definition samplePool :: pool where
  "samplePool = \<lparr>po_sharedClients = [], po_clients = Map.empty, po_workerAlive = False\<rparr>"

theorem backend_of_suit_witness:
  "fst (GetBackend (fold Register [d1Suit, h1Suit, h1poolSuit ''p'' ''t'' 1000] Map.empty) ''u'' ''h1pool'' Map.empty samplePool) = Panic \<and>
   fst (GetBackend (fold Register [d1Suit, h1Suit, h1poolSuit ''p'' ''t'' 1000] Map.empty) ''u'' ''h1pool'' [SERVER_URL \<mapsto> ''ws://h/''] samplePool) =
     Ok (UplinkSecure ''u'' (PoolTx ''u''))"
proof -
  have m: "mset [d1Suit, h1Suit, h1poolSuit ''p'' ''t'' 1000] = mset (allSuits ''p'' ''t'' 1000)"
    by (simp add: allSuits_def add_mset_commute)
  have r: "renews 1000 samplePool"
    by (simp add: renews_def samplePool_def)
  show ?thesis
    using backend_of_suit [OF m, of "''u''" "''h1pool''" Map.empty samplePool] backend_of_suit [OF m, of "''u''" "''h1pool''" "[SERVER_URL \<mapsto> ''ws://h/'']" samplePool] r
    by (auto simp: Get_def prod_eq_iff)
qed



text \<open>A socks5 server configured with a transport that cannot give a client (\<open>d1\<close>, whose client is not
  implemented, or a name nobody registered) panics on every complete request for a host that is
  proxied, after the greeting and before any reply; requests for local addresses are dialled
  directly, as always.\<close>

theorem socks5_suit_panics:
  assumes "mset inits = mset (allSuits prefix tid now)" and "uid \<noteq> []"
    and "getBackend = (\<lambda>suit params. fst (GetBackend (fold Register inits Map.empty) uid suit params s))"
    and "op_BackendProvider options = NoProvider" and "op_ProtocolSuit options \<notin> {[], ''h1'', ''h1pool''}"
    and "[] \<notin> set segs" and "length auths < 256" and "s5Addr atyp a = Some (host, isLocal)"
    and "concat segs = [5, of_nat (length auths)] @ auths @ [5, 1, rsv, atyp] @ a @ [p1, p0] @ rest"
  shows "\<exists>r. handleConn getBackend Direct (backendDial netDial secureDial) options duplexRead duplexWrite (segs, []) =
      Some (if isLocal then s5Served (netDial ''tcp'' (host @ '':'' @ showNat (unat p1 * 256 + unat p0))) else Panic, r) \<and>
    (\<not> isLocal \<longrightarrow> snd (bio_rd r) = [5, 0])"
proof -
  have panics: "getBackend (op_ProtocolSuit options) params = Panic" for params
    using GetBackend_all(4) [OF assms(1,2), of "op_ProtocolSuit options"] assms(3,5) by simp
  have "fst (s5Outcome getBackend Direct (backendDial netDial secureDial) options (host, isLocal) (unat p1 * 256 + unat p0)) =
      (if isLocal then netDial ''tcp'' (host @ '':'' @ showNat (unat p1 * 256 + unat p0)) else Panic)"
    and "\<not> isLocal \<Longrightarrow> snd (s5Outcome getBackend Direct (backendDial netDial secureDial) options (host, isLocal) (unat p1 * 256 + unat p0)) = []"
    by (simp_all add: s5Outcome_def s5Linker_def assms(4) panics backendDial_def Direct_def split: res.split)
  with handleConn_request [OF assms(6-9), of getBackend Direct "backendDial netDial secureDial" options] show ?thesis
    by (auto simp: stands_def s5Served_def)
qed

theorem socks5_suit_panics_witness:
  "\<exists>r. handleConn (\<lambda>suit params. fst (GetBackend (fold Register (allSuits ''p'' ''t'' 1000) Map.empty) ''u'' suit params samplePool))
      Direct (backendDial (\<lambda>n a. Ok a) (\<lambda>tx n a. Ok a)) (sampleOptions ''d1'') duplexRead duplexWrite
      ([[5, 1, 0, 5, 1, 0], [1, 8, 8, 8, 8, 0, 53]], []) = Some (Panic, r) \<and> snd (bio_rd r) = [5, 0]"
proof -
  have a: "s5Addr 1 [8, 8, 8, 8] = Some (''8.8.8.8'', False)"
    by code_simp
  have c: "concat [[5, 1, 0, 5, 1, 0], [1, 8, 8, 8, 8, 0, 53]] =
      [5, of_nat (length [0 :: byte])] @ [0] @ [5, 1, 0, 1] @ [8, 8, 8, 8] @ [0, 53] @ [] "
    by simp
  show ?thesis
    using socks5_suit_panics [OF refl _ refl _ _ _ _ a c, of "''u''" "sampleOptions ''d1''" "''p''" "''t''" 1000 samplePool "\<lambda>n a. Ok a" "\<lambda>tx n a. Ok a"]
    by (simp add: sampleOptions_def)
qed

end
