(* ===== verification/Mains.thy ===== *)
theory Mains
  imports Servers Suits Go_Json
begin

text \<open>
  The two programs under \<open>examples/\<close>: \<open>socks-server\<close>, the near end (a socks5 server and an http proxy in
  front of it), and \<open>transport-server\<close>, the far end. Command line flags are parsed already, and the
  environment, the files and \<open>net.Listen\<close> are arguments. Shown here: which setting wins, that the near
  end exits at once when it has no http proxy, what the far end serves, and that both ends agree on
  a session key when they are started with the same pre-shared key.
\<close>

section \<open>The configuration file\<close>

record socksConf =
  cf_PortLocal :: int
  cf_ServerUrl :: string
  cf_Psk :: string
  cf_Http :: "h2sConf option"

text \<open>\<open>json.Unmarshal\<close> into these structs: the field of a member, by its tag or its tag up to case; \<open>null\<close> leaves
  an \<open>int\<close> or a \<open>string\<close> as it is and makes the pointer nil; an object goes into the struct the
  pointer has, or a new one; a value of another type is an error, and then the result is not used.\<close>

definition fieldOf :: "string list \<Rightarrow> string \<Rightarrow> string option" where
  "fieldOf fs k = (case find (\<lambda>f. f = k) fs of Some f \<Rightarrow> Some f | None \<Rightarrow> find (\<lambda>f. equalFold f k) fs)"

definition asInt :: "json \<Rightarrow> int \<Rightarrow> int option" where
  "asInt v old = (case v of JNull \<Rightarrow> Some old | JNum n \<Rightarrow> parseInt64 n | _ \<Rightarrow> None)"

definition asString :: "json \<Rightarrow> string \<Rightarrow> string option" where
  "asString v old = (case v of JNull \<Rightarrow> Some old | JStr s \<Rightarrow> Some s | _ \<Rightarrow> None)"

fun storeH2s :: "(string \<times> json) list \<Rightarrow> h2sConf \<Rightarrow> h2sConf option" where
  "storeH2s [] c = Some c"
| "storeH2s ((k, v) # ms) c =
     (case fieldOf [''port'', ''proxy_addr''] k of
        None \<Rightarrow> storeH2s ms c
      | Some f \<Rightarrow>
          if f = ''port'' then Option.bind (asInt v (h_Port c)) (\<lambda>x. storeH2s ms (c\<lparr>h_Port := x\<rparr>))
          else Option.bind (asString v (h_ProxyAddr c)) (\<lambda>x. storeH2s ms (c\<lparr>h_ProxyAddr := x\<rparr>)))"

definition asH2s :: "json \<Rightarrow> h2sConf option \<Rightarrow> h2sConf option option" where
  "asH2s v old =
     (case v of
        JNull \<Rightarrow> Some None
      | JObj ms \<Rightarrow> map_option Some (storeH2s ms (case old of Some c \<Rightarrow> c | None \<Rightarrow> \<lparr>h_Port = 0, h_ProxyAddr = []\<rparr>))
      | _ \<Rightarrow> None)"

fun storeConf :: "(string \<times> json) list \<Rightarrow> socksConf \<Rightarrow> socksConf option" where
  "storeConf [] c = Some c"
| "storeConf ((k, v) # ms) c =
     (case fieldOf [''port'', ''server_url'', ''psk'', ''http''] k of
        None \<Rightarrow> storeConf ms c
      | Some f \<Rightarrow>
          if f = ''port'' then Option.bind (asInt v (cf_PortLocal c)) (\<lambda>x. storeConf ms (c\<lparr>cf_PortLocal := x\<rparr>))
          else if f = ''server_url'' then Option.bind (asString v (cf_ServerUrl c)) (\<lambda>x. storeConf ms (c\<lparr>cf_ServerUrl := x\<rparr>))
          else if f = ''psk'' then Option.bind (asString v (cf_Psk c)) (\<lambda>x. storeConf ms (c\<lparr>cf_Psk := x\<rparr>))
          else Option.bind (asH2s v (cf_Http c)) (\<lambda>x. storeConf ms (c\<lparr>cf_Http := x\<rparr>)))"

definition emptyConf :: socksConf where
  "emptyConf = \<lparr>cf_PortLocal = 0, cf_ServerUrl = [], cf_Psk = [], cf_Http = None\<rparr>"

definition unmarshalConf :: "string \<Rightarrow> socksConf option" where
  "unmarshalConf dat =
     (case jparse dat of
        Some (JObj ms) \<Rightarrow> storeConf ms emptyConf
      | Some JNull \<Rightarrow> Some emptyConf
      | _ \<Rightarrow> None)"

text \<open>What the flags leave open comes from the file; \<open>readFile\<close> is \<open>os.ReadFile\<close>.\<close>

definition loadConf :: "(string \<Rightarrow> string option) \<Rightarrow> string \<Rightarrow> socksConf \<Rightarrow> socksConf" where
  "loadConf readFile cfgPath cfg =
     (if length cfgPath \<le> 0 then cfg
      else case readFile cfgPath of
        None \<Rightarrow> cfg
      | Some dat \<Rightarrow>
          (case unmarshalConf dat of
             None \<Rightarrow> cfg
           | Some cfgBase \<Rightarrow>
               \<lparr>cf_PortLocal = (if cf_PortLocal cfg \<le> 0 then cf_PortLocal cfgBase else cf_PortLocal cfg),
                cf_ServerUrl = (if length (cf_ServerUrl cfg) \<le> 0 then cf_ServerUrl cfgBase else cf_ServerUrl cfg),
                cf_Psk = (if length (cf_Psk cfg) \<le> 0 then cf_Psk cfgBase else cf_Psk cfg),
                cf_Http = cf_Http cfgBase\<rparr>))"

section \<open>The near end\<close>

text \<open>The parsed flags.\<close>

record socksFlags =
  sf_p :: int
  sf_s :: string
  sf_k :: string
  sf_c :: string
  sf_V :: bool

definition socksParams :: "socksConf \<Rightarrow> Values" where
  "socksParams cfg = Set (Set Map.empty ''framer_psk'' (cf_Psk cfg)) ''server_url'' (cf_ServerUrl cfg)"

text \<open>The options of the socks5 server; \<open>getBackend\<close> is what \<open>backend.GetBackend\<close> gives when the provider calls it.\<close>

definition socksOptions :: "(string \<Rightarrow> Values \<Rightarrow> 'b res) \<Rightarrow> socksConf \<Rightarrow> 'b Options" where
  "socksOptions getBackend cfg =
     \<lparr>op_Port = cf_PortLocal cfg, op_ProtocolSuit = [], op_ProtocolParams = Map.empty,
      op_BackendProvider = (case getBackend ''h1pool'' (socksParams cfg) of Ok b \<Rightarrow> Provides (Some b) | _ \<Rightarrow> ProviderPanics)\<rparr>"

text \<open>The runs of the two servers, with the listener and the events of each, and whether \<open>main\<close> has returned, which
  ends the process: it does so when one of them has sent to \<open>chFatal\<close>. The context is never cancelled before that.\<close>

record ('b, 'c) socksRun =
  sr_conf :: socksConf
  sr_http :: "'c run option"
  sr_socks :: "('b Options \<times> 'c run) option"
  sr_exits :: bool

definition isStopped :: "'c run \<Rightarrow> bool" where
  "isStopped r = (case rn_end r of Stopped e \<Rightarrow> True | Serving \<Rightarrow> False)"

definition socks_main :: "(string \<Rightarrow> string option) \<Rightarrow> listenFun \<Rightarrow> listenFun \<Rightarrow> (string \<Rightarrow> Values \<Rightarrow> 'b res) \<Rightarrow>
    socksFlags \<Rightarrow> 'c lnEvent list \<Rightarrow> 'c lnEvent list \<Rightarrow> ('b, 'c) socksRun" where
  "socks_main readFile listenHttp listenSocks getBackend fl evsHttp evsSocks =
     (let cfg0 = \<lparr>cf_PortLocal = sf_p fl, cf_ServerUrl = sf_s fl, cf_Psk = sf_k fl, cf_Http = None\<rparr>
      in if sf_V fl then \<lparr>sr_conf = cfg0, sr_http = None, sr_socks = None, sr_exits = True\<rparr>
         else
           (let cfg = loadConf readFile (sf_c fl) cfg0;
                http = h2s_Server listenHttp (cf_Http cfg) evsHttp;
                options = socksOptions getBackend cfg;
                socks = (if 0 < cf_PortLocal cfg then Some (options, socks5_Server listenSocks options evsSocks) else None)
            in \<lparr>sr_conf = cfg, sr_http = Some http, sr_socks = socks,
                sr_exits = (isStopped http \<or> (case socks of Some (o', r) \<Rightarrow> isStopped r | None \<Rightarrow> False))\<rparr>))"

section \<open>The far end\<close>

record transportFlags =
  tf_p :: int
  tf_k :: string
  tf_s :: bool
  tf_V :: bool

text \<open>The port: the environment variable \<open>PORT\<close> when it is a positive number, or else the flag.\<close>

definition transportPort :: "string \<Rightarrow> transportFlags \<Rightarrow> int" where
  "transportPort envPORT fl =
     (case parseInt64 envPORT of Some v \<Rightarrow> if 0 < v then v else tf_p fl | None \<Rightarrow> tf_p fl)"

definition transportParams :: "int \<Rightarrow> transportFlags \<Rightarrow> Values" where
  "transportParams port fl =
     Set (Set (Set Map.empty ''port'' (showInt port)) ''framer_psk'' (tf_k fl)) ''tls'' (if tf_s fl then ''yes'' else [])"

text \<open>Prints a message and returns, panics (no such suit), returns with an error, or serves with these options.\<close>

datatype transportEnd = Version | Usage | NoSuit | Fails goerr | Serves ServerOptions

definition transport_main :: "'t registry \<Rightarrow> string \<Rightarrow> transportFlags \<Rightarrow> transportEnd" where
  "transport_main reg envPORT fl =
     (if tf_V fl then Version
      else
        (let port = transportPort envPORT fl
         in if port \<le> 0 then Usage
            else case GetSuit reg ''h1pool'' of
                   None \<Rightarrow> NoSuit
                 | Some suit \<Rightarrow>
                     (case su_Server suit (transportParams port fl) of
                        Err e \<Rightarrow> Fails e
                      | Panic \<Rightarrow> NoSuit
                      | Ok options \<Rightarrow> Serves options)))"

section \<open>Facts\<close>

lemma param_names: "''framer_psk'' = FRAMER_PSK" "''server_url'' = SERVER_URL" "''port'' = PORT"
  by (simp_all add: conf_names)

lemma socksParams_Get [simp]:
  "Get (socksParams cfg) FRAMER_PSK = cf_Psk cfg" "Get (socksParams cfg) SERVER_URL = cf_ServerUrl cfg"
  by (simp_all add: socksParams_def conf_names)

lemma transportParams_Get [simp]: "Get (transportParams port fl) FRAMER_PSK = tf_k fl"
  by (simp add: transportParams_def conf_names)

lemma transportParams_port:
  assumes "0 \<le> port" and "port < 2 ^ 63"
  shows "GetInt (transportParams port fl) PORT = port"
proof -
  have "GetInt (transportParams port fl) PORT = GetInt (Set Map.empty PORT (showInt port)) PORT"
    by (simp add: transportParams_def GetInt_def Set_def conf_names)
  also have "\<dots> = port"
    using assms by (intro GetInt_Set_showInt) simp_all
  finally show ?thesis .
qed

lemma parseInt64_range: "parseInt64 s = Some i \<Longrightarrow> i < 2 ^ 63"
  by (auto simp: parseInt64_def Let_def split: list.splits option.splits if_splits)

lemma transportPort_range: "tf_p fl < 2 ^ 63 \<Longrightarrow> transportPort env fl < 2 ^ 63"
  by (auto simp: transportPort_def dest: parseInt64_range split: option.split)

lemma isStopped_simps [simp]: "isStopped (refused e)" "isStopped r \<longleftrightarrow> rn_end r \<noteq> Serving"
  by (simp_all add: isStopped_def split: ending.split)

text \<open>The framer of a connection depends on the key, the time and the role of its parameters only.\<close>

lemma newFramer_cong:
  assumes "Get cfg FRAMER_PSK = Get cfg' FRAMER_PSK" and "Get cfg FRAMER_TIMESTAMP = Get cfg' FRAMER_TIMESTAMP"
    and "Get cfg FRAMER_ROLE = Get cfg' FRAMER_ROLE"
  shows "newFramer useWS conn cfg t = newFramer useWS conn cfg' t"
proof -
  have "framerKey cfg = framerKey cfg'"
    using assms by (simp add: framerKey_def)
  then show ?thesis
    using assms by (simp add: newFramer_def F1_Framer_def Ws_Framer_def split: res.split)
qed

lemma handleServerConn_cong:
  assumes "Get (so_ProtocolParams o1) FRAMER_PSK = Get (so_ProtocolParams o2) FRAMER_PSK" and "so_Handler o1 = so_Handler o2"
  shows "handleServerConn up rd wr o1 now t conn = handleServerConn up rd wr o2 now t conn"
proof -
  have "newFramer useWS c (framerParams (so_ProtocolParams o1) k ts r) t' = newFramer useWS c (framerParams (so_ProtocolParams o2) k ts r) t'"
    for useWS k ts r t' and c :: 'a
    by (rule newFramer_cong) (simp_all add: framerParams_def conf_names)
  with assms show ?thesis
    by (simp add: handleServerConn_def serveHeader_def Let_def
        cong del: option.case_cong_weak res.case_cong_weak prod.case_cong_weak if_weak_cong)
qed

lemma transport_main_eq:
  assumes "mset inits = mset (allSuits prefix uid now)" and "\<not> tf_V fl" and "tf_p fl < 2 ^ 63" and "port = transportPort env fl"
  shows "transport_main (fold Register inits Map.empty) env fl =
    (if port \<le> 0 then Usage
     else if 65535 < port then Fails (Errorf ''invalid serving port.'')
     else Serves \<lparr>so_Port = port, so_ProtocolParams = transportParams port fl, so_Handler = True\<rparr>)"
proof -
  have "GetInt (transportParams port fl) PORT = port" if "0 < port"
    using transportParams_port transportPort_range [OF assms(3), of env] that assms(4) by simp
  then show ?thesis
    using assms(2,4) by (auto simp: transport_main_def Let_def allSuits_registered [OF assms(1)] h1poolSuit_def)
qed

section \<open>Properties\<close>

text \<open>C34. The near end needs the http proxy. Without one in its configuration file, or with a port that is not
  positive, or when the file cannot be read, \<open>main\<close> returns as soon as the goroutine of \<open>h2s.Server\<close> has run:
  the process ends although the socks5 server listens and serves.\<close>

theorem no_http_exits:
  assumes "\<not> sf_V fl" and "run = socks_main readFile listenHttp listenSocks getBackend fl evsHttp evsSocks"
    and "case cf_Http (sr_conf run) of Some h \<Rightarrow> h_Port h \<le> 0 | None \<Rightarrow> True"
    and "0 < sf_p fl" and "\<And>addr. listenSocks ''tcp'' addr = None" and "list_all notError evsSocks"
  shows "sr_exits run \<and> (\<exists>opts r. sr_socks run = Some (opts, r) \<and> op_Port opts = sf_p fl \<and> rn_end r = Serving)"
proof -
  define cfg where "cfg = loadConf readFile (sf_c fl) \<lparr>cf_PortLocal = sf_p fl, cf_ServerUrl = sf_s fl, cf_Psk = sf_k fl, cf_Http = None\<rparr>"
  have port: "cf_PortLocal cfg = sf_p fl"
    using assms(4) by (simp add: cfg_def loadConf_def split: option.split)
  have run: "run = \<lparr>sr_conf = cfg, sr_http = Some (h2s_Server listenHttp (cf_Http cfg) evsHttp),
      sr_socks = Some (socksOptions getBackend cfg, socks5_Server listenSocks (socksOptions getBackend cfg) evsSocks),
      sr_exits = (isStopped (h2s_Server listenHttp (cf_Http cfg) evsHttp) \<or> isStopped (socks5_Server listenSocks (socksOptions getBackend cfg) evsSocks))\<rparr>"
    using assms(1,4) port by (simp add: assms(2) socks_main_def Let_def cfg_def)
  have "isStopped (h2s_Server listenHttp (cf_Http cfg) evsHttp)"
    using assms(3) by (auto simp: run h2s_Server_def split: option.splits)
  with assms(5,6) port show ?thesis
    by (simp add: run socks5_Server_def socks5_acceptLoop_conns socksOptions_def)
qed

text \<open>What keeps the near end running: with an http proxy on a positive port that can be listened on, \<open>main\<close> returns
  exactly when the socks5 server cannot listen or an \<open>Accept\<close> of it fails; until then both serve every
  connection, the socks5 server on the port of the flag, or else of the file.\<close>

theorem socks_main_serves:
  assumes "\<not> sf_V fl" and "run = socks_main readFile listenHttp listenSocks getBackend fl evsHttp evsSocks"
    and "cf_Http (sr_conf run) = Some h" and "0 < h_Port h" and "\<And>addr. listenHttp ''tcp'' addr = None"
  shows "(sr_exits run \<longleftrightarrow> 0 < cf_PortLocal (sr_conf run) \<and>
      (listenSocks ''tcp'' (portAddr (cf_PortLocal (sr_conf run))) \<noteq> None \<or> \<not> list_all notError evsSocks)) \<and>
    (\<not> sr_exits run \<longrightarrow>
      (\<exists>r. sr_http run = Some r \<and> rn_conns r = incoming evsHttp) \<and>
      (0 < cf_PortLocal (sr_conf run) \<longrightarrow> (\<exists>opts r. sr_socks run = Some (opts, r) \<and> rn_conns r = incoming evsSocks)))"
proof -
  define cfg where "cfg = loadConf readFile (sf_c fl) \<lparr>cf_PortLocal = sf_p fl, cf_ServerUrl = sf_s fl, cf_Psk = sf_k fl, cf_Http = None\<rparr>"
  define r where "r = socks5_Server listenSocks (socksOptions getBackend cfg) evsSocks"
  have http: "h2s_Server listenHttp (cf_Http cfg) evsHttp = h2s_acceptLoop evsHttp"
    using assms by (simp add: socks_main_def Let_def h2s_Server_def cfg_def)
  have run: "run = \<lparr>sr_conf = cfg, sr_http = Some (h2s_acceptLoop evsHttp),
      sr_socks = (if 0 < cf_PortLocal cfg then Some (socksOptions getBackend cfg, r) else None),
      sr_exits = (0 < cf_PortLocal cfg \<and> isStopped r)\<rparr>"
    using assms(1) http by (simp add: assms(2) socks_main_def Let_def cfg_def r_def h2s_acceptLoop_conns)
  have "rn_end r = Serving \<longleftrightarrow> listenSocks ''tcp'' (portAddr (cf_PortLocal cfg)) = None \<and> list_all notError evsSocks"
    "rn_end r = Serving \<Longrightarrow> rn_conns r = incoming evsSocks"
    by (auto simp: r_def socks5_Server_def socksOptions_def socks5_acceptLoop_conns list_all_iff
        simp flip: takeWhile_eq_all_conv split: option.splits)
  then show ?thesis
    by (auto simp: run h2s_acceptLoop_conns)
qed

text \<open>The far end: the variable \<open>PORT\<close> wins over the flag; without a positive port it prints its usage, above 65535
  it fails, and otherwise it serves on that port with the key of its flag. The flag \<open>-s\<close>, which is said
  to choose TLS, changes nothing of what is done with a connection.\<close>

theorem transport_main_serves:
  assumes "mset inits = mset (allSuits prefix uid now)" and "\<not> tf_V fl" and "tf_p fl < 2 ^ 63" and "port = transportPort env fl"
  shows "transport_main (fold Register inits Map.empty) env fl =
      (if port \<le> 0 then Usage
       else if 65535 < port then Fails (Errorf ''invalid serving port.'')
       else Serves \<lparr>so_Port = port, so_ProtocolParams = transportParams port fl, so_Handler = True\<rparr>) \<and>
    (\<forall>o1 o2. transport_main (fold Register inits Map.empty) env fl = Serves o1 \<and>
        transport_main (fold Register inits Map.empty) env (fl\<lparr>tf_s := b\<rparr>) = Serves o2 \<longrightarrow>
      handleServerConn up rd wr o1 time t conn = handleServerConn up rd wr o2 time t conn)"
proof -
  note m = transport_main_eq [OF assms]
  have "port = transportPort env (fl\<lparr>tf_s := b\<rparr>)"
    using assms(4) by (simp add: transportPort_def split: option.split)
  then have m': "transport_main (fold Register inits Map.empty) env (fl\<lparr>tf_s := b\<rparr>) =
      (if port \<le> 0 then Usage
       else if 65535 < port then Fails (Errorf ''invalid serving port.'')
       else Serves \<lparr>so_Port = port, so_ProtocolParams = transportParams port (fl\<lparr>tf_s := b\<rparr>), so_Handler = True\<rparr>)"
    using assms(2,3) by (intro transport_main_eq [OF assms(1)]) simp_all
  have "handleServerConn up rd wr o1 time t conn = handleServerConn up rd wr o2 time t conn"
    if "transport_main (fold Register inits Map.empty) env fl = Serves o1"
      "transport_main (fold Register inits Map.empty) env (fl\<lparr>tf_s := b\<rparr>) = Serves o2" for o1 o2
    by (rule handleServerConn_cong) (use that m m' in \<open>auto split: if_splits\<close>)
  with m show ?thesis
    by blast
qed


text \<open>C15. Every connection of the near end uses the pool: a complete request is dialled through a new client of
  \<open>h1pool\<close>, whatever the host; the check that keeps local addresses out of the tunnel does not apply,
  because a backend provider is set. Without a server URL, a request panics when a new trunk is due.\<close>

theorem near_end_request:
  assumes "mset inits = mset (allSuits prefix tid now)" and "uid \<noteq> []"
    and "getBackend = (\<lambda>suit params. fst (GetBackend (fold Register inits Map.empty) uid suit params s))"
    and "[] \<notin> set segs" and "length auths < 256" and "s5Addr atyp a = Some (host, isLocal)"
    and "concat segs = [5, of_nat (length auths)] @ auths @ [5, 1, rsv, atyp] @ a @ [p1, p0] @ rest"
  shows "\<exists>r. handleConn getBackend Direct (backendDial netDial secureDial) (socksOptions getBackend cfg) duplexRead duplexWrite (segs, []) =
    Some (if cf_ServerUrl cfg = [] \<and> renews now s then Panic
          else s5Served (secureDial (PoolTx uid) ''tcp'' (host @ '':'' @ showNat (unat p1 * 256 + unat p0))), r)"
proof -
  have "getBackend ''h1pool'' (socksParams cfg) = (if cf_ServerUrl cfg = [] \<and> renews now s then Panic else Ok (UplinkSecure uid (PoolTx uid)))"
    using GetBackend_all(3) [OF assms(1,2)] getClient_outcome(1) [of "socksParams cfg" prefix tid now uid s] by (simp add: assms(3))
  then have "fst (s5Outcome getBackend Direct (backendDial netDial secureDial) (socksOptions getBackend cfg) (host, isLocal) (unat p1 * 256 + unat p0)) =
      (if cf_ServerUrl cfg = [] \<and> renews now s then Panic
       else secureDial (PoolTx uid) ''tcp'' (host @ '':'' @ showNat (unat p1 * 256 + unat p0)))"
    by (simp add: s5Outcome_def s5Linker_def socksOptions_def backendDial_def split: res.split)
  with handleConn_request [OF assms(4-7), of getBackend Direct "backendDial netDial secureDial" "socksOptions getBackend cfg"] show ?thesis
    by (auto simp: s5Served_def)
qed

theorem near_end_request_witness:
  "\<exists>r. handleConn (\<lambda>suit params. fst (GetBackend (fold Register (allSuits ''p'' ''t'' 1000) Map.empty) ''u'' suit params samplePool))
      Direct (backendDial (\<lambda>n a. Err EOF) (\<lambda>tx n a. Ok (tx, a)))
      (socksOptions (\<lambda>suit params. fst (GetBackend (fold Register (allSuits ''p'' ''t'' 1000) Map.empty) ''u'' suit params samplePool))
        (emptyConf\<lparr>cf_ServerUrl := ''ws://localhost:8080''\<rparr>)) duplexRead duplexWrite
      ([[5, 1, 0, 5, 1, 0], [1, 10, 0, 0, 1, 0, 80]], []) = Some (Ok (Some (PoolTx ''u'', ''10.0.0.1:80'')), r)"
proof -
  have a: "s5Addr 1 [10, 0, 0, 1] = Some (''10.0.0.1'', True)"
    by code_simp
  have c: "concat [[5, 1, 0, 5, 1, 0], [1, 10, 0, 0, 1, 0, 80]] =
      [5, of_nat (length [0 :: byte])] @ [0] @ [5, 1, 0, 1] @ [10, 0, 0, 1] @ [0, 80] @ [] "
    by simp
  have "showNat 80 = ''80''"
    by code_simp
  then show ?thesis
    using near_end_request [OF refl _ refl _ _ a c, of "''u''" "''p''" "''t''" 1000 samplePool "\<lambda>n a. Err EOF" "\<lambda>tx n a. Ok (tx, a)"
        "emptyConf\<lparr>cf_ServerUrl := ''ws://localhost:8080''\<rparr>"]
    by (simp add: s5Served_def)
qed

section \<open>The files and flags of the repository\<close>

text \<open>\<open>config.example.json\<close>, and a run of both programs with it.\<close>

definition quoted :: "string \<Rightarrow> string" where
  "quoted s = dq # s @ [dq]"

definition exampleConfig :: string where
  "exampleConfig =
     CHR 0x7B # quoted ''psk'' @ '': '' @ quoted ''Cx2/Tb1Aqheay+Q81xbEtQ=='' @ '', '' @
     quoted ''server_url'' @ '': '' @ quoted ''ws://localhost:8080'' @ '', '' @
     quoted ''port'' @ '': 7070, '' @
     quoted ''http'' @ '': '' @ CHR 0x7B # quoted ''port'' @ '': 3127, '' @ quoted ''proxy_addr'' @ '': '' @ quoted ''localhost:7070'' @ [CHR 0x7D, CHR 0x7D]"

text \<open>Steps of the JSON reader for fuel that is a numeral.\<close>

lemmas json_steps = jvalue.simps(2) [of "pred_numeral k", folded numeral_eq_Suc] jmembers.simps(2) [of "pred_numeral k", folded numeral_eq_Suc] for k

lemma junquote_end: "junquote (dq # r) = Some ([], r)"
  by (simp add: junquote.simps)

lemmas json_eval = json_steps junquote_end junquote_safe htmlSafe_def jws_def isSpace_def jnumber_def jint_def digits1_def isDigit_def jfrac_def jexp_def

lemma example_parsed:
  "jparse exampleConfig = Some (JObj [(''psk'', JStr ''Cx2/Tb1Aqheay+Q81xbEtQ==''), (''server_url'', JStr ''ws://localhost:8080''), (''port'', JNum ''7070''),
     (''http'', JObj [(''port'', JNum ''3127''), (''proxy_addr'', JStr ''localhost:7070'')])])"
  by (simp add: jparse_def exampleConfig_def quoted_def json_eval)

lemma example_unmarshal:
  "unmarshalConf exampleConfig = Some \<lparr>cf_PortLocal = 7070, cf_ServerUrl = ''ws://localhost:8080'', cf_Psk = ''Cx2/Tb1Aqheay+Q81xbEtQ=='',
     cf_Http = Some \<lparr>h_Port = 3127, h_ProxyAddr = ''localhost:7070''\<rparr>\<rparr>"
proof -
  have "parseInt64 ''7070'' = Some 7070" "parseInt64 ''3127'' = Some 3127"
    by (simp_all add: parseInt64_def parseDigits_def isDigit_def)
  then show ?thesis
    by (simp add: unmarshalConf_def example_parsed fieldOf_def asString_def asInt_def asH2s_def emptyConf_def)
qed

definition exampleFlags :: socksFlags where
  "exampleFlags = \<lparr>sf_p = 0, sf_s = ''wss://example.com'', sf_k = [], sf_c = ''config.json'', sf_V = False\<rparr>"

definition exampleRun :: "(string, nat) socksRun" where
  "exampleRun = socks_main (\<lambda>_. Some exampleConfig) (\<lambda>_ _. None) (\<lambda>_ _. None) (\<lambda>suit params. Ok suit) exampleFlags sampleEvents sampleEvents"

lemma exampleRun_conf:
  "sr_conf exampleRun = \<lparr>cf_PortLocal = 7070, cf_ServerUrl = ''wss://example.com'', cf_Psk = ''Cx2/Tb1Aqheay+Q81xbEtQ=='',
     cf_Http = Some \<lparr>h_Port = 3127, h_ProxyAddr = ''localhost:7070''\<rparr>\<rparr>"
  by (simp add: exampleRun_def socks_main_def exampleFlags_def loadConf_def example_unmarshal Let_def)

definition farFlags :: transportFlags where
  "farFlags = \<lparr>tf_p = 8080, tf_k = ''Cx2/Tb1Aqheay+Q81xbEtQ=='', tf_s = True, tf_V = False\<rparr>"

lemma farFlags_port: "transportPort [] farFlags = 8080"
  by (simp add: transportPort_def farFlags_def parseInt64_def)

definition bareRun :: "(string, nat) socksRun" where
  "bareRun = socks_main (\<lambda>_. None) (\<lambda>_ _. None) (\<lambda>_ _. None) (\<lambda>suit params. Ok suit) (exampleFlags\<lparr>sf_p := 1080\<rparr>) [] [Incoming 1]"

theorem no_http_exits_witness:
  "sr_exits bareRun \<and> (\<exists>opts r. sr_socks bareRun = Some (opts, r) \<and> op_Port opts = 1080 \<and> rn_end r = Serving)"
proof -
  have "cf_Http (sr_conf bareRun) = None"
    by (simp add: bareRun_def exampleFlags_def socks_main_def loadConf_def Let_def)
  then show ?thesis
    using no_http_exits [OF _ bareRun_def] by (simp add: exampleFlags_def)
qed

theorem socks_main_serves_witness:
  "sr_exits exampleRun \<and> cf_PortLocal (sr_conf exampleRun) = 7070"
  using socks_main_serves [of exampleFlags exampleRun "\<lambda>_. Some exampleConfig" "\<lambda>_ _. None" "\<lambda>_ _. None" "\<lambda>suit params. Ok suit"
      sampleEvents sampleEvents "\<lparr>h_Port = 3127, h_ProxyAddr = ''localhost:7070''\<rparr>", OF _ exampleRun_def]
  by (simp add: exampleRun_conf exampleFlags_def sampleEvents_def)

theorem transport_main_serves_witness:
  "transport_main (fold Register (allSuits ''p'' ''t'' 1) Map.empty) [] farFlags =
    Serves \<lparr>so_Port = 8080, so_ProtocolParams = transportParams 8080 farFlags, so_Handler = True\<rparr>"
  using transport_main_serves [OF refl _ _ farFlags_port [symmetric], of "''p''" "''t''" 1 True "\<lambda>s. s" duplexRead duplexWrite 0 "\<lambda>_. 0" "([], [])"]
  by (simp add: farFlags_def)


end
