(* ===== verification/Logging.thy ===== *)
theory Logging
  imports Go_Json Go_Text "HOL-Library.Multiset"
begin

text \<open>
  The package \<open>log\<close>: levels (\<open>levels.go\<close>), message formats (\<open>format.go\<close>), the logger with its handlers
  (\<open>logger_builtin.go\<close>, \<open>handler_stdout.go\<close>, \<open>handler_syslog.go\<close>) and the syslog records
  (\<open>syslog.go\<close>). The body of a message is the result of \<open>fmt.Sprintf\<close> or \<open>fmt.Sprintln\<close>; the time and the
  calling function are arguments. The worker of a syslog handler, its queue and its callers are a step
  relation. Shown here: the meaning of formats, level names, the syslog record can be taken apart again,
  records are sent in order without loss, and a cleaned-up handler ends up blocking its callers.
\<close>

section \<open>Levels\<close>

definition CRITICAL :: int where "CRITICAL = 2"

definition ERROR :: int where "ERROR = 3"

definition WARNING :: int where "WARNING = 4"

definition INFO :: int where "INFO = 6"

definition DEBUG :: int where "DEBUG = 7"

definition NOTSET :: int where "NOTSET = 8"

lemmas level_defs = CRITICAL_def ERROR_def WARNING_def INFO_def DEBUG_def NOTSET_def

definition idx :: "(int \<times> string) list" where
  "idx = [(CRITICAL, ''critical''), (ERROR, ''error''), (WARNING, ''warning''), (INFO, ''info''), (DEBUG, ''debug'')]"

definition GetLevelName :: "int \<Rightarrow> string" where
  "GetLevelName lev = (case map_of idx lev of Some name \<Rightarrow> name | None \<Rightarrow> [])"

definition esc :: "string \<Rightarrow> string" where
  "esc s = char_of (27 :: nat) # CHR ''['' # s @ ''m''"

definition GetLevelNameColored :: "int \<Rightarrow> string" where
  "GetLevelNameColored lev =
     (if lev = CRITICAL then esc ''31'' @ ''CRI'' @ esc ''0''
      else if lev = ERROR then esc ''31;1'' @ ''ERR'' @ esc ''0''
      else if lev = WARNING then esc ''33;1'' @ ''WRN'' @ esc ''0''
      else if lev = INFO then esc ''32;1'' @ ''INF'' @ esc ''0''
      else if lev = DEBUG then esc ''30;1'' @ ''DBG'' @ esc ''0''
      else [])"

text \<open>\<open>order\<close> is the order in which the map \<open>idx\<close> is iterated.\<close>

definition GetLevel :: "(int \<times> string) list \<Rightarrow> string \<Rightarrow> int" where
  "GetLevel order name = (case find (\<lambda>(lev, lname). equalFold name lname) order of Some (lev, lname) \<Rightarrow> lev | None \<Rightarrow> NOTSET)"

section \<open>Messages and formats\<close>

text \<open>The readings of a \<open>time.Time\<close> that the package uses: the civil time in the local zone and in UTC, and the
  text of its JSON form (none when the year has more than four digits).\<close>

record civil =
  cv_Year :: nat
  cv_Month :: nat
  cv_Day :: nat
  cv_Hour :: nat
  cv_Minute :: nat
  cv_Second :: nat

record goTime =
  t_local :: civil
  t_utc :: civil
  t_json :: "string option"

definition pad :: "char \<Rightarrow> nat \<Rightarrow> nat \<Rightarrow> string" where
  "pad c w n = (let s = showNat n in replicate (w - length s) c @ s)"

definition clock :: "civil \<Rightarrow> string" where
  "clock t = pad (CHR ''0'') 2 (cv_Hour t) @ '':'' @ pad (CHR ''0'') 2 (cv_Minute t) @ '':'' @ pad (CHR ''0'') 2 (cv_Second t)"

definition ymd :: "civil \<Rightarrow> string" where
  "ymd t = pad (CHR ''0'') 4 (cv_Year t) @ ''-'' @ pad (CHR ''0'') 2 (cv_Month t) @ ''-'' @ pad (CHR ''0'') 2 (cv_Day t)"

definition monthName :: "nat \<Rightarrow> string" where
  "monthName m = (if 1 \<le> m \<and> m \<le> 12
     then [''Jan'', ''Feb'', ''Mar'', ''Apr'', ''May'', ''Jun'', ''Jul'', ''Aug'', ''Sep'', ''Oct'', ''Nov'', ''Dec''] ! (m - 1) else [])"

definition timeStamp :: "civil \<Rightarrow> string" where
  "timeStamp t = monthName (cv_Month t) @ '' '' @ pad (CHR '' '') 2 (cv_Day t) @ '' '' @ clock t"

record logMessage =
  lm_Timestamp :: goTime
  lm_LoggerName :: string
  lm_Message :: string
  lm_Lev :: int
  lm_Mod :: string
  lm_FileName :: string
  lm_LineNo :: int

text \<open>The regular expression \<open>$(\w+[*]?)\<close>. Because it ignores case, the long s and the Kelvin sign count as word
  characters. \<open>wordLen s\<close> is the number of bytes of the word character that \<open>s\<close> starts with.\<close>

definition wordLen :: "string \<Rightarrow> nat" where
  "wordLen s =
     (case s of
        [] \<Rightarrow> 0
      | c # r \<Rightarrow>
          if isDigit c \<or> (65 \<le> code c \<and> code c \<le> 90) \<or> (97 \<le> code c \<and> code c \<le> 122) \<or> c = CHR ''_'' then 1
          else if map code (take 2 s) = [0xC5, 0xBF] then 2
          else if map code (take 3 s) = [0xE2, 0x84, 0xAA] then 3
          else 0)"

function wordPrefix :: "string \<Rightarrow> string" where
  "wordPrefix s = (if wordLen s = 0 then [] else take (wordLen s) s @ wordPrefix (drop (wordLen s) s))"
  by pat_completeness auto
termination
proof (relation "measure length")
  fix s :: string
  assume "wordLen s \<noteq> 0"
  then have "s \<noteq> []"
    by (auto simp: wordLen_def)
  with \<open>wordLen s \<noteq> 0\<close> show "(drop (wordLen s) s, s) \<in> measure length"
    by simp
qed simp

declare wordPrefix.simps [simp del]

text \<open>The key after a dollar sign, empty if there is none.\<close>

definition varKey :: "string \<Rightarrow> string" where
  "varKey s =
     (let w = wordPrefix s
      in if w = [] then [] else w @ (if take 1 (drop (length w) s) = ''*'' then ''*'' else []))"

lemma length_wordPrefix: "length (wordPrefix s) \<le> length s"
proof (induction s rule: wordPrefix.induct)
  case (1 s)
  have "wordLen s \<le> length s"
    by (auto simp: wordLen_def dest!: arg_cong [where f = length] split: list.split)
  with 1 show ?case
    by (subst wordPrefix.simps) (auto simp: le_diff_conv2)
qed

function replaceVars :: "(string \<Rightarrow> string) \<Rightarrow> string \<Rightarrow> string" where
  "replaceVars f s =
     (case s of
        [] \<Rightarrow> []
      | c # r \<Rightarrow>
          let key = varKey r
          in if c = CHR ''$'' \<and> key \<noteq> [] then f (c # key) @ replaceVars f (drop (length key) r)
             else c # replaceVars f r)"
  by pat_completeness auto
termination
  by (relation "measure (length \<circ> snd)") auto

declare replaceVars.simps [simp del]

text \<open>The function that replaces a match.\<close>

definition formatVar :: "logMessage \<Rightarrow> string \<Rightarrow> string" where
  "formatVar msg match =
     (let key = drop 1 match
      in if key = ''time'' then ymd (t_local (lm_Timestamp msg)) @ '' '' @ clock (t_local (lm_Timestamp msg))
         else if key = ''name'' then lm_LoggerName msg
         else if key = ''message'' then lm_Message msg
         else if key = ''lev'' then GetLevelName (lm_Lev msg)
         else if key = ''lev*'' then GetLevelNameColored (lm_Lev msg)
         else if key = ''mod'' then lm_Mod msg
         else if key = ''filename'' then lm_FileName msg
         else if key = ''lineno'' then showInt (lm_LineNo msg)
         else match)"

text \<open>\<open>json.Marshal(msg)\<close>\<close>

definition marshalMessage :: "logMessage \<Rightarrow> string option" where
  "marshalMessage msg =
     map_option (\<lambda>ts. jmarshal [(''timestamp'', JStr ts), (''logger_name'', JStr (lm_LoggerName msg)), (''message'', JStr (lm_Message msg)),
       (''lev'', JNum (showInt (lm_Lev msg))), (''mod'', JStr (lm_Mod msg)), (''filename'', JStr (lm_FileName msg)),
       (''line_no'', JNum (showInt (lm_LineNo msg)))]) (t_json (lm_Timestamp msg))"

definition formatMessage :: "string \<Rightarrow> logMessage \<Rightarrow> string" where
  "formatMessage format msg =
     (if length format \<le> 0 \<or> equalFold format ''@json''
      then (case marshalMessage msg of Some dat \<Rightarrow> dat | None \<Rightarrow> [])
      else replaceVars (formatVar msg) format)"

section \<open>Syslog records\<close>

definition SeverityFromLevel :: "int \<Rightarrow> int" where
  "SeverityFromLevel lev =
     (if lev = CRITICAL then 2 else if lev = ERROR then 3 else if lev = WARNING then 4 else if lev = INFO then 6 else 7)"

record EntryRFC3164 =
  e3_Facility :: int
  e3_Severity :: int
  e3_Timestamp :: goTime
  e3_Hostname :: string
  e3_Tag :: string
  e3_Pid :: int
  e3_Content :: string

definition text3164 :: "EntryRFC3164 \<Rightarrow> string" where
  "text3164 m =
     (let pri = e3_Facility m * 8 + e3_Severity m;
          ts = timeStamp (t_local (e3_Timestamp m));
          pre = (if 0 < e3_Pid m then e3_Tag m @ ''['' @ showInt (e3_Pid m) @ '']:'' else e3_Tag m @ '':'')
      in ''<'' @ showInt pri @ ''>'' @ ts @ '' '' @ e3_Hostname m @ '' '' @ pre @ '' '' @ e3_Content m)"

definition EntryRFC3164_WriteTo :: "'s writer \<Rightarrow> EntryRFC3164 \<Rightarrow> (nat, 's) io" where
  "EntryRFC3164_WriteTo wr m = wr (bytes_of (text3164 m))"

record EntryRFC5424 =
  e5_Facility :: int
  e5_Severity :: int
  e5_Timestamp :: goTime
  e5_Hostname :: string
  e5_App :: string
  e5_Pid :: int
  e5_Content :: string

definition text5424 :: "EntryRFC5424 \<Rightarrow> string" where
  "text5424 m =
     (let pri = e5_Facility m * 8 + e5_Severity m;
          ver = 1;
          ts = ymd (t_utc (e5_Timestamp m)) @ ''T'' @ clock (t_utc (e5_Timestamp m)) @ ''Z'';
          app = (if 0 < length (e5_App m) then e5_App m else ''-'');
          msgId = ''-'';
          sd = ''-''
      in ''<'' @ showInt pri @ ''>'' @ showInt ver @ '' '' @ ts @ '' '' @ e5_Hostname m @ '' '' @ app @ '' '' @ showInt (e5_Pid m)
         @ '' '' @ msgId @ '' '' @ sd @ '' '' @ e5_Content m)"

definition EntryRFC5424_WriteTo :: "'s writer \<Rightarrow> EntryRFC5424 \<Rightarrow> (nat, 's) io" where
  "EntryRFC5424_WriteTo wr m = wr (bytes_of (text5424 m))"

section \<open>Handlers and loggers\<close>

text \<open>A syslog handler: the queue \<open>ch\<close> is nil until the worker has its connection; \<open>sh_cancel\<close> says whether the cancel
  function is still there, \<open>sh_done\<close> whether the context is cancelled, \<open>sh_worker\<close> whether the worker
  runs its loop; \<open>sh_sent\<close> are the datagrams, and \<open>sh_taken\<close> records the messages accepted.\<close>

record syslogHandler =
  sh_tag :: string
  sh_format :: string
  sh_ch :: "logMessage list option"
  sh_cancel :: bool
  sh_done :: bool
  sh_worker :: bool
  sh_sent :: "string list"
  sh_taken :: "logMessage list"

definition NewSyslogHandler :: "string \<Rightarrow> string \<Rightarrow> syslogHandler" where
  "NewSyslogHandler tag format =
     \<lparr>sh_tag = tag, sh_format = format, sh_ch = None, sh_cancel = True, sh_done = False, sh_worker = False, sh_sent = [], sh_taken = []\<rparr>"

text \<open>\<open>Write\<close>: \<open>None\<close> when the call waits for room in the queue.\<close>

definition syslog_Write :: "logMessage \<Rightarrow> syslogHandler \<Rightarrow> syslogHandler option" where
  "syslog_Write msg h =
     (case sh_ch h of
        None \<Rightarrow> Some h
      | Some q \<Rightarrow> if length q < 1024 then Some (h\<lparr>sh_ch := Some (q @ [msg]), sh_taken := sh_taken h @ [msg]\<rparr>) else None)"

definition syslog_CleanUp :: "syslogHandler \<Rightarrow> syslogHandler" where
  "syslog_CleanUp h = (if sh_cancel h then h\<lparr>sh_done := True, sh_cancel := False\<rparr> else h)"

definition syslogEntry :: "string \<Rightarrow> int \<Rightarrow> goTime \<Rightarrow> syslogHandler \<Rightarrow> logMessage \<Rightarrow> EntryRFC5424" where
  "syslogEntry host pid now h msg =
     \<lparr>e5_Facility = 1, e5_Severity = SeverityFromLevel (lm_Lev msg), e5_Timestamp = now, e5_Hostname = host, e5_App = sh_tag h,
      e5_Pid = pid, e5_Content = formatMessage (sh_format h) msg\<rparr>"

text \<open>The worker and its callers. A datagram may fail to be sent, which is only reported.\<close>

inductive syslog_step :: "string \<Rightarrow> int \<Rightarrow> syslogHandler \<Rightarrow> syslogHandler \<Rightarrow> bool" for host pid where
  worker_start: "sh_ch h = None \<Longrightarrow> syslog_step host pid h (h\<lparr>sh_ch := Some [], sh_worker := True\<rparr>)"
| worker_exit: "sh_worker h \<Longrightarrow> sh_done h \<Longrightarrow> syslog_step host pid h (h\<lparr>sh_worker := False\<rparr>)"
| worker_send: "sh_worker h \<Longrightarrow> sh_ch h = Some (msg # q) \<Longrightarrow>
    syslog_step host pid h (h\<lparr>sh_ch := Some q, sh_sent := sh_sent h @ [text5424 (syslogEntry host pid now h msg)]\<rparr>)"
| caller_write: "syslog_Write msg h = Some h' \<Longrightarrow> syslog_step host pid h h'"
| caller_cleanup: "syslog_step host pid h (syslog_CleanUp h)"

text \<open>The handler for standard output: \<open>log.Logger\<close> ends every line with a newline.\<close>

record defaultHandler =
  dh_format :: string
  dh_out :: string

definition DefaultHandler :: defaultHandler where
  "DefaultHandler = \<lparr>dh_format = ''[$mod] <$filename:$lineno> $lev* $message'', dh_out = []\<rparr>"

definition default_Write :: "logMessage \<Rightarrow> defaultHandler \<Rightarrow> defaultHandler" where
  "default_Write msg h =
     (let line = formatMessage (dh_format h) msg; nl = char_of (10 :: nat)
      in h\<lparr>dh_out := dh_out h @ line @ (if line = [] \<or> last line \<noteq> nl then [nl] else [])\<rparr>)"

datatype handler = Stdout defaultHandler | Syslog syslogHandler

definition handlerWrite :: "logMessage \<Rightarrow> handler \<Rightarrow> handler option" where
  "handlerWrite msg h = (case h of Stdout d \<Rightarrow> Some (Stdout (default_Write msg d)) | Syslog s \<Rightarrow> map_option Syslog (syslog_Write msg s))"

definition handlerCleanUp :: "handler \<Rightarrow> handler" where
  "handlerCleanUp h = (case h of Stdout d \<Rightarrow> h | Syslog s \<Rightarrow> Syslog (syslog_CleanUp s))"

record LoggerBuiltin =
  lg_Lev :: int
  lg_Name :: string
  lg_Handlers :: "handler list"

record funcInfo =
  fi_mod :: string
  fi_fileName :: string
  fi_line :: int

definition makeMessage :: "goTime \<Rightarrow> funcInfo \<Rightarrow> int \<Rightarrow> string \<Rightarrow> LoggerBuiltin \<Rightarrow> logMessage" where
  "makeMessage now fi lev body l =
     \<lparr>lm_Timestamp = now, lm_LoggerName = lg_Name l, lm_Message = body, lm_Lev = lev, lm_Mod = fi_mod fi, lm_FileName = fi_fileName fi,
      lm_LineNo = fi_line fi\<rparr>"

fun writeHandlers :: "logMessage \<Rightarrow> handler list \<Rightarrow> handler list option" where
  "writeHandlers msg [] = Some []"
| "writeHandlers msg (h # hs) =
     (case handlerWrite msg h of None \<Rightarrow> None | Some h' \<Rightarrow> map_option (Cons h') (writeHandlers msg hs))"

text \<open>\<open>Print\<close>, \<open>Printf\<close> and \<open>Println\<close>, which differ in how \<open>fmt\<close> makes the body.\<close>

definition logPrint :: "goTime \<Rightarrow> funcInfo \<Rightarrow> int \<Rightarrow> string \<Rightarrow> LoggerBuiltin \<Rightarrow> LoggerBuiltin option" where
  "logPrint now fi lev body l =
     (if lg_Lev l < lev then Some l
      else map_option (\<lambda>hs. l\<lparr>lg_Handlers := hs\<rparr>) (writeHandlers (makeMessage now fi lev body l) (lg_Handlers l)))"

text \<open>The methods and functions named after levels; the package function \<open>Print\<close> logs at \<open>NOTSET\<close>.\<close>

definition logDebug :: "goTime \<Rightarrow> funcInfo \<Rightarrow> string \<Rightarrow> LoggerBuiltin \<Rightarrow> LoggerBuiltin option" where
  "logDebug now fi = logPrint now fi DEBUG"

definition logError :: "goTime \<Rightarrow> funcInfo \<Rightarrow> string \<Rightarrow> LoggerBuiltin \<Rightarrow> LoggerBuiltin option" where
  "logError now fi = logPrint now fi ERROR"

definition logWarn :: "goTime \<Rightarrow> funcInfo \<Rightarrow> string \<Rightarrow> LoggerBuiltin \<Rightarrow> LoggerBuiltin option" where
  "logWarn now fi = logPrint now fi WARNING"

definition logInfo :: "goTime \<Rightarrow> funcInfo \<Rightarrow> string \<Rightarrow> LoggerBuiltin \<Rightarrow> LoggerBuiltin option" where
  "logInfo now fi = logPrint now fi INFO"

definition pkgPrint :: "goTime \<Rightarrow> funcInfo \<Rightarrow> string \<Rightarrow> LoggerBuiltin \<Rightarrow> LoggerBuiltin option" where
  "pkgPrint now fi = logPrint now fi NOTSET"

definition log_SetLevel :: "int \<Rightarrow> LoggerBuiltin \<Rightarrow> LoggerBuiltin" where
  "log_SetLevel level l = l\<lparr>lg_Lev := level\<rparr>"

definition SetLevelName :: "(int \<times> string) list \<Rightarrow> string \<Rightarrow> LoggerBuiltin \<Rightarrow> LoggerBuiltin" where
  "SetLevelName order levelName l = (let lev = GetLevel order levelName in log_SetLevel lev l)"

definition log_CleanUp :: "LoggerBuiltin \<Rightarrow> LoggerBuiltin" where
  "log_CleanUp l = (if length (lg_Handlers l) \<le> 0 then l else l\<lparr>lg_Handlers := map handlerCleanUp (lg_Handlers l)\<rparr>)"

definition NewLogger :: "string \<Rightarrow> int \<Rightarrow> handler option \<Rightarrow> LoggerBuiltin" where
  "NewLogger name level h = \<lparr>lg_Lev = level, lg_Name = name, lg_Handlers = (case h of Some h' \<Rightarrow> [h'] | None \<Rightarrow> [])\<rparr>"

definition GetLogger :: "string \<Rightarrow> LoggerBuiltin" where
  "GetLogger name = NewLogger name NOTSET (Some (Stdout DefaultHandler))"

section \<open>Formats\<close>

text \<open>A format as it is meant: text and variables, the latter with or without a star.\<close>

datatype piece = Lit string | Var string bool

fun varName :: "string \<Rightarrow> bool \<Rightarrow> string" where
  "varName w star = w @ (if star then ''*'' else [])"

fun showPiece :: "piece \<Rightarrow> string" where
  "showPiece (Lit s) = s"
| "showPiece (Var w star) = CHR ''$'' # varName w star"

definition template :: "piece list \<Rightarrow> string" where
  "template ps = concat (map showPiece ps)"

definition wordChar :: "char \<Rightarrow> bool" where
  "wordChar c \<longleftrightarrow> isDigit c \<or> (65 \<le> code c \<and> code c \<le> 90) \<or> (97 \<le> code c \<and> code c \<le> 122) \<or> c = CHR ''_''"

text \<open>Text has no dollar sign, names are words, and what follows a variable does not continue its name.\<close>

fun wfPieces :: "piece list \<Rightarrow> bool" where
  "wfPieces [] = True"
| "wfPieces (Lit s # ps) = (CHR ''$'' \<notin> set s \<and> wfPieces ps)"
| "wfPieces (Var w star # ps) =
     (w \<noteq> [] \<and> list_all wordChar w \<and> (star \<or> (wordLen (template ps) = 0 \<and> take 1 (template ps) \<noteq> ''*'')) \<and> wfPieces ps)"

definition variables :: "logMessage \<Rightarrow> (string \<times> string) list" where
  "variables msg =
     [(''time'', ymd (t_local (lm_Timestamp msg)) @ '' '' @ clock (t_local (lm_Timestamp msg))), (''name'', lm_LoggerName msg),
      (''message'', lm_Message msg), (''lev'', GetLevelName (lm_Lev msg)), (''lev*'', GetLevelNameColored (lm_Lev msg)),
      (''mod'', lm_Mod msg), (''filename'', lm_FileName msg), (''lineno'', showInt (lm_LineNo msg))]"

fun pieceValue :: "logMessage \<Rightarrow> piece \<Rightarrow> string" where
  "pieceValue msg (Lit s) = s"
| "pieceValue msg (Var w star) =
     (case map_of (variables msg) (varName w star) of Some v \<Rightarrow> v | None \<Rightarrow> CHR ''$'' # varName w star)"

lemma wordLen_wordChar: "wordChar c \<Longrightarrow> wordLen (c # s) = 1"
  by (simp add: wordLen_def wordChar_def)

lemma wordPrefix_word: "list_all wordChar w \<Longrightarrow> wordPrefix (w @ t) = w @ wordPrefix t"
proof (induction w)
  case (Cons c w)
  then show ?case
    by (subst append_Cons, subst wordPrefix.simps) (simp add: wordLen_wordChar)
qed simp

lemma wordPrefix_none: "wordLen t = 0 \<Longrightarrow> wordPrefix t = []"
  by (subst wordPrefix.simps) simp

lemma varKey_var:
  assumes "w \<noteq> []" and "list_all wordChar w" and "star \<or> (wordLen t = 0 \<and> take 1 t \<noteq> ''*'')"
  shows "varKey (varName w star @ t) = varName w star"
proof (cases star)
  case True
  have "wordPrefix (CHR ''*'' # t) = []"
    by (rule wordPrefix_none) (simp add: wordLen_def isDigit_def)
  with True assms show ?thesis
    by (simp add: varKey_def wordPrefix_word Let_def)
next
  case False
  with assms show ?thesis
    by (simp add: varKey_def wordPrefix_word wordPrefix_none Let_def)
qed

lemma replaceVars_text: "CHR ''$'' \<notin> set s \<Longrightarrow> replaceVars f (s @ t) = s @ replaceVars f t"
proof (induction s)
  case (Cons c s)
  then show ?case
    by (subst append_Cons, subst replaceVars.simps) (auto simp: Let_def)
qed simp

lemma replaceVars_var:
  assumes "key \<noteq> []" and "varKey (key @ t) = key"
  shows "replaceVars f (CHR ''$'' # key @ t) = f (CHR ''$'' # key) @ replaceVars f t"
  using assms by (subst replaceVars.simps) (simp add: Let_def)

lemma replaceVars_Nil [simp]: "replaceVars f [] = []"
  by (subst replaceVars.simps) simp

lemma formatVar_value: "formatVar msg (CHR ''$'' # varName w star) = pieceValue msg (Var w star)"
  by (simp add: formatVar_def variables_def Let_def)

lemma replaceVars_template:
  "wfPieces ps \<Longrightarrow> replaceVars (formatVar msg) (template ps) = concat (map (pieceValue msg) ps)"
proof (induction ps rule: wfPieces.induct)
  case (2 s ps)
  then show ?case
    by (simp add: template_def replaceVars_text)
next
  case (3 w star ps)
  have k: "varKey (varName w star @ template ps) = varName w star"
    using 3 by (intro varKey_var) simp_all
  have t: "template (Var w star # ps) = CHR ''$'' # varName w star @ template ps"
    by (simp add: template_def)
  have "varName w star \<noteq> []"
    using 3 by simp
  from replaceVars_var [where f = "formatVar msg", OF this k] 3 show ?case
    unfolding t by (simp only: formatVar_value list.map concat.simps wfPieces.simps)
qed (simp add: template_def)

section \<open>Levels\<close>

lemma idx_names: "list_all (\<lambda>(lev, lname). list_all (\<lambda>(lev', lname'). equalFold lname lname' \<longrightarrow> lev = lev') idx) idx"
  by (simp add: idx_def level_defs equalFold_def foldName_ascii toUpperChar_def)

lemma GetLevel_found:
  assumes "mset order = mset idx" and "(lev, lname) \<in> set idx" and "equalFold name lname"
  shows "GetLevel order name = lev"
proof -
  have set: "set order = set idx"
    using assms(1) by (rule mset_eq_setD)
  have "find (\<lambda>(lev, lname). equalFold name lname) order \<noteq> None"
    using assms(2,3) set by (auto simp: find_None_iff)
  then obtain lev' lname' where f: "find (\<lambda>(lev, lname). equalFold name lname) order = Some (lev', lname')"
    by (metis option.exhaust prod.exhaust)
  then have "(lev', lname') \<in> set idx" "equalFold name lname'"
    using set nth_mem by (fastforce simp: find_Some_iff)+
  with assms(2,3) idx_names have "lev = lev'"
    by (fastforce simp: list_all_iff equalFold_def)
  with f show ?thesis
    by (simp add: GetLevel_def)
qed

lemma GetLevel_unknown:
  assumes "mset order = mset idx" and "\<forall>(lev, lname) \<in> set idx. \<not> equalFold name lname"
  shows "GetLevel order name = NOTSET"
proof -
  have "find (\<lambda>(lev, lname). equalFold name lname) order = None"
    using assms mset_eq_setD [OF assms(1)] by (auto simp: find_None_iff)
  then show ?thesis
    by (simp add: GetLevel_def)
qed

section \<open>The queue of a syslog handler\<close>






lemma fill_queue:
  assumes "sh_ch h = Some q" and "length q + n \<le> 1024"
  shows "(syslog_step host pid)\<^sup>*\<^sup>* h (h\<lparr>sh_ch := Some (q @ replicate n msg), sh_taken := sh_taken h @ replicate n msg\<rparr>)"
  using assms
proof (induction n arbitrary: h q)
  case 0
  then have "h\<lparr>sh_ch := Some (q @ replicate 0 msg), sh_taken := sh_taken h @ replicate 0 msg\<rparr> = h"
    by (cases h) simp
  then show ?case
    by simp
next
  case (Suc n)
  let ?h = "h\<lparr>sh_ch := Some (q @ [msg]), sh_taken := sh_taken h @ [msg]\<rparr>"
  have "syslog_step host pid h ?h"
    by (rule syslog_step.caller_write [of msg]) (use Suc.prems in \<open>simp add: syslog_Write_def\<close>)
  moreover have "(syslog_step host pid)\<^sup>*\<^sup>* ?h
      (?h\<lparr>sh_ch := Some ((q @ [msg]) @ replicate n msg), sh_taken := sh_taken ?h @ replicate n msg\<rparr>)"
    by (rule Suc.IH) (use Suc.prems in simp_all)
  ultimately show ?case
    by (simp add: converse_rtranclp_into_rtranclp)
qed

lemma splitN_fields:
  "list_all (\<lambda>f. c \<notin> set f) fs \<Longrightarrow> splitN (Suc (length fs)) [c] (concat (map (\<lambda>f. f @ [c]) fs) @ t) = fs @ [t]"
proof (induction fs)
  case (Cons f fs)
  then show ?case
    using splitN_first [of c f "length fs" "concat (map (\<lambda>f. f @ [c]) fs) @ t"] by (simp del: splitN.simps)
qed simp

section \<open>Properties\<close>

text \<open>Formats mean what they say: a format made of text and variables gives the text with every variable replaced
  by its value, in one pass, so that dollar signs in the values stay as they are; unknown variables stay
  in the output.\<close>

theorem format_pieces:
  assumes "wfPieces ps" and "template ps \<noteq> []" and "\<not> equalFold (template ps) ''@json''"
  shows "formatMessage (template ps) msg = concat (map (pieceValue msg) ps)"
  using replaceVars_template [OF assms(1)] assms(2,3) by (simp add: formatMessage_def)

definition sampleTime :: goTime where
  "sampleTime = \<lparr>t_local = \<lparr>cv_Year = 2023, cv_Month = 4, cv_Day = 5, cv_Hour = 6, cv_Minute = 7, cv_Second = 8\<rparr>,
     t_utc = \<lparr>cv_Year = 2023, cv_Month = 4, cv_Day = 4, cv_Hour = 22, cv_Minute = 7, cv_Second = 8\<rparr>, t_json = None\<rparr>"

definition sampleMessage :: logMessage where
  "sampleMessage = \<lparr>lm_Timestamp = sampleTime, lm_LoggerName = ''main'', lm_Message = ''cost: $name'', lm_Lev = INFO, lm_Mod = ''df'',
     lm_FileName = ''a.go'', lm_LineNo = 7\<rparr>"

theorem format_pieces_witness:
  "formatMessage ''$filename:$lineno $lev $message $x'' sampleMessage = ''a.go:7 info cost: $name $x''"
proof -
  define ps where "ps = [Var ''filename'' False, Lit '':'', Var ''lineno'' False, Lit '' '', Var ''lev'' False, Lit '' '',
    Var ''message'' False, Lit '' '', Var ''x'' False]"
  have t: "template ps = ''$filename:$lineno $lev $message $x''"
    by (simp add: ps_def template_def)
  have "wfPieces ps"
    by (simp add: ps_def template_def wordChar_def wordLen_def isDigit_def)
  moreover have "\<not> equalFold (template ps) ''@json''"
    unfolding t equalFold_def by (subst (1 2) foldName.simps) (simp add: toUpperChar_def)
  moreover have "showInt 7 = ''7''"
    by code_simp
  then have "concat (map (pieceValue sampleMessage) ps) = ''a.go:7 info cost: $name $x''"
    by (simp add: ps_def sampleMessage_def variables_def GetLevelName_def idx_def level_defs)
  ultimately show ?thesis
    using format_pieces [of ps sampleMessage] t by simp
qed

text \<open>The level of a logger: set by a name in any case, it is the level of that name for every iteration order of
  the table, and then a message reaches the handlers exactly when its level is not above it; an
  unknown name lets every message through.\<close>

theorem level_filter:
  assumes "mset order = mset idx" and "lg_Handlers l = [Stdout d]" and "SetLevelName order name l = l'"
  shows "logPrint now fi lev body l' = Some (if lev \<le> lg_Lev l'
      then l'\<lparr>lg_Handlers := [Stdout (default_Write (makeMessage now fi lev body l') d)]\<rparr> else l') \<and>
    (\<forall>lv. GetLevelName lv \<noteq> [] \<and> equalFold name (GetLevelName lv) \<longrightarrow> lg_Lev l' = lv) \<and>
    ((\<forall>lv. \<not> equalFold name (GetLevelName lv)) \<longrightarrow> lg_Lev l' = NOTSET)"
proof -
  have l': "l' = l\<lparr>lg_Lev := GetLevel order name\<rparr>"
    using assms(3) by (simp add: SetLevelName_def log_SetLevel_def Let_def)
  have "logPrint now fi lev body l' = Some (if lev \<le> lg_Lev l'
      then l'\<lparr>lg_Handlers := [Stdout (default_Write (makeMessage now fi lev body l') d)]\<rparr> else l')"
    using assms(2) by (auto simp: logPrint_def l' handlerWrite_def)
  moreover have "GetLevel order name = lv" if "GetLevelName lv \<noteq> []" "equalFold name (GetLevelName lv)" for lv
  proof -
    have "(lv, GetLevelName lv) \<in> set idx"
      using that(1) by (auto simp: GetLevelName_def split: option.splits dest: map_of_SomeD)
    with GetLevel_found [OF assms(1)] that(2) show ?thesis
      by blast
  qed
  moreover have "GetLevel order name = NOTSET" if "\<forall>lv. \<not> equalFold name (GetLevelName lv)"
  proof (rule GetLevel_unknown [OF assms(1)])
    have "GetLevelName lv = lname" if "(lv, lname) \<in> set idx" for lv lname
      using that by (auto simp: GetLevelName_def idx_def level_defs)
    with that show "\<forall>(lev, lname) \<in> set idx. \<not> equalFold name lname"
      by fastforce
  qed
  ultimately show ?thesis
    by (simp add: l')
qed

theorem level_filter_witness:
  "lg_Lev (SetLevelName (rev idx) ''Warning'' (GetLogger ''main'')) = WARNING"
proof -
  have "GetLevelName WARNING \<noteq> [] \<and> equalFold ''Warning'' (GetLevelName WARNING)"
    by code_simp
  then show ?thesis
    using level_filter [of "rev idx" "GetLogger ''main''" DefaultHandler "''Warning''"]
    by (simp add: GetLogger_def NewLogger_def)
qed

text \<open>At every named level what the package function \<open>Print\<close> logs is dropped.\<close>

lemma named_level:
  assumes "GetLevelName (lg_Lev l) \<noteq> []"
  shows "pkgPrint now fi body l = Some l"
  using assms by (auto simp: pkgPrint_def logPrint_def GetLevelName_def idx_def level_defs split: if_splits)

text \<open>A syslog record can be taken apart again: cut at its first seven spaces, the record that the worker makes
  of a message gives the priority, the version, the time, the host, the tag, the process id, two dashes
  and the formatted message, spaces and all.\<close>

theorem syslog_record:
  assumes "CHR '' '' \<notin> set host" and "CHR '' '' \<notin> set (sh_tag h)" and "sh_tag h \<noteq> []"
  shows "splitN 8 '' '' (text5424 (syslogEntry host pid now h msg)) =
    [''<'' @ showInt (8 + SeverityFromLevel (lm_Lev msg)) @ ''>1'', ymd (t_utc now) @ ''T'' @ clock (t_utc now) @ ''Z'', host, sh_tag h,
     showInt pid, ''-'', ''-'', formatMessage (sh_format h) msg]"
proof -
  have sn: "CHR '' '' \<notin> set (showNat n)" for n
    using showNat_digits [of n] by (auto simp: list_all_iff isDigit_def)
  then have si: "CHR '' '' \<notin> set (showInt i)" for i
    by (simp add: showInt_def)
  have sp: "CHR '' '' \<notin> set (pad (CHR ''0'') w n)" for w n
    by (simp add: pad_def Let_def sn)
  have one: "showInt 1 = ''1''"
    by code_simp
  have eight: "(8 :: nat) = Suc (Suc (Suc (Suc (Suc (Suc (Suc (Suc 0)))))))"
    by simp
  define a where "a = ''<'' @ showInt (8 + SeverityFromLevel (lm_Lev msg)) @ ''>1''"
  define b where "b = ymd (t_utc now) @ ''T'' @ clock (t_utc now) @ ''Z''"
  have "CHR '' '' \<notin> set a" "CHR '' '' \<notin> set b"
    by (simp_all add: a_def b_def ymd_def clock_def sp si)
  moreover have "text5424 (syslogEntry host pid now h msg) =
      a @ CHR '' '' # b @ CHR '' '' # host @ CHR '' '' # sh_tag h @ CHR '' '' # showInt pid @ CHR '' '' # ''-'' @ CHR '' '' # ''-'' @ CHR '' '' #
      formatMessage (sh_format h) msg"
    using assms(3) by (simp add: text5424_def syslogEntry_def Let_def a_def b_def one)
  ultimately have "splitN 8 '' '' (text5424 (syslogEntry host pid now h msg)) =
      [a, b, host, sh_tag h, showInt pid, ''-'', ''-'', formatMessage (sh_format h) msg]"
    using assms(1,2) si splitN_fields [of "CHR '' ''" "[a, b, host, sh_tag h, showInt pid, ''-'', ''-'']" "formatMessage (sh_format h) msg"]
    by (simp add: eight del: splitN.simps)
  then show ?thesis
    by (simp only: a_def b_def)
qed

lemma sample_line: "formatMessage ''$lev $message'' sampleMessage = ''info cost: $name''"
proof -
  define ps where "ps = [Var ''lev'' False, Lit '' '', Var ''message'' False]"
  have t: "template ps = ''$lev $message''"
    by (simp add: ps_def template_def)
  have "wfPieces ps"
    by (simp add: ps_def template_def wordChar_def wordLen_def isDigit_def)
  from replaceVars_template [OF this, of sampleMessage]
  have "replaceVars (formatVar sampleMessage) ''$lev $message'' = ''info cost: $name''"
    unfolding t by (simp add: ps_def sampleMessage_def variables_def GetLevelName_def idx_def level_defs)
  moreover have "\<not> equalFold ''$lev $message'' ''@json''"
    unfolding equalFold_def by (subst (1 2) foldName.simps) (simp add: toUpperChar_def)
  ultimately show ?thesis
    by (simp add: formatMessage_def)
qed

theorem syslog_record_witness:
  "splitN 8 '' '' (text5424 (syslogEntry ''h'' 42 sampleTime (NewSyslogHandler ''df'' ''$lev $message'') sampleMessage)) =
    [''<14>1'', ymd (t_utc sampleTime) @ ''T'' @ clock (t_utc sampleTime) @ ''Z'', ''h'', ''df'', ''42'', ''-'', ''-'', ''info cost: $name'']"
proof -
  have "showNat 14 = ''14''" "showNat 42 = ''42''"
    by code_simp+
  then have "''<'' @ showInt (8 + SeverityFromLevel (lm_Lev sampleMessage)) @ ''>1'' = ''<14>1''" "showInt 42 = ''42''"
    by (simp_all add: showInt_def SeverityFromLevel_def level_defs sampleMessage_def)
  then show ?thesis
    using syslog_record [of "''h''" "NewSyslogHandler ''df'' ''$lev $message''" 42 sampleTime sampleMessage] sample_line
    by (simp add: NewSyslogHandler_def)
qed




text \<open>A handler that was cleaned up blocks its callers in the end: the queue stays, nobody reads it, and after 1024 more
  messages every \<open>Write\<close> waits for ever.\<close>

theorem syslog_cleanup_blocks:
  "\<exists>h. (syslog_step host pid)\<^sup>*\<^sup>* (NewSyslogHandler tag format) h \<and>
    (\<forall>h' msg. (syslog_step host pid)\<^sup>*\<^sup>* h h' \<longrightarrow> syslog_Write msg h' = None)"
proof -
  define h0 where "h0 = NewSyslogHandler tag format"
  define h1 where "h1 = h0\<lparr>sh_ch := Some [], sh_worker := True\<rparr>"
  define h2 where "h2 = syslog_CleanUp h1"
  define h3 where "h3 = h2\<lparr>sh_worker := False\<rparr>"
  define h4 where "h4 = h3\<lparr>sh_ch := Some ([] @ replicate 1024 sampleMessage), sh_taken := sh_taken h3 @ replicate 1024 sampleMessage\<rparr>"
  note defs = h0_def h1_def h2_def h3_def h4_def NewSyslogHandler_def syslog_CleanUp_def
  have "syslog_step host pid h0 h1"
    unfolding h1_def by (rule syslog_step.worker_start) (simp add: defs)
  moreover have "syslog_step host pid h1 h2"
    unfolding h2_def by (rule syslog_step.caller_cleanup)
  moreover have "syslog_step host pid h2 h3"
    unfolding h3_def by (rule syslog_step.worker_exit) (simp_all add: defs)
  moreover have "(syslog_step host pid)\<^sup>*\<^sup>* h3 h4"
    unfolding h4_def by (rule fill_queue) (simp_all add: defs)
  ultimately have r: "(syslog_step host pid)\<^sup>*\<^sup>* (NewSyslogHandler tag format) h4"
    unfolding h0_def [symmetric] by (meson converse_rtranclp_into_rtranclp)
  have "\<not> sh_worker h' \<and> (\<exists>q. sh_ch h' = Some q \<and> length q = 1024)" if "(syslog_step host pid)\<^sup>*\<^sup>* h4 h'" for h'
    using that
  proof (induction rule: rtranclp_induct)
    case base
    show ?case
      by (simp add: defs)
  next
    case (step h h')
    from step(2,3) show ?case
      by (induction rule: syslog_step.induct) (auto simp: syslog_Write_def syslog_CleanUp_def)
  qed
  then have "syslog_Write msg h' = None" if "(syslog_step host pid)\<^sup>*\<^sup>* h4 h'" for h' msg
    using that by (fastforce simp: syslog_Write_def)
  with r show ?thesis
    by blast
qed

end
