(* ===== verification/Log_Default.thy ===== *)
theory Log_Default
  imports Logging Go_Net
begin

text \<open>
  The package functions of \<open>log\<close> over the default logger (\<open>log.go\<close>), the calling function of a message
  (\<open>func.go\<close>), and the set-up that the programs under \<open>examples/\<close> do first. The stack is an argument: the
  frames that \<open>runtime.Callers\<close> gives. Shown here: the caller that is reported is the innermost frame
  outside the package, with the path of its package; and which messages are written after the set-up.
\<close>

section \<open>Paths\<close>

text \<open>\<open>path.Clean\<close>, on the components of a path: empty ones and dots go, and \<open>..\<close> takes back the component before.\<close>

fun cleanParts :: "bool \<Rightarrow> string list \<Rightarrow> string list \<Rightarrow> string list" where
  "cleanParts rooted acc [] = rev acc"
| "cleanParts rooted acc (p # ps) =
     (if p = [] \<or> p = ''.'' then cleanParts rooted acc ps
      else if p = ''..'' then
        (case acc of
           [] \<Rightarrow> cleanParts rooted (if rooted then [] else [p]) ps
         | q # qs \<Rightarrow> if q = ''..'' then cleanParts rooted (p # acc) ps else cleanParts rooted qs ps)
      else cleanParts rooted (p # acc) ps)"

fun joinOn :: "'a \<Rightarrow> 'a list list \<Rightarrow> 'a list" where
  "joinOn c [] = []"
| "joinOn c [x] = x"
| "joinOn c (x # y # ys) = x @ c # joinOn c (y # ys)"

definition pathClean :: "string \<Rightarrow> string" where
  "pathClean p =
     (if p = [] then ''.''
      else let rooted = (take 1 p = ''/''); q = joinOn CHR ''/'' (cleanParts rooted [] (splitOn CHR ''/'' p))
           in if rooted then CHR ''/'' # q else if q = [] then ''.'' else q)"

text \<open>\<open>path.Dir\<close> and \<open>path.Base\<close>.\<close>

definition pathDir :: "string \<Rightarrow> string" where
  "pathDir p = pathClean (rev (dropWhile (\<lambda>c. c \<noteq> CHR ''/'') (rev p)))"

definition pathBase :: "string \<Rightarrow> string" where
  "pathBase p =
     (if p = [] then ''.''
      else let q = rev (takeWhile (\<lambda>c. c \<noteq> CHR ''/'') (dropWhile (\<lambda>c. c = CHR ''/'') (rev p)))
           in if q = [] then ''/'' else q)"

section \<open>The caller of a message\<close>

record callFrame =
  fr_File :: string
  fr_Function :: string
  fr_Line :: int

definition zeroFrame :: callFrame where
  "zeroFrame = \<lparr>fr_File = [], fr_Function = [], fr_Line = 0\<rparr>"

definition frameInfo :: "callFrame \<Rightarrow> funcInfo" where
  "frameInfo fr =
     (let parts = splitOn CHR ''/'' (fr_Function fr);
          lastPart = last parts;
          modName = hd (splitOn CHR ''.'' lastPart);
          parts = butlast parts @ [modName]
      in \<lparr>fi_mod = joinOn CHR ''/'' parts, fi_fileName = pathBase (fr_File fr), fi_line = fr_Line fr\<rparr>)"

text \<open>The loop over the frames. After the last one \<open>Next\<close> gives the zero frame for ever, so without a frame of
  the package the loop does not end (\<open>None\<close>).\<close>

fun findCaller :: "string \<Rightarrow> bool \<Rightarrow> callFrame list \<Rightarrow> funcInfo option" where
  "findCaller folder foundThis [] =
     (if foundThis \<and> pathDir (fr_File zeroFrame) \<noteq> folder then Some (frameInfo zeroFrame) else None)"
| "findCaller folder foundThis (fr # frs) =
     (let frameFolder = pathDir (fr_File fr)
      in if \<not> foundThis \<and> frameFolder = folder then findCaller folder True frs
         else if foundThis \<and> frameFolder \<noteq> folder then Some (frameInfo fr)
         else findCaller folder foundThis frs)"

text \<open>\<open>fileThis\<close> is the result of \<open>runtime.Caller(0)\<close>, \<open>frames\<close> the stack from the innermost call; there is room for ten.\<close>

definition getFuncInfo :: "string option \<Rightarrow> callFrame list \<Rightarrow> funcInfo option" where
  "getFuncInfo fileThis stack =
     (let fi = \<lparr>fi_mod = [], fi_fileName = [], fi_line = 0\<rparr>
      in case fileThis of
           None \<Rightarrow> Some fi
         | Some file \<Rightarrow> if take 10 stack = [] then Some fi else findCaller (pathDir file) False (take 10 stack))"

section \<open>The default logger\<close>

definition defaultLogger :: LoggerBuiltin where
  "defaultLogger = \<lparr>lg_Lev = NOTSET, lg_Name = [], lg_Handlers = [Stdout DefaultHandler]\<rparr>"

definition log_Level :: "LoggerBuiltin \<Rightarrow> int" where
  "log_Level l = lg_Lev l"

definition pkg_Level :: "LoggerBuiltin \<Rightarrow> int" where
  "pkg_Level l = log_Level l"

definition pkg_UpdateLevel :: "int \<Rightarrow> LoggerBuiltin \<Rightarrow> LoggerBuiltin" where
  "pkg_UpdateLevel level l = log_SetLevel level l"

definition pkg_SetLevel :: "int \<Rightarrow> LoggerBuiltin \<Rightarrow> LoggerBuiltin" where
  "pkg_SetLevel level l = log_SetLevel level l"

definition SetLoggerDefault :: "LoggerBuiltin \<Rightarrow> LoggerBuiltin \<Rightarrow> LoggerBuiltin" where
  "SetLoggerDefault l old = l"

definition GetHandlers :: "LoggerBuiltin \<Rightarrow> handler list" where
  "GetHandlers l = lg_Handlers l"

definition SetHandlers :: "handler list \<Rightarrow> LoggerBuiltin \<Rightarrow> LoggerBuiltin" where
  "SetHandlers hl l = l\<lparr>lg_Handlers := hl\<rparr>"

definition handlerFormat :: "handler \<Rightarrow> string" where
  "handlerFormat h = (case h of Stdout d \<Rightarrow> dh_format d | Syslog s \<Rightarrow> sh_format s)"

definition handlerSetFormat :: "string \<Rightarrow> handler \<Rightarrow> handler" where
  "handlerSetFormat format h =
     (case h of Stdout d \<Rightarrow> Stdout (d\<lparr>dh_format := format\<rparr>) | Syslog s \<Rightarrow> Syslog (s\<lparr>sh_format := format\<rparr>))"

text \<open>The package functions that write: the level of each, and the call. The information on the caller is only
  looked up for a message that is written. \<open>None\<close>: the call does not return.\<close>

datatype pkgFun = PkgPrint | PkgDebug | PkgError | PkgWarning | PkgWarn | PkgInfo

fun pkgLevel :: "pkgFun \<Rightarrow> int" where
  "pkgLevel PkgPrint = NOTSET"
| "pkgLevel PkgDebug = DEBUG"
| "pkgLevel PkgError = ERROR"
| "pkgLevel PkgWarning = WARNING"
| "pkgLevel PkgWarn = WARNING"
| "pkgLevel PkgInfo = INFO"

fun pkgCall :: "pkgFun \<Rightarrow> goTime \<Rightarrow> funcInfo \<Rightarrow> string \<Rightarrow> LoggerBuiltin \<Rightarrow> LoggerBuiltin option" where
  "pkgCall PkgPrint now fi = pkgPrint now fi"
| "pkgCall PkgDebug now fi = logDebug now fi"
| "pkgCall PkgError now fi = logError now fi"
| "pkgCall PkgWarning now fi = logWarn now fi"
| "pkgCall PkgWarn now fi = logWarn now fi"
| "pkgCall PkgInfo now fi = logInfo now fi"

definition pkgLog :: "pkgFun \<Rightarrow> string option \<Rightarrow> callFrame list \<Rightarrow> goTime \<Rightarrow> string \<Rightarrow> LoggerBuiltin \<Rightarrow> LoggerBuiltin option" where
  "pkgLog f fileThis stack now body l =
     (if lg_Lev l < pkgLevel f then Some l
      else case getFuncInfo fileThis stack of None \<Rightarrow> None | Some fi \<Rightarrow> pkgCall f now fi body l)"

text \<open>What both programs do first: the format of every handler, then the level by the flag \<open>-d\<close>.\<close>

definition mainFormat :: string where
  "mainFormat = ''$time [$mod] <$filename:$lineno> $lev* $message''"

definition mainLogger :: "bool \<Rightarrow> LoggerBuiltin \<Rightarrow> LoggerBuiltin" where
  "mainLogger debug l =
     pkg_SetLevel (if debug then DEBUG else INFO) (SetHandlers (map (handlerSetFormat mainFormat) (GetHandlers l)) l)"

section \<open>Facts\<close>

lemma splitOn_nonempty [simp]: "splitOn c xs \<noteq> []"
  by (induction xs) (auto split: list.split)

lemma splitOn_none: "c \<notin> set xs \<Longrightarrow> splitOn c xs = [xs]"
  by (induction xs) auto

lemma splitOn_append: "c \<notin> set xs \<Longrightarrow> splitOn c (xs @ c # ys) = xs # splitOn c ys"
  by (induction xs) auto

lemma splitOn_joinOn: "list_all (\<lambda>x. c \<notin> set x) xs \<Longrightarrow> xs \<noteq> [] \<Longrightarrow> splitOn c (joinOn c xs) = xs"
  by (induction xs rule: induct_list012) (auto simp: splitOn_none splitOn_append)

lemma findCaller_skip:
  "list_all (\<lambda>fr. pathDir (fr_File fr) \<noteq> folder) pre \<Longrightarrow> findCaller folder False (pre @ frs) = findCaller folder False frs"
  by (induction pre) auto

lemma findCaller_own:
  "list_all (\<lambda>fr. pathDir (fr_File fr) = folder) own \<Longrightarrow> findCaller folder True (own @ frs) = findCaller folder True frs"
  by (induction own) auto

lemma getFuncInfo_caller:
  assumes "take 10 stack = pre @ own @ caller # rest" and "own \<noteq> []"
    and "list_all (\<lambda>fr. pathDir (fr_File fr) \<noteq> pathDir file) pre" and "list_all (\<lambda>fr. pathDir (fr_File fr) = pathDir file) own"
    and "pathDir (fr_File caller) \<noteq> pathDir file"
  shows "getFuncInfo (Some file) stack = Some (frameInfo caller)"
proof -
  obtain fr own' where own: "own = fr # own'"
    using assms(2) by (cases own) auto
  have "findCaller (pathDir file) False (take 10 stack) = findCaller (pathDir file) True (own' @ caller # rest)"
    using assms(1,3,4) by (simp add: findCaller_skip own)
  also have "\<dots> = Some (frameInfo caller)"
    using assms(4,5) by (simp add: findCaller_own own)
  finally show ?thesis
    using assms(1) by (simp add: getFuncInfo_def Let_def)
qed

lemma pkgCall_level: "pkgCall f now fi = logPrint now fi (pkgLevel f)"
  by (cases f) (simp_all add: pkgPrint_def logDebug_def logError_def logWarn_def logInfo_def)

lemma mainLogger_default:
  "mainLogger debug defaultLogger =
    \<lparr>lg_Lev = (if debug then DEBUG else INFO), lg_Name = [], lg_Handlers = [Stdout \<lparr>dh_format = mainFormat, dh_out = []\<rparr>]\<rparr>"
  by (simp add: mainLogger_def pkg_SetLevel_def log_SetLevel_def SetHandlers_def GetHandlers_def defaultLogger_def handlerSetFormat_def DefaultHandler_def)

section \<open>Properties\<close>

text \<open>The caller of a log message: when the stack is some frames of the runtime, then frames of the package, and
  then the frame of a function of another package, the message names the file and line of that frame
  and the path of that package: the function name up to the first dot after the last slash.\<close>

theorem log_caller:
  assumes "take 10 stack = pre @ own @ caller # rest" and "own \<noteq> []"
    and "list_all (\<lambda>fr. pathDir (fr_File fr) \<noteq> pathDir file) pre" and "list_all (\<lambda>fr. pathDir (fr_File fr) = pathDir file) own"
    and "pathDir (fr_File caller) \<noteq> pathDir file"
    and "fr_Function caller = joinOn CHR ''/'' (dirs @ [pkg @ CHR ''.'' # fn])" and "list_all (\<lambda>d. CHR ''/'' \<notin> set d) dirs"
    and "CHR ''/'' \<notin> set pkg" and "CHR ''.'' \<notin> set pkg" and "CHR ''/'' \<notin> set fn"
  shows "getFuncInfo (Some file) stack =
    Some \<lparr>fi_mod = joinOn CHR ''/'' (dirs @ [pkg]), fi_fileName = pathBase (fr_File caller), fi_line = fr_Line caller\<rparr>"
proof -
  have "splitOn CHR ''/'' (fr_Function caller) = dirs @ [pkg @ CHR ''.'' # fn]"
    unfolding assms(6) using assms(7-10) by (intro splitOn_joinOn) auto
  then have "frameInfo caller = \<lparr>fi_mod = joinOn CHR ''/'' (dirs @ [pkg]), fi_fileName = pathBase (fr_File caller), fi_line = fr_Line caller\<rparr>"
    using assms(9) by (simp add: frameInfo_def Let_def splitOn_append)
  with getFuncInfo_caller [OF assms(1-5)] show ?thesis
    by simp
qed

definition sampleStack :: "callFrame list" where
  "sampleStack =
     [\<lparr>fr_File = ''/go/runtime/extern.go'', fr_Function = ''runtime.Callers'', fr_Line = 325\<rparr>,
      \<lparr>fr_File = ''/df/log/func.go'', fr_Function = ''github.com/libsdf/df/log.getFuncInfo'', fr_Line = 23\<rparr>,
      \<lparr>fr_File = ''/df/log/log.go'', fr_Function = ''github.com/libsdf/df/log.Infof'', fr_Line = 80\<rparr>,
      \<lparr>fr_File = ''/df/h2s/server.go'', fr_Function = ''github.com/libsdf/df/h2s.Server'', fr_Line = 92\<rparr>]"

theorem log_caller_witness:
  "getFuncInfo (Some ''/df/log/func.go'') sampleStack = Some \<lparr>fi_mod = ''github.com/libsdf/df/h2s'', fi_fileName = ''server.go'', fi_line = 92\<rparr>"
proof -
  have d: "pathDir ''/go/runtime/extern.go'' = ''/go/runtime''" "pathDir ''/df/log/func.go'' = ''/df/log''" "pathDir ''/df/log/log.go'' = ''/df/log''"
    "pathDir ''/df/h2s/server.go'' = ''/df/h2s''" "pathBase ''/df/h2s/server.go'' = ''server.go''"
    by (simp_all add: pathDir_def pathClean_def pathBase_def)
  show ?thesis
    using log_caller [of sampleStack "take 1 sampleStack" "take 2 (drop 1 sampleStack)" "sampleStack ! 3" "[]" "''/df/log/func.go''"
        "[''github.com'', ''libsdf'', ''df'']" "''h2s''" "''Server''"]
    by (simp add: sampleStack_def d eval_nat_numeral)
qed

text \<open>What is written after the set-up of the programs: a message of a level up to \<open>INFO\<close>, or up to \<open>DEBUG\<close> with the
  flag \<open>-d\<close>, adds one line in the format of the programs, with the caller of the message; every other
  message changes nothing, and \<open>Print\<close>, \<open>Printf\<close> and \<open>Println\<close> of the package never write anything.\<close>

theorem main_logging:
  assumes "getFuncInfo fileThis stack = Some fi"
  shows "(pkgLevel f \<le> (if debug then DEBUG else INFO) \<longrightarrow>
      (\<exists>h nl. pkgLog f fileThis stack now body (mainLogger debug defaultLogger) = Some ((mainLogger debug defaultLogger)\<lparr>lg_Handlers := [Stdout h]\<rparr>) \<and>
        dh_out h = formatMessage mainFormat (makeMessage now fi (pkgLevel f) body (mainLogger debug defaultLogger)) @ nl \<and> nl \<in> {[], [char_of (10 :: nat)]})) \<and>
    (\<not> pkgLevel f \<le> (if debug then DEBUG else INFO) \<longrightarrow>
      pkgLog f fileThis stack now body (mainLogger debug defaultLogger) = Some (mainLogger debug defaultLogger)) \<and>
    pkgLog PkgPrint fileThis stack now body (mainLogger debug defaultLogger) = Some (mainLogger debug defaultLogger)"
  using assms
  by (auto simp: pkgLog_def mainLogger_default pkgCall_level logPrint_def handlerWrite_def default_Write_def Let_def level_defs)

theorem main_logging_witness:
  "pkgLog PkgDebug None [] sampleTime ''hi'' (mainLogger False defaultLogger) = Some (mainLogger False defaultLogger) \<and>
   pkgLog PkgDebug None [] sampleTime ''hi'' (mainLogger True defaultLogger) \<noteq> Some (mainLogger True defaultLogger)"
proof -
  have f: "getFuncInfo None [] = Some \<lparr>fi_mod = [], fi_fileName = [], fi_line = 0\<rparr>"
    by (simp add: getFuncInfo_def)
  have "lm_Message (makeMessage sampleTime \<lparr>fi_mod = [], fi_fileName = [], fi_line = 0\<rparr> DEBUG ''hi'' (mainLogger True defaultLogger)) = ''hi''"
    by (simp add: makeMessage_def)
  have "default_Write msg h \<noteq> h" for msg h
    by (auto simp: default_Write_def Let_def dest: arg_cong [of _ _ dh_out])
  then show ?thesis
    using main_logging [OF f, of PkgDebug False sampleTime "''hi''"] main_logging [OF f, of PkgDebug True sampleTime "''hi''"]
    by (simp add: level_defs mainLogger_default pkgLog_def f pkgCall_level logPrint_def handlerWrite_def)
qed

end
