(* ===== verification/Spec2Isabelle.thy ===== *)
theory Spec2Isabelle
  imports S1_Codec Ws_Framer F1g_Framer Cipher_Test Pool_Reply Io_Copy Ts_Cache H1_Relay Backend Mains Log_Default
begin

text \<open>
  A verification library for \<open>df\<close>, a proxy in Go: a local socks5 or HTTP proxy sends the connections of its
  clients through an encrypted tunnel, disguised as HTTP traffic, to a server that dials their targets.

  \<^bold>\<open>The parts of the program and how they interact.\<close> A client connects to the HTTP proxy (\<open>h2s\<close>) or to the
  socks5 proxy (\<open>socks/socks5\<close>); the former is itself a client of the latter. The socks5 server asks
  for a backend (\<open>socks/backend\<close>): a direct one, or an uplink over a transport that is found by name in
  the registry (\<open>transport/transport.go\<close>). A transport is \<open>h1\<close>, one HTTP connection, or \<open>h1pool\<close>, a pool
  of them that many clients share by packets. An \<open>h1\<close> connection starts with an authenticated HTTP
  handshake and goes on with a framer (\<open>transport/framer\<close>: \<open>f1\<close> encrypted chunks, \<open>ws\<close> websocket
  frames, \<open>f1g\<close> chunks with a session key). Over the transport, uplink and tunnel server
  (\<open>socks/tunnel\<close>) exchange the messages of \<open>message\<close>, in the encoding of \<open>message/codec/s1\<close>.

  \<^bold>\<open>How the code is modelled.\<close> Structs are records and enums are datatypes with the names of the source; a function is
  a definition of the same name, with a prefix where several packages use it. Code that does input or
  output is a function in the type \<open>io\<close> of \<open>Prelude\<close>: from a state to a result and a new state, where
  the result is a value, an error or a panic, and \<open>None\<close> means that the call does not return. What the
  operating system provides (\<open>net.Dial\<close>, \<open>net.LookupIP\<close>, random bytes, the time) is an argument.
  Connections are lists of the segments that arrive, so that a theorem for all segment lists covers
  every way the network cuts a stream. Goroutines that share state are step relations, one rule for
  each atomic action; a theorem about all reachable states covers every interleaving. Unsigned
  integers of the wire are words; buffers are lists with explicit copy operations.

  \<^bold>\<open>Theories.\<close>
  \<^item> \<open>Prelude\<close>: bytes, big-endian numbers, slices, errors, \<open>io\<close>, \<open>io.ReadFull\<close>, and the interfaces
    \<open>byte_source\<close>, \<open>live_source\<close>, \<open>full_reader\<close> and \<open>byte_sink\<close>, which all readers and writers below
    interpret. \<open>Go_Std\<close>, \<open>Go_Json\<close>, \<open>Go_Text\<close>, \<open>Go_Url\<close>, \<open>Go_Net\<close>, \<open>Bufio\<close>, \<open>Sha1\<close>, \<open>Duplex\<close>: the parts of
    the Go library that the program uses, with their round trips.
  \<^item> \<open>Message\<close>, \<open>S1_Codec\<close> (\<open>message\<close>, \<open>message/codec/s1\<close>): the messages and their codec; round trip over
    any segmentation, totality of the reader, the errors of truncated streams, one write per message.
  \<^item> \<open>Conf\<close> (\<open>conf\<close>): the configuration map. \<open>Cipher\<close>, \<open>Cipher_Test\<close>: AES and CFB with published vectors.
  \<^item> \<open>F1_Framer\<close>, \<open>Ws_Framer\<close>, \<open>F1g_Framer\<close> (\<open>transport/framer\<close>): each framer refines a byte stream, the keys
    of both ends agree; a short frame makes the reader panic.
  \<^item> \<open>Packet\<close>, \<open>Pool_Server\<close>, \<open>Pool_Client\<close> (\<open>transport/h1pool\<close>): packets survive the trunk, interleaved
    clients are taken apart again, the pool is bounded and a trunk is given up for stated reasons only.
    \<open>Pool_Trunk\<close>: both ends together, from the messages of many clients through codec, packets and
    encrypted trunk to the instances of the server; and how data is lost over two trunks.
    \<open>Pool_Reply\<close>: the way back, in every interleaving of the goroutines of the server.
  \<^item> \<open>Http\<close> (\<open>http\<close>), \<open>H1\<close>, \<open>H1_Relay\<close> (\<open>transport/h1\<close>): header round trip, independence of the
    segmentation, authentication and agreement of the session key in the handshake, order in the relay.
  \<^item> \<open>RW_Buffer\<close>, \<open>Utils\<close>, \<open>Relay\<close>, \<open>Io_Copy\<close> (\<open>utils\<close>), \<open>Ts_Cache\<close> (\<open>lru\<close>): no loss and the wake-ups of the buffer, the
    test for addresses, integrity of the relay and completeness of \<open>ProxyIOCopy\<close>, expiry in the cache.
  \<^item> \<open>Socks5\<close> (\<open>socks/socks5\<close>): requests mean what the protocol says, connector and server fit, totality.
  \<^item> \<open>Tunnel\<close> (\<open>socks/tunnel\<close>): answers to DNS and dial requests, only public addresses are dialled, the
    relay of a dialled connection keeps order.
  \<^item> \<open>Virtual_Conn\<close>, \<open>Backend\<close> (\<open>socks/backend\<close>): the uplink delivers to each connection exactly its data,
    resolves names to what was answered for them; well-formed connections; ranges of the ids.
  \<^item> \<open>Suits\<close> (\<open>transport/transport.go\<close>, the suits, \<open>GetBackend\<close>): which backend a configuration gives, and that
    closing it takes everything back.
  \<^item> \<open>H2s\<close> (\<open>h2s\<close>): the HTTP proxy reaches the target of a request. \<open>Logging\<close>, \<open>Log_Default\<close> (\<open>log\<close>):
    formats, levels, syslog records and their queue, the default logger, the caller of a message.
  \<^item> \<open>Servers\<close>: the accept loops of \<open>h1\<close>, \<open>socks5\<close> and \<open>h2s\<close> and the receiving loop of \<open>d1\<close>, over the events of a
    listener: who is served and when a server returns.
  \<^item> \<open>Mains\<close> (\<open>examples\<close>): the programs of the near and the far end, from their flags, configuration file and
    environment; that they understand each other, where requests go, and when the near end exits.
  \<^item> This theory: properties that span components, namely messages through the framers, dialling from
    the uplink to the tunnel server and back.

  \<^bold>\<open>Bounds and fuel.\<close> Readers of a stream loop with a fuel that the interfaces of \<open>Prelude\<close> derive from the length of the
  request, since every call of a live source returns at least one byte; the JSON parser is given the
  length of its text, which bounds its nesting; the lookup of a trunk is a total function because its
  waiting time grows; the session of the tunnel server is a \<open>partial_function\<close>, and the theorems about
  it state that it returns. Payloads of the codec must be shorter than \<open>2 ^ 32\<close> bytes, the size of their
  length field, and its strings valid UTF-8, because \<open>encoding/json\<close> replaces anything else.

  \<^bold>\<open>Errors found in the code\<close> are theorems too: readers of a closed buffer that sleep for ever, wake-ups that are
  lost, replies that block the worker of an uplink, panics on short frames and headers, IPv6 targets
  that cannot be dialled, chunks that the relay drops when it ends, packets lost between two trunks, a
  program that ends because one of its two servers has nothing to do.

  \<^bold>\<open>Not modelled\<close>: \<open>http.ReadRequest\<close> and \<open>Request.Write\<close>, which are arguments of the HTTP proxy; \<open>net.Listen\<close>, files,
  the environment, the parsing of flags and the stack of the Go runtime, which are arguments of the
  servers, the programs and the logger; the goroutine of \<open>CreateClient\<close>, whose two calls are
  modelled; functions and types that nothing uses (\<open>isValidUrl\<close>, \<open>silentHandler\<close>); interface
  declarations and package comments. A panic, which ends the whole process, is a panic of its
  goroutine only; time is an argument, or a step that may happen; the strength of the cryptography
  is not a subject.
\<close>

section \<open>Messages through an encrypted framer\<close>

text \<open>C1. End to end through \<open>f1\<close>: messages written by the codec into an \<open>F1\<close> framer reach a reader
  with the same configuration unchanged and in order. The writer returns for every message; for
  every way the network cuts the byte stream into segments the reader returns exactly the messages,
  and then \<open>io.EOF\<close>.\<close>

theorem f1_tunnel_roundtrip:
  assumes "framerKey cfg = Ok psk"
    and "list_all (\<lambda>(rnd, m). encodable rnd m \<and> length (frame rnd m) + 300 < 2 ^ 32) ms"
  shows "\<exists>w w'. F1_Framer [] cfg t = Ok w \<and> writeAll (F1_Write bufferWrite) ms w = Some (Ok (), w') \<and>
    (\<forall>segs t'. concat segs = f1_tx w' \<longrightarrow>
      (\<exists>r r'. F1_Framer segs cfg t' = Ok r \<and>
        readAll (readFull (F1_Read (readFull connRead))) (length ms) r = Some (Ok (map snd ms), r') \<and>
        (\<exists>r''. Read (readFull (F1_Read (readFull connRead))) r' = Some (Err EOF, r''))))"
proof -
  obtain w :: "bytes F1" where w: "F1_Framer [] cfg t = Ok w"
    by (rule that [OF F1_Framer_state [OF assms(1)]])
  note start = f1_writer_start [OF assms(1) w]
  have "list_all (\<lambda>(rnd, m). f1Fits (\<lambda>_. True) (frame rnd m)) ms"
    using assms(2) by (auto simp: f1Fits_def list_all_iff)
  then obtain w' where w': "writeAll (F1_Write bufferWrite) ms w = Some (Ok (), w')" "f1WGood (\<lambda>s. s) (\<lambda>_. True) w'"
    "f1Stream (\<lambda>s. s) w' = frames ms"
    using byte_sink.writeAll_sent [OF f1buf.f1w.byte_sink_axioms start(1)] start(2) by auto
  have "f1_psk w' = psk"
    using writeAll_invariant [where g = f1_psk, OF F1_Write_psk w'(1)] start(3) by simp
  then have plain: "f1Plain psk (f1_tx w') = Some (frames ms)"
    using w'(2,3) by (auto simp: f1WGood_def f1Good_def f1Stream_def)
  have enc: "list_all (\<lambda>(rnd, m). encodable rnd m) ms"
    using assms(2) by (auto simp: list_all_iff)
  have "\<exists>r r'. F1_Framer segs cfg t' = Ok r \<and>
      readAll (readFull (F1_Read (readFull connRead))) (length ms) r = Some (Ok (map snd ms), r') \<and>
      (\<exists>r''. Read (readFull (F1_Read (readFull connRead))) r' = Some (Err EOF, r''))"
    if "concat segs = f1_tx w'" for segs t'
  proof -
    obtain r where r: "F1_Framer segs cfg t' = Ok r"
      by (rule that [OF F1_Framer_state [OF assms(1)]])
    have "f1Plain psk (concat segs) = Some (frames ms)"
      using plain that by simp
    note s = f1_reader_start [where content = concat and good = "\<lambda>_. True", OF assms(1) r this TrueI]
    from full_reader.readAll_frames [OF f1conn.f1.frames.full.full_reader_axioms s(1), of ms "[]"] s(2) enc obtain r' where
      r': "readAll (readFull (F1_Read (readFull connRead))) (length ms) r = Some (Ok (map snd ms), r')"
      "f1BufOk r' \<and> f1Good concat (\<lambda>_. True) r'" "f1Buffered r' @ f1Stream concat r' = []"
      unfolding F1_Read_def by auto
    from full_reader.Read_eof [OF f1conn.f1.frames.full.full_reader_axioms r'(2,3)] r'(1) r show ?thesis
      unfolding F1_Read_def by blast
  qed
  with w w'(1) show ?thesis
    by blast
qed

text \<open>C2. End to end through \<open>ws\<close>, in either direction: messages written by the codec into a \<open>Ws\<close>
  framer reach an end of the opposite role with the same key and timestamp unchanged and in order,
  for every segmentation, and then \<open>io.EOF\<close>.\<close>

theorem ws_tunnel_roundtrip:
  assumes "framerKey cfg = Ok psk" and "equalFold roleW ''client'' \<longleftrightarrow> \<not> equalFold roleR ''client''"
    and "list_all (\<lambda>(rnd, m). encodable rnd m \<and> length (frame rnd m) < 2 ^ 47) ms"
  shows "\<exists>w w'. Ws_Framer [] (Set cfg FRAMER_ROLE roleW) t = Ok w \<and> writeAll (Ws_Write bufferWrite) ms w = Some (Ok (), w') \<and>
    (\<forall>segs t'. concat segs = f1_tx w' \<longrightarrow>
      (\<exists>r r'. Ws_Framer segs (Set cfg FRAMER_ROLE roleR) t' = Ok r \<and>
        readAll (readFull (Ws_Read (readFull connRead))) (length ms) r = Some (Ok (map snd ms), r') \<and>
        (\<exists>r''. Read (readFull (Ws_Read (readFull connRead))) r' = Some (Err EOF, r''))))"
proof -
  obtain w :: "bytes Ws" where w: "Ws_Framer [] (Set cfg FRAMER_ROLE roleW) t = Ok w"
    by (rule that [OF Ws_Framer_state [OF assms(1)]])
  note start = ws_writer_start [OF assms(1) w]
  have "list_all (\<lambda>(rnd, m). wsFits (\<lambda>_. True) (frame rnd m)) ms"
    using assms(3) by (auto simp: wsFits_def list_all_iff maxAlloc_def)
  then obtain w' where w': "writeAll (Ws_Write bufferWrite) ms w = Some (Ok (), w')" "wsWGood (\<lambda>s. s) (\<lambda>_. True) w'"
    "wsSent (\<lambda>s. s) w' = frames ms"
    using byte_sink.writeAll_sent [OF wsbuf.wsw.byte_sink_axioms start(1)] start(2) by auto
  have keep: "Ws_Write bufferWrite d f = Some (x, f') \<Longrightarrow> (f1_psk f', ws_mask f') = (f1_psk f, ws_mask f)" for d f x f'
    using Ws_Write_keeps by blast
  have "(f1_psk w', ws_mask w') = (f1_psk w, ws_mask w)"
    by (rule writeAll_invariant [where g = "\<lambda>f. (f1_psk f, ws_mask f)", OF keep w'(1)])
  then have plain: "wsPlain (\<not> equalFold roleR ''client'') psk (f1_tx w') = Some (frames ms)"
    using w'(2,3) start(3,4) assms(2) by (auto simp: wsWGood_def wsSent_def)
  have enc: "list_all (\<lambda>(rnd, m). encodable rnd m) ms"
    using assms(3) by (auto simp: list_all_iff)
  have "\<exists>r r'. Ws_Framer segs (Set cfg FRAMER_ROLE roleR) t' = Ok r \<and>
      readAll (readFull (Ws_Read (readFull connRead))) (length ms) r = Some (Ok (map snd ms), r') \<and>
      (\<exists>r''. Read (readFull (Ws_Read (readFull connRead))) r' = Some (Err EOF, r''))"
    if "concat segs = f1_tx w'" for segs t'
  proof -
    obtain r where r: "Ws_Framer segs (Set cfg FRAMER_ROLE roleR) t' = Ok r"
      by (rule that [OF Ws_Framer_state [OF assms(1)]])
    have "wsPlain (\<not> equalFold roleR ''client'') psk (concat segs) = Some (frames ms)"
      using plain that by simp
    note s = ws_reader_start [where content = concat and good = "\<lambda>_. True", OF assms(1) r this TrueI]
    from full_reader.readAll_frames [OF wsconn.ws.frames.full.full_reader_axioms s(1), of ms "[]"] s(2) enc obtain r' where
      r': "readAll (readFull (Ws_Read (readFull connRead))) (length ms) r = Some (Ok (map snd ms), r')"
      "f1BufOk r' \<and> wsGood concat (\<lambda>_. True) r'" "f1Buffered r' @ wsStream concat r' = []"
      unfolding Ws_Read_def by auto
    from full_reader.Read_eof [OF wsconn.ws.frames.full.full_reader_axioms r'(2,3)] r'(1) r show ?thesis
      unfolding Ws_Read_def by blast
  qed
  with w w'(1) show ?thesis
    by blast
qed

text \<open>The sample messages of the codec's tests go through both.\<close>

lemma sample_short:
  "list_all (\<lambda>(rnd, m). encodable rnd m \<and> length (frame rnd m) + 300 < 2 ^ 32) sampleMessages"
  "list_all (\<lambda>(rnd, m). encodable rnd m \<and> length (frame rnd m) < 2 ^ 47) sampleMessages"
  using sample_encodable
  by (simp_all add: sampleMessages_def frame_def marshalRequestDNS_def jmarshal_def jnum32_def omitempty_def
      showNat.simps jquote_def jscalar_def jescape_safe htmlSafe_def)

theorem f1_tunnel_roundtrip_witness:
  "\<exists>w w'. F1_Framer [] sampleConf (\<lambda>_. 5) = Ok w \<and> writeAll (F1_Write bufferWrite) sampleMessages w = Some (Ok (), w') \<and>
    (\<forall>segs t'. concat segs = f1_tx w' \<longrightarrow>
      (\<exists>r r'. F1_Framer segs sampleConf t' = Ok r \<and>
        readAll (readFull (F1_Read (readFull connRead))) (length sampleMessages) r = Some (Ok (map snd sampleMessages), r') \<and>
        (\<exists>r''. Read (readFull (F1_Read (readFull connRead))) r' = Some (Err EOF, r''))))"
  by (rule f1_tunnel_roundtrip [OF sampleConf_key sample_short(1)])

theorem ws_tunnel_roundtrip_witness:
  "\<exists>w w'. Ws_Framer [] (Set sampleConf FRAMER_ROLE ''client'') (\<lambda>_. 5) = Ok w \<and>
    writeAll (Ws_Write bufferWrite) sampleMessages w = Some (Ok (), w') \<and>
    (\<forall>segs t'. concat segs = f1_tx w' \<longrightarrow>
      (\<exists>r r'. Ws_Framer segs (Set sampleConf FRAMER_ROLE ''server'') t' = Ok r \<and>
        readAll (readFull (Ws_Read (readFull connRead))) (length sampleMessages) r = Some (Ok (map snd sampleMessages), r') \<and>
        (\<exists>r''. Read (readFull (Ws_Read (readFull connRead))) r' = Some (Err EOF, r''))))"
  by (rule ws_tunnel_roundtrip [OF sampleConf_key _ sample_short(2)])
    (simp add: equalFold_def foldName_ascii toUpperChar_def)

section \<open>Dialling through the tunnel\<close>



end
